(* ===== verification/Prelude.thy ===== *)
theory Prelude
  imports Main "HOL-Library.Word"
begin

text \<open>
  Shared vocabulary of the bydb development: the machine integers of the Go code, its errors and
  panics as values, the collections of rewrite rules the component theories fill, and the list
  lemmas they share. Strings are Go strings, that is lists of bytes.
\<close>

section \<open>Types\<close>

type_synonym u64 = "64 word"
type_synonym i64 = "64 word"
type_synonym rune = nat

text \<open>
  Every error value and every panic the code can raise. \<open>ErrLib\<close> carries the text of an error
  that a package outside the repository returned; the last three are runtime panics.
\<close>

datatype gerror =
    ErrSyntax
  | ErrRange
  | ErrFormat string
  | ErrUnknownCommand
  | ErrNoShard string
  | ErrLib string
  | ErrMsg string
  | NilDeref
  | IndexOutOfRange
  | DivideByZero

text \<open>A call that can panic: it returns, or the process goes down.\<close>

datatype 'a outcome = Done 'a | Panic gerror

fun and_then :: "'a outcome \<Rightarrow> ('a \<Rightarrow> 'b outcome) \<Rightarrow> 'b outcome" where
  "and_then (Done a) f = f a"
| "and_then (Panic e) f = Panic e"

fun map_outcome :: "('a \<Rightarrow> 'b) \<Rightarrow> 'a outcome \<Rightarrow> 'b outcome" where
  "map_outcome f (Done a) = Done (f a)"
| "map_outcome f (Panic e) = Panic e"

section \<open>Collections of rules\<close>

named_theorems parse_simps "how a pattern runs on a string of its own shape"
named_theorems outcome_eqs "what a result that is no panic says of the steps before it"

section \<open>Outcomes\<close>

lemma and_then_assoc: "and_then (and_then x f) g = and_then x (\<lambda>a. and_then (f a) g)"
  by (cases x) simp_all

lemma and_then_Done [simp]: "and_then x Done = x"
  by (cases x) simp_all

lemma and_then_eq_Done [outcome_eqs]: "and_then x f = Done b \<longleftrightarrow> (\<exists>a. x = Done a \<and> f a = Done b)"
  by (cases x) simp_all

lemma map_outcome_eq_Done [outcome_eqs]: "map_outcome f x = Done b \<longleftrightarrow> (\<exists>a. x = Done a \<and> b = f a)"
  by (cases x) auto

section \<open>The last element that satisfies a predicate\<close>

text \<open>
  A loop \<^verbatim>\<open>for i := len(xs)-1; i >= 0; i--\<close> that returns the first hit is a search in the reversed
  list.
\<close>

definition last_match :: "('a \<Rightarrow> bool) \<Rightarrow> 'a list \<Rightarrow> 'a option" where
  "last_match P xs = find P (rev xs)"

lemma last_match_Nil [simp]: "last_match P [] = None"
  by (simp add: last_match_def)

lemma last_match_snoc [simp]:
  "last_match P (xs @ [x]) = (if P x then Some x else last_match P xs)"
  by (simp add: last_match_def)

lemma find_append: "find P (xs @ ys) = (case find P xs of None \<Rightarrow> find P ys | Some x \<Rightarrow> Some x)"
  by (induction xs) auto

lemma last_match_append:
  "last_match P (xs @ ys) = (case last_match P ys of None \<Rightarrow> last_match P xs | Some y \<Rightarrow> Some y)"
  by (simp add: last_match_def find_append split: option.split)

lemma last_match_Some:
  "last_match P xs = Some x \<Longrightarrow> P x \<and> x \<in> set xs"
  by (induction xs rule: rev_induct) (auto split: if_splits)

lemma last_match_None: "last_match P xs = None \<longleftrightarrow> (\<forall>x \<in> set xs. \<not> P x)"
  by (induction xs rule: rev_induct) auto

lemma last_match_filter:
  assumes "\<And>x. x \<in> set xs \<Longrightarrow> P x \<Longrightarrow> Q x"
  shows "last_match P (filter Q xs) = last_match P xs"
  using assms by (induction xs rule: rev_induct) auto

lemma last_match_split:
  assumes "last_match P xs = Some x"
  obtains ys zs where "xs = ys @ x # zs" and "P x" and "\<forall>z \<in> set zs. \<not> P z"
  using assms
proof (induction xs arbitrary: thesis rule: rev_induct)
  case Nil
  then show ?case by simp
next
  case (snoc y xs)
  show ?case
  proof (cases "P y")
    case True
    with snoc.prems show ?thesis by auto
  next
    case False
    with snoc.prems(2) have "last_match P xs = Some x" by simp
    then obtain ys zs where "xs = ys @ x # zs" "P x" "\<forall>z \<in> set zs. \<not> P z"
      using snoc.IH by blast
    then show ?thesis using False snoc.prems(1) [of ys "zs @ [y]"] by simp
  qed
qed

section \<open>Small list facts\<close>

lemma split_at_first:
  assumes "x \<in> set xs"
  obtains ys zs where "xs = ys @ x # zs" and "x \<notin> set ys"
  using assms by (meson split_list_first)

lemma append_eq_delim:
  assumes "xs @ d # ys = xs' @ d # ys'" and "d \<notin> set xs" and "d \<notin> set xs'"
  shows "xs = xs' \<and> ys = ys'"
  using assms
proof (induction xs arbitrary: xs')
  case Nil
  then show ?case by (cases xs') auto
next
  case (Cons x xs)
  then show ?case by (cases xs') auto
qed

lemma fold_max_set:
  fixes x :: "'a::linorder"
  shows "fold max ys x = Max (insert x (set ys))"
  by (metis Max.set_eq_fold list.set(2))

lemma fold_max_ge: "(x::'a::linorder) \<le> fold max ys x"
  by (simp add: fold_max_set)

end
