(* ===== verification/GoLib.thy ===== *)
theory GoLib
  imports Prelude
begin

text \<open>
  The parts of Go's standard library that bydb's own code computes with: \<^verbatim>\<open>strings\<close>, \<^verbatim>\<open>strconv\<close>,
  the decoding of the first rune of a string, and the lexical path functions of
  \<^verbatim>\<open>path/filepath\<close>. A string is its bytes, so a non-ASCII rune is several characters here.
\<close>

section \<open>strings\<close>

definition has_prefix :: "string \<Rightarrow> string \<Rightarrow> bool" where
  "has_prefix s p \<longleftrightarrow> take (length p) s = p"

lemma has_prefix_iff: "has_prefix s p \<longleftrightarrow> (\<exists>t. s = p @ t)"
  by (metis append_eq_conv_conj append_take_drop_id has_prefix_def)

lemma has_prefix_append [simp]: "has_prefix (p @ s) p"
  by (simp add: has_prefix_def)

definition trim_prefix :: "string \<Rightarrow> string \<Rightarrow> string" where
  "trim_prefix s p = (if has_prefix s p then drop (length p) s else s)"

text \<open>\<^verbatim>\<open>strings.Split(s, sep)\<close> for a separator of one byte.\<close>

fun split_char :: "char \<Rightarrow> string \<Rightarrow> string list" where
  "split_char d [] = [[]]"
| "split_char d (c # cs) =
     (if c = d then [] # split_char d cs
      else (case split_char d cs of [] \<Rightarrow> [[c]] | w # ws \<Rightarrow> (c # w) # ws))"

lemma split_char_nonempty [simp]: "split_char d s \<noteq> []"
  by (induction s) (auto split: list.splits)

lemma split_char_no_sep: "d \<notin> set s \<Longrightarrow> split_char d s = [s]"
  by (induction s) auto

lemma split_char_sep: "d \<notin> set s \<Longrightarrow> split_char d (s @ d # t) = s # split_char d t"
  by (induction s) auto

lemma split_char_append: "split_char d (s @ d # t) = split_char d s @ split_char d t"
proof (induction s)
  case Nil
  then show ?case by simp
next
  case (Cons c s)
  then show ?case by (cases "split_char d s") auto
qed

lemma hd_split_char: "hd (split_char d s) = takeWhile (\<lambda>c. c \<noteq> d) s"
  by (induction s) (auto split: list.splits)

fun join_with :: "char \<Rightarrow> string list \<Rightarrow> string" where
  "join_with d [] = []"
| "join_with d [w] = w"
| "join_with d (w # ws) = w @ d # join_with d ws"

lemma join_with_snoc: "join_with d (ws @ [w]) = (if ws = [] then w else join_with d ws @ d # w)"
proof (induction ws)
  case Nil
  then show ?case by simp
next
  case (Cons x ws)
  then show ?case by (cases ws) auto
qed

lemma join_split_char: "join_with d (split_char d s) = s"
proof (induction s)
  case Nil
  then show ?case by simp
next
  case (Cons c s)
  then show ?case by (cases "split_char d s" rule: list.exhaust; cases "tl (split_char d s)") auto
qed

text \<open>
  \<^verbatim>\<open>strings.Replace(s, old, new, -1)\<close> for a non-empty \<^verbatim>\<open>old\<close>: every occurrence, left to right, not
  overlapping.
\<close>

function replace_all :: "string \<Rightarrow> string \<Rightarrow> string \<Rightarrow> string" where
  "replace_all old new [] = []"
| "replace_all old new (c # cs) =
     (if old \<noteq> [] \<and> has_prefix (c # cs) old
      then new @ replace_all old new (drop (length old) (c # cs))
      else c # replace_all old new cs)"
  by pat_completeness auto
termination
  by (relation "measure (\<lambda>(old, new, s). length s)") auto

section \<open>Runes\<close>

text \<open>
  \<^verbatim>\<open>for _, c := range str\<close> decodes UTF-8. A byte that starts no valid encoding yields U+FFFD, the
  replacement rune.
\<close>

abbreviation byte_of :: "char \<Rightarrow> nat" where
  "byte_of c \<equiv> of_char c"

definition is_cont :: "nat \<Rightarrow> bool" where
  "is_cont b \<longleftrightarrow> 128 \<le> b \<and> b \<le> 191"

definition rune_error :: rune where
  "rune_error = 65533"

fun decode_rune :: "nat list \<Rightarrow> rune" where
  "decode_rune [] = rune_error"
| "decode_rune (a # bs) =
    (if a < 128 then a
     else if 194 \<le> a \<and> a \<le> 223 then
       (case bs of b # _ \<Rightarrow> if is_cont b then (a - 192) * 64 + (b - 128) else rune_error
        | [] \<Rightarrow> rune_error)
     else if 224 \<le> a \<and> a \<le> 239 then
       (case bs of
          b # c # _ \<Rightarrow>
            if is_cont b \<and> is_cont c \<and> (a = 224 \<longrightarrow> 160 \<le> b) \<and> (a = 237 \<longrightarrow> b \<le> 159)
            then (a - 224) * 4096 + (b - 128) * 64 + (c - 128) else rune_error
        | _ \<Rightarrow> rune_error)
     else if 240 \<le> a \<and> a \<le> 244 then
       (case bs of
          b # c # d # _ \<Rightarrow>
            if is_cont b \<and> is_cont c \<and> is_cont d \<and> (a = 240 \<longrightarrow> 144 \<le> b) \<and> (a = 244 \<longrightarrow> b \<le> 143)
            then (a - 240) * 262144 + (b - 128) * 4096 + (c - 128) * 64 + (d - 128)
            else rune_error
        | _ \<Rightarrow> rune_error)
     else rune_error)"

lemma decode_rune_ascii: "decode_rune (a # bs) = r \<Longrightarrow> r < 128 \<Longrightarrow> a = r"
  by (auto simp: rune_error_def is_cont_def split: if_splits list.splits)

section \<open>strconv\<close>

definition is_digit :: "char \<Rightarrow> bool" where
  "is_digit c \<longleftrightarrow> 48 \<le> byte_of c \<and> byte_of c \<le> 57"

definition digit_val :: "char \<Rightarrow> nat" where
  "digit_val c = byte_of c - 48"

definition max_u64 :: nat where
  "max_u64 = 18446744073709551615"

text \<open>
  The loop of \<^verbatim>\<open>strconv.ParseUint(s, 10, 64)\<close>: a byte that is no digit is a syntax error with value
  0; an accumulator past the cutoff, or a sum past the largest value, is a range error with the
  largest value, found before later bytes are looked at.
\<close>

fun parse_uint_loop :: "nat \<Rightarrow> string \<Rightarrow> u64 \<times> gerror option" where
  "parse_uint_loop n [] = (of_nat n, None)"
| "parse_uint_loop n (c # cs) =
     (if \<not> is_digit c then (0, Some ErrSyntax)
      else if max_u64 div 10 + 1 \<le> n then (of_nat max_u64, Some ErrRange)
      else let n1 = n * 10 + digit_val c in
        if max_u64 < n1 then (of_nat max_u64, Some ErrRange)
        else parse_uint_loop n1 cs)"

definition parse_uint64 :: "string \<Rightarrow> u64 \<times> gerror option" where
  "parse_uint64 s = (if s = [] then (0, Some ErrSyntax) else parse_uint_loop 0 s)"

text \<open>
  \<^verbatim>\<open>strconv.ParseInt(s, 10, 64)\<close>: an optional sign, then \<^verbatim>\<open>ParseUint\<close>, then the bounds of the signed
  range.
\<close>

definition parse_int64 :: "string \<Rightarrow> i64 \<times> gerror option" where
  "parse_int64 s =
    (case s of
       [] \<Rightarrow> (0, Some ErrSyntax)
     | c # cs \<Rightarrow>
        (let neg = (c = CHR ''-'');
             body = (if c = CHR ''+'' \<or> neg then cs else s);
             r = parse_uint64 body
         in if snd r \<noteq> None \<and> snd r \<noteq> Some ErrRange then (0, snd r)
            else if \<not> neg \<and> 9223372036854775808 \<le> unat (fst r)
              then (9223372036854775807, Some ErrRange)
            else if neg \<and> 9223372036854775808 < unat (fst r)
              then (- 9223372036854775808, Some ErrRange)
            else (if neg then - fst r else fst r, None)))"

fun dec_val :: "nat \<Rightarrow> string \<Rightarrow> nat" where
  "dec_val n [] = n"
| "dec_val n (c # cs) = dec_val (n * 10 + digit_val c) cs"

lemma dec_val_ge: "n \<le> dec_val n s"
proof (induction s arbitrary: n)
  case Nil
  then show ?case by simp
next
  case (Cons c s)
  have "n \<le> n * 10 + digit_val c" by simp
  also have "\<dots> \<le> dec_val (n * 10 + digit_val c) s" by (rule Cons.IH)
  finally show ?case by simp
qed

lemma dec_val_ge_step: "n * 10 \<le> dec_val n (c # s)"
  using dec_val_ge [of "n * 10 + digit_val c" s] by simp

lemma parse_uint_loop_digits:
  assumes "list_all is_digit s" and "n \<le> max_u64"
  shows "parse_uint_loop n s =
    (if dec_val n s \<le> max_u64 then (of_nat (dec_val n s), None)
     else (of_nat max_u64, Some ErrRange))"
  using assms
proof (induction s arbitrary: n)
  case Nil
  then show ?case by simp
next
  case (Cons c s)
  consider (cut) "max_u64 div 10 + 1 \<le> n"
    | (over) "\<not> max_u64 div 10 + 1 \<le> n" "max_u64 < n * 10 + digit_val c"
    | (go) "\<not> max_u64 div 10 + 1 \<le> n" "n * 10 + digit_val c \<le> max_u64"
    by linarith
  then show ?case
  proof cases
    case cut
    then have "max_u64 < n * 10" by (simp add: max_u64_def)
    with dec_val_ge_step [of n c s] have "\<not> dec_val n (c # s) \<le> max_u64" by linarith
    with cut Cons.prems show ?thesis by (simp del: dec_val.simps)
  next
    case over
    with dec_val_ge [of "n * 10 + digit_val c" s] have "\<not> dec_val n (c # s) \<le> max_u64" by simp
    with over Cons.prems show ?thesis by (simp del: dec_val.simps add: Let_def)
  next
    case go
    with Cons show ?thesis by (simp add: Let_def)
  qed
qed

lemma parse_uint64_digits:
  assumes "list_all is_digit s" and "s \<noteq> []"
  shows "parse_uint64 s =
    (if dec_val 0 s \<le> max_u64 then (of_nat (dec_val 0 s), None)
     else (of_nat max_u64, Some ErrRange))"
  using assms parse_uint_loop_digits [of s 0] by (simp add: parse_uint64_def)

lemma is_digit_sign: "is_digit c \<Longrightarrow> c \<noteq> CHR ''-'' \<and> c \<noteq> CHR ''+''"
  by (auto simp: is_digit_def)

lemma parse_int64_digits:
  assumes "list_all is_digit s" and "s \<noteq> []"
  shows "parse_int64 s =
    (if dec_val 0 s < 9223372036854775808 then (of_nat (dec_val 0 s), None)
     else (9223372036854775807, Some ErrRange))"
proof -
  obtain c cs where s: "s = c # cs" using assms(2) by (cases s) auto
  with assms(1) have c: "c \<noteq> CHR ''-''" "c \<noteq> CHR ''+''"
    using is_digit_sign by auto
  have small: "unat (of_nat (dec_val 0 s) :: u64) = dec_val 0 s" if "dec_val 0 s \<le> max_u64"
    using that by (simp add: max_u64_def unat_of_nat)
  have big: "unat (of_nat max_u64 :: u64) = max_u64"
    by (simp add: max_u64_def)
  show ?thesis
  proof (cases "dec_val 0 s \<le> max_u64")
    case True
    with parse_uint64_digits [OF assms] have "parse_uint64 s = (of_nat (dec_val 0 s), None)"
      by simp
    with s c small [OF True] show ?thesis
      by (simp add: parse_int64_def del: dec_val.simps)
  next
    case False
    with parse_uint64_digits [OF assms]
    have "parse_uint64 s = (of_nat max_u64, Some ErrRange)" by simp
    with s c big False show ?thesis
      by (simp add: parse_int64_def max_u64_def del: dec_val.simps)
  qed
qed

section \<open>Decimal printing\<close>

text \<open>\<^verbatim>\<open>fmt.Sprintf("%d", n)\<close> for an unsigned value.\<close>

definition digit_char :: "nat \<Rightarrow> char" where
  "digit_char d = char_of (48 + d)"

fun show_nat :: "nat \<Rightarrow> string" where
  "show_nat n = (if n < 10 then [digit_char n] else show_nat (n div 10) @ [digit_char (n mod 10)])"

declare show_nat.simps [simp del]

definition fmt_u64 :: "u64 \<Rightarrow> string" where
  "fmt_u64 w = show_nat (unat w)"

text \<open>\<^verbatim>\<open>%d\<close> of an \<^verbatim>\<open>int64\<close>.\<close>

definition fmt_i64 :: "i64 \<Rightarrow> string" where
  "fmt_i64 t = (if sint t < 0 then CHR ''-'' # show_nat (nat (- sint t)) else show_nat (nat (sint t)))"

lemma digit_char_digit:
  assumes "d < 10"
  shows "is_digit (digit_char d) \<and> digit_val (digit_char d) = d"
proof -
  from assms have "byte_of (digit_char d) = 48 + d"
    by (simp add: digit_char_def of_char_of)
  with assms show ?thesis by (simp add: is_digit_def digit_val_def)
qed

lemma show_nat_digits: "list_all is_digit (show_nat n)"
proof (induction n rule: show_nat.induct)
  case (1 n)
  then show ?case
    by (subst show_nat.simps) (simp add: digit_char_digit)
qed

lemma show_nat_nonempty: "show_nat n \<noteq> []"
  by (subst show_nat.simps) simp

lemma dec_val_append: "dec_val n (xs @ ys) = dec_val (dec_val n xs) ys"
  by (induction xs arbitrary: n) auto

lemma dec_val_show_nat: "dec_val 0 (show_nat n) = n"
proof (induction n rule: show_nat.induct)
  case (1 n)
  show ?case
  proof (cases "n < 10")
    case True
    then show ?thesis by (subst show_nat.simps) (simp add: digit_char_digit)
  next
    case False
    with 1 show ?thesis
      by (subst show_nat.simps) (simp add: dec_val_append digit_char_digit)
  qed
qed

text \<open>What is printed in decimal is read back: the round trip of the stored index.\<close>

lemma parse_fmt_u64: "parse_uint64 (fmt_u64 w) = (w, None)"
proof -
  have "unat w < 2 ^ LENGTH(64)" by (rule unsigned_less)
  then have "unat w \<le> max_u64" by (simp add: max_u64_def)
  then show ?thesis
    using parse_uint64_digits [OF show_nat_digits show_nat_nonempty, of "unat w"]
    by (simp add: fmt_u64_def dec_val_show_nat)
qed

lemma show_nat_length: "n < 10 ^ Suc k \<Longrightarrow> length (show_nat n) \<le> Suc k"
proof (induction k arbitrary: n)
  case 0
  then show ?case by (subst show_nat.simps) simp
next
  case (Suc k)
  show ?case
  proof (cases "n < 10")
    case True
    then show ?thesis by (subst show_nat.simps) simp
  next
    case False
    have "n div 10 < 10 ^ Suc k" using Suc.prems by (simp add: less_mult_imp_div_less)
    with Suc.IH False show ?thesis by (subst show_nat.simps) simp
  qed
qed

lemma fmt_u64_nonempty: "fmt_u64 w \<noteq> []"
  by (simp add: fmt_u64_def show_nat_nonempty)

lemma fmt_u64_length: "length (fmt_u64 w) \<le> 20"
proof -
  have "unat w < 2 ^ LENGTH(64)" by (rule unsigned_less)
  then have "unat w < 10 ^ Suc 19" by simp
  then show ?thesis unfolding fmt_u64_def using show_nat_length [of "unat w" 19] by simp
qed

end
