(* ===== verification/Regex.thy ===== *)
theory Regex
  imports GoLib
begin

text \<open>
  The fragment of Go's \<^verbatim>\<open>regexp\<close> that the command table uses: patterns anchored at both ends,
  literal bytes, flat capturing groups, and the greedy repetitions of \<^verbatim>\<open>\S\<close>, \<^verbatim>\<open>\d\<close> and \<^verbatim>\<open>.\<close>. A pattern
  is compiled from its source text; matching cuts the string into one piece per item, and a group
  is the concatenation of the pieces inside it. Bytes stand for runes: the three classes hold
  every byte above 127, and every item next to a repetition is an ASCII byte, so byte-wise and
  rune-wise matching take the same pieces.
\<close>

section \<open>Syntax\<close>

datatype rx_class = NotSpace | Digit | AnyButNewline

datatype rx_item = RChar char | RStar rx_class | RPlus rx_class | ROpen | RClose

definition is_space :: "char \<Rightarrow> bool" where
  "is_space c \<longleftrightarrow> byte_of c \<in> {9, 10, 12, 13, 32}"

fun in_class :: "rx_class \<Rightarrow> char \<Rightarrow> bool" where
  "in_class NotSpace c = (\<not> is_space c)"
| "in_class Digit c = is_digit c"
| "in_class AnyButNewline c = (byte_of c \<noteq> 10)"

definition backslash :: char where
  "backslash = CHR 0x5C"

definition esc :: "char \<Rightarrow> string" where
  "esc c = [backslash, c]"

definition rx_class_of :: "char \<Rightarrow> rx_class option" where
  "rx_class_of c =
    (if c = CHR ''S'' then Some NotSpace else if c = CHR ''d'' then Some Digit else None)"

definition rx_repeat :: "rx_class \<Rightarrow> char \<Rightarrow> rx_item option" where
  "rx_repeat k c =
    (if c = CHR ''+'' then Some (RPlus k) else if c = CHR ''*'' then Some (RStar k) else None)"

text \<open>
  A brace that does not open a repetition count is a literal, as Go's parser has it.
\<close>

fun rx_atoms :: "string \<Rightarrow> rx_item list option" where
  "rx_atoms [] = Some []"
| "rx_atoms (c # cs) =
    (if c = CHR ''('' then map_option (Cons ROpen) (rx_atoms cs)
     else if c = CHR '')'' then map_option (Cons RClose) (rx_atoms cs)
     else if c = backslash then
       (case cs of
          d # r # rest \<Rightarrow>
            (case Option.bind (rx_class_of d) (\<lambda>k. rx_repeat k r) of
               Some i \<Rightarrow> map_option (Cons i) (rx_atoms rest) | None \<Rightarrow> None)
        | _ \<Rightarrow> None)
     else if c = CHR ''.'' then
       (case cs of
          r # rest \<Rightarrow>
            (case rx_repeat AnyButNewline r of
               Some i \<Rightarrow> map_option (Cons i) (rx_atoms rest) | None \<Rightarrow> None)
        | _ \<Rightarrow> None)
     else if c = CHR ''{'' \<and> (case cs of d # _ \<Rightarrow> is_digit d | [] \<Rightarrow> False) then None
     else if c \<in> set ''+*?|[]^$'' then None
     else map_option (Cons (RChar c)) (rx_atoms cs))"

definition rx_compile :: "string \<Rightarrow> rx_item list option" where
  "rx_compile p =
    (if 2 \<le> length p \<and> hd p = CHR ''^'' \<and> last p = CHR ''$'' then rx_atoms (butlast (tl p))
     else None)"

section \<open>Matching\<close>

text \<open>
  Backtracking, longest repetition first: the pieces of the match Go prefers, or \<open>None\<close>.
\<close>

fun grow :: "char \<Rightarrow> string list option \<Rightarrow> string list option" where
  "grow x (Some (p # ps)) = Some ((x # p) # ps)"
| "grow x _ = None"

fun or_else :: "'a option \<Rightarrow> 'a option \<Rightarrow> 'a option" where
  "or_else (Some a) b = Some a"
| "or_else None b = b"

fun rx_run :: "rx_item list \<Rightarrow> string \<Rightarrow> string list option" where
  "rx_run [] s = (if s = [] then Some [] else None)"
| "rx_run (ROpen # r) s = map_option (Cons []) (rx_run r s)"
| "rx_run (RClose # r) s = map_option (Cons []) (rx_run r s)"
| "rx_run (RChar c # r) [] = None"
| "rx_run (RChar c # r) (x # s) = (if x = c then map_option (Cons [x]) (rx_run r s) else None)"
| "rx_run (RPlus k # r) [] = None"
| "rx_run (RPlus k # r) (x # s) =
     (if in_class k x then grow x (rx_run (RStar k # r) s) else None)"
| "rx_run (RStar k # r) [] = map_option (Cons []) (rx_run r [])"
| "rx_run (RStar k # r) (x # s) =
     or_else (if in_class k x then grow x (rx_run (RStar k # r) s) else None)
       (map_option (Cons []) (rx_run r (x # s)))"

lemma grow_eq_Some: "grow x o1 = Some qs \<longleftrightarrow> (\<exists>p ps. o1 = Some (p # ps) \<and> qs = (x # p) # ps)"
  by (cases "(x, o1)" rule: grow.cases) auto

lemma or_else_eq_Some: "or_else a b = Some x \<longleftrightarrow> a = Some x \<or> a = None \<and> b = Some x"
  by (cases a) auto

fun rx_groups :: "rx_item list \<Rightarrow> string list \<Rightarrow> string option \<Rightarrow> string list" where
  "rx_groups (ROpen # r) (p # ps) g = rx_groups r ps (Some [])"
| "rx_groups (RClose # r) (p # ps) g =
     (case g of Some w \<Rightarrow> w # rx_groups r ps None | None \<Rightarrow> rx_groups r ps None)"
| "rx_groups (i # r) (p # ps) g = rx_groups r ps (map_option (\<lambda>w. w @ p) g)"
| "rx_groups _ _ _ = []"

definition find_submatch :: "rx_item list \<Rightarrow> string \<Rightarrow> string list option" where
  "find_submatch r s = map_option (\<lambda>ps. s # rx_groups r ps None) (rx_run r s)"

definition match_string :: "rx_item list \<Rightarrow> string \<Rightarrow> bool" where
  "match_string r s \<longleftrightarrow> rx_run r s \<noteq> None"

section \<open>What a match is\<close>

text \<open>
  The declarative reading: a way to cut the string into one piece per item, each piece allowed by
  its item.
\<close>

fun piece_ok :: "rx_item \<Rightarrow> string \<Rightarrow> bool" where
  "piece_ok (RChar c) p = (p = [c])"
| "piece_ok (RStar k) p = list_all (in_class k) p"
| "piece_ok (RPlus k) p = (p \<noteq> [] \<and> list_all (in_class k) p)"
| "piece_ok ROpen p = (p = [])"
| "piece_ok RClose p = (p = [])"

fun cuts :: "rx_item list \<Rightarrow> string list \<Rightarrow> bool" where
  "cuts [] ps = (ps = [])"
| "cuts (i # r) ps = (\<exists>p qs. ps = p # qs \<and> piece_ok i p \<and> cuts r qs)"

lemma cuts_Cons_Cons [simp]: "cuts (i # r) (p # ps) \<longleftrightarrow> piece_ok i p \<and> cuts r ps"
  by simp

lemma rx_run_sound: "rx_run r s = Some ps \<Longrightarrow> cuts r ps \<and> concat ps = s"
  by (induction r s arbitrary: ps rule: rx_run.induct)
    (fastforce simp: grow_eq_Some or_else_eq_Some split: if_splits)+

text \<open>A repetition takes as much as it can, and a longer first piece wins over a shorter one.\<close>

fun prefers :: "string list \<Rightarrow> string list \<Rightarrow> bool" where
  "prefers (p # ps) (q # qs) \<longleftrightarrow> length q < length p \<or> (length q = length p \<and> prefers ps qs)"
| "prefers ps qs \<longleftrightarrow> True"

lemma star_grows:
  assumes IH: "\<And>qs. cuts (RStar k # r) qs \<Longrightarrow> concat qs = s \<Longrightarrow>
      \<exists>ps. rx_run (RStar k # r) s = Some ps \<and> prefers ps qs"
    and p: "list_all (in_class k) p" and qs: "cuts r qs" and s: "p @ concat qs = s"
  shows "\<exists>ps. grow x (rx_run (RStar k # r) s) = Some ps \<and> prefers ps ((x # p) # qs)"
proof -
  have "cuts (RStar k # r) (p # qs)" "concat (p # qs) = s" using p qs s by simp_all
  then obtain ps where ps: "rx_run (RStar k # r) s = Some ps" "prefers ps (p # qs)"
    using IH by blast
  moreover from ps(1) have "cuts (RStar k # r) ps" using rx_run_sound by blast
  then obtain p' ps' where "ps = p' # ps'" by auto
  ultimately show ?thesis by auto
qed

lemma rx_run_complete:
  "cuts r qs \<Longrightarrow> concat qs = s \<Longrightarrow> \<exists>ps. rx_run r s = Some ps \<and> prefers ps qs"
proof (induction r s arbitrary: qs rule: rx_run.induct)
  case (7 k r x s)
  then obtain q qs' where q: "qs = q # qs'" "q \<noteq> []" "list_all (in_class k) q" "cuts r qs'"
      "q @ concat qs' = x # s"
    by auto
  then obtain p where "q = x # p" "in_class k x" "list_all (in_class k) p" "p @ concat qs' = s"
    by (cases q) auto
  with q "7.IH" show ?case using star_grows [of k r s p qs' x] by simp
next
  case (9 k r x s)
  then obtain q qs' where q: "qs = q # qs'" "list_all (in_class k) q" "cuts r qs'"
      "q @ concat qs' = x # s"
    by auto
  show ?case
  proof (cases q)
    case Nil
    with q have "cuts r qs'" "concat qs' = x # s" by simp_all
    then obtain ps where ps: "rx_run r (x # s) = Some ps" "prefers ps qs'"
      using "9.IH"(2) by blast
    show ?thesis
    proof (cases "if in_class k x then grow x (rx_run (RStar k # r) s) else None")
      case None
      with ps q Nil show ?thesis by simp
    next
      case (Some a)
      then obtain p ps where "a = (x # p) # ps" by (auto simp: grow_eq_Some split: if_splits)
      with Some q Nil show ?thesis by simp
    qed
  next
    case (Cons y p)
    with q have p: "in_class k x" "list_all (in_class k) p" "p @ concat qs' = s" "y = x"
      by auto
    then obtain ps where "grow x (rx_run (RStar k # r) s) = Some ps" "prefers ps ((x # p) # qs')"
      using star_grows [of k r s p qs' x] "9.IH"(1) q(3) by blast
    with p Cons q show ?thesis by simp
  qed
qed (fastforce simp: append_eq_Cons_conv Cons_eq_append_conv)+

lemma match_string_iff: "match_string r s \<longleftrightarrow> (\<exists>qs. cuts r qs \<and> concat qs = s)"
  using rx_run_complete rx_run_sound by (fastforce simp: match_string_def)

section \<open>Runs on strings of the pattern's own shape\<close>

text \<open>
  The patterns separate their groups by a byte the repeated class does not hold, so the cut is
  forced. These rules run a pattern on a string written in its shape.
\<close>

lemma star_close_delim [parse_simps]:
  assumes "list_all (in_class k) p" and "\<not> in_class k d"
  shows "rx_run (RStar k # RClose # RChar d # r) (p @ d # s) =
    map_option (\<lambda>ps. p # [] # [d] # ps) (rx_run r s)"
  using assms
proof (induction p)
  case Nil
  then show ?case by (cases "rx_run r s") auto
next
  case (Cons x p)
  then have "x \<noteq> d" by auto
  with Cons show ?case by (cases "rx_run r s") auto
qed

lemma plus_close_delim [parse_simps]:
  assumes "list_all (in_class k) p" and "p \<noteq> []" and "\<not> in_class k d"
  shows "rx_run (RPlus k # RClose # RChar d # r) (p @ d # s) =
    map_option (\<lambda>ps. p # [] # [d] # ps) (rx_run r s)"
proof -
  obtain x q where "p = x # q" using assms(2) by (cases p) auto
  then show ?thesis
    using assms star_close_delim [of k q d r s] by (cases "rx_run r s") simp_all
qed

lemma star_close_end [parse_simps]:
  "rx_run [RStar k, RClose] p = (if list_all (in_class k) p then Some [p, []] else None)"
  by (induction p) auto

lemma plus_close_end [parse_simps]:
  "rx_run [RPlus k, RClose] p =
    (if p \<noteq> [] \<and> list_all (in_class k) p then Some [p, []] else None)"
  by (cases p) (auto simp: star_close_end)

end
