(* ===== verification/Document.thy ===== *)
theory Document
  imports Regex "HOL-Library.Finite_Map"
begin

text \<open>
  \<^verbatim>\<open>document/document.go\<close>: the document a JSON text decodes to. An \<^verbatim>\<open>any\<close> value is what
  \<^verbatim>\<open>encoding/json\<close> builds for it; a float64 is its bit pattern. \<^verbatim>\<open>None\<close> is the nil map or slice.
\<close>

datatype go_any =
    AnyNil
  | AnyBool bool
  | AnyFloat u64
  | AnyString string
  | AnySlice "go_any list"
  | AnyMap "(string, go_any) fmap"

record Document =
  docId :: string
  docPart :: string
  docIndex :: "(string, go_any) fmap option"
  docCategories :: "string list option"
  docBlock :: "(string, go_any) fmap option"
  docUpdated :: i64
  docCreated :: i64

text \<open>The zero value, \<^verbatim>\<open>Document{}\<close>.\<close>

definition zeroDocument :: Document where
  "zeroDocument = \<lparr>docId = [], docPart = [], docIndex = None, docCategories = None,
     docBlock = None, docUpdated = 0, docCreated = 0\<rparr>"

text \<open>
  \<^verbatim>\<open>json.Unmarshal\<close> into a \<^verbatim>\<open>Document\<close>, as a function of the bytes: a parameter of every definition
  that decodes, so that what is proved holds for any decoder that is a function.
\<close>

type_synonym json_decoder = "string \<Rightarrow> gerror + Document"

end
