(* ===== verification/Command.thy ===== *)
theory Command
  imports Document
begin

text \<open>
  \<^verbatim>\<open>command/command.go\<close>: the text protocol. A table of formats, each a prefix, a pattern and a
  parser of the captured groups; \<open>ParseCommand\<close> runs the first format whose prefix the message
  has.
\<close>

section \<open>Commands\<close>

datatype CommandType =
    GET | PUT | DEL | POST | SEARCH | CREATE_PART | DELETE_PART | JOIN_NODE | REMOVE_NODE

text \<open>
  The source numbers the types from 0 (\<^verbatim>\<open>iota\<close>) as a \<^verbatim>\<open>uint64\<close>; the order of the numbers is the order of
  the types.
\<close>

fun type_number :: "CommandType \<Rightarrow> u64" where
  "type_number GET = 0" | "type_number PUT = 1" | "type_number DEL = 2" | "type_number POST = 3"
| "type_number SEARCH = 4" | "type_number CREATE_PART = 5" | "type_number DELETE_PART = 6"
| "type_number JOIN_NODE = 7" | "type_number REMOVE_NODE = 8"

lemma type_number_inject: "type_number a = type_number b \<longleftrightarrow> a = b"
  by (cases a; cases b) simp_all

instantiation CommandType :: linorder
begin

definition less_eq_CommandType :: "CommandType \<Rightarrow> CommandType \<Rightarrow> bool" where
  "less_eq_CommandType a b \<longleftrightarrow> type_number a \<le> type_number b"

definition less_CommandType :: "CommandType \<Rightarrow> CommandType \<Rightarrow> bool" where
  "less_CommandType a b \<longleftrightarrow> type_number a < type_number b"

instance
  by standard (auto simp: less_eq_CommandType_def less_CommandType_def type_number_inject less_le_not_le
    dest: antisym)

end

record Command =
  cmdType :: CommandType
  cmdDoc :: "Document option"
  cmdQuery :: string
  cmdId :: string
  cmdPart :: string
  cmdRaw :: string
  cmdStringDoc :: string
  cmdBytesDoc :: string
  cmdIndex :: u64
  cmdTs :: i64
  cmdIsPart :: bool

definition FullId :: "Command \<Rightarrow> string" where
  "FullId c = cmdPart c @ '':'' @ cmdId c"

text \<open>What \<^verbatim>\<open>Run\<close> starts from: \<^verbatim>\<open>&Command{Raw: raw, Doc: &Document{}}\<close>; the zero type is \<open>GET\<close>.\<close>

definition newCommand :: "string \<Rightarrow> Command" where
  "newCommand raw = \<lparr>cmdType = GET, cmdDoc = Some zeroDocument, cmdQuery = [], cmdId = [],
     cmdPart = [], cmdRaw = raw, cmdStringDoc = [], cmdBytesDoc = [], cmdIndex = 0, cmdTs = 0,
     cmdIsPart = False\<rparr>"

section \<open>The format table\<close>

type_synonym CommandParser = "Command \<Rightarrow> string list \<Rightarrow> gerror + Command"

record CommandFormat =
  Prefix :: string
  regexPattern :: "rx_item list"
  Pattern :: string
  parser :: CommandParser

definition NewCommandFormat :: "string \<Rightarrow> string \<Rightarrow> CommandParser \<Rightarrow> CommandFormat outcome" where
  "NewCommandFormat pre pat f =
    (case rx_compile pat of
       None \<Rightarrow> Panic (ErrMsg pat)
     | Some r \<Rightarrow> Done \<lparr>Prefix = pre, regexPattern = r, Pattern = pat, parser = f\<rparr>)"

definition Test :: "CommandFormat \<Rightarrow> string \<Rightarrow> bool" where
  "Test f raw = has_prefix raw (Prefix f @ '' '')"

definition Run :: "CommandFormat \<Rightarrow> string \<Rightarrow> gerror + Command" where
  "Run f raw =
    (if \<not> match_string (regexPattern f) raw then Inl (ErrFormat (Prefix f))
     else case find_submatch (regexPattern f) raw of
        None \<Rightarrow> Inl (ErrFormat (Prefix f))
      | Some parts \<Rightarrow> parser f (newCommand raw) parts)"

fun parseGet :: CommandParser where
  "parseGet cmd parts =
    Inr (cmd\<lparr>cmdType := GET, cmdPart := parts ! 1, cmdId := parts ! 2\<rparr>)"

fun parseDel :: CommandParser where
  "parseDel cmd parts =
    (let c = cmd\<lparr>cmdType := DEL, cmdPart := parts ! 1, cmdId := parts ! 2\<rparr>
     in case parse_int64 (parts ! 3) of
          (ts, Some e) \<Rightarrow> Inl e
        | (ts, None) \<Rightarrow> Inr (c\<lparr>cmdTs := ts\<rparr>))"

fun parsePut :: "json_decoder \<Rightarrow> CommandParser" where
  "parsePut js cmd parts =
    (let c = cmd\<lparr>cmdType := PUT, cmdStringDoc := parts ! 2, cmdBytesDoc := parts ! 2\<rparr>
     in case js (cmdBytesDoc c) of
          Inl e \<Rightarrow> Inl e
        | Inr d \<Rightarrow>
           (let c2 = c\<lparr>cmdDoc := Some d, cmdPart := docPart d, cmdId := docId d\<rparr>
            in case parse_int64 (parts ! 1) of
                 (ts, Some e) \<Rightarrow> Inl e
               | (ts, None) \<Rightarrow> Inr (c2\<lparr>cmdTs := ts\<rparr>)))"

fun parsePost :: "json_decoder \<Rightarrow> CommandParser" where
  "parsePost js cmd parts =
    (let c = cmd\<lparr>cmdType := POST, cmdStringDoc := parts ! 1, cmdBytesDoc := parts ! 1\<rparr>
     in case js (cmdBytesDoc c) of
          Inl e \<Rightarrow> Inl e
        | Inr d \<Rightarrow>
           Inr (c\<lparr>cmdDoc := Some d, cmdPart := docPart d, cmdId := docId d,
                  cmdTs := docCreated d\<rparr>))"

fun parseSearch :: CommandParser where
  "parseSearch cmd parts =
    Inr (cmd\<lparr>cmdType := SEARCH, cmdPart := parts ! 1, cmdQuery := parts ! 2\<rparr>)"

fun parseCreatePart :: CommandParser where
  "parseCreatePart cmd parts =
    Inr (cmd\<lparr>cmdType := CREATE_PART, cmdPart := parts ! 1, cmdIsPart := True\<rparr>)"

fun parseDeletePart :: CommandParser where
  "parseDeletePart cmd parts =
    Inr (cmd\<lparr>cmdType := DELETE_PART, cmdPart := parts ! 1, cmdIsPart := True\<rparr>)"

fun parseJoinNode :: CommandParser where
  "parseJoinNode cmd parts = Inr (cmd\<lparr>cmdType := JOIN_NODE, cmdId := parts ! 1\<rparr>)"

fun parseRemoveNode :: CommandParser where
  "parseRemoveNode cmd parts = Inr (cmd\<lparr>cmdType := REMOVE_NODE, cmdId := parts ! 1\<rparr>)"

lemmas parser_simps = parseGet.simps parseDel.simps parsePut.simps parsePost.simps
  parseSearch.simps parseCreatePart.simps parseDeletePart.simps parseJoinNode.simps
  parseRemoveNode.simps

declare parser_simps [simp del]

text \<open>The patterns as the source writes them; \<open>esc c\<close> is a backslash and \<open>c\<close>.\<close>

definition patGet :: string where
  "patGet = ''^GET ('' @ esc CHR ''S'' @ ''+) ('' @ esc CHR ''S'' @ ''+)$''"

definition patDel :: string where
  "patDel = ''^DEL ('' @ esc CHR ''S'' @ ''+) ('' @ esc CHR ''S'' @ ''+) ('' @ esc CHR ''d'' @ ''+)$''"

definition patPut :: string where
  "patPut = ''^PUT ('' @ esc CHR ''d'' @ ''+) ({.*})$''"

definition patPost :: string where
  "patPost = ''^POST ({.*})$''"

definition patSearch :: string where
  "patSearch = ''^SEARCH ('' @ esc CHR ''S'' @ ''+) (.+)$''"

definition patCreatePart :: string where
  "patCreatePart = ''^CREATE_PART ('' @ esc CHR ''S'' @ ''+)$''"

definition patDeletePart :: string where
  "patDeletePart = ''^DELETE_PART ('' @ esc CHR ''S'' @ ''+)$''"

definition patJoinNode :: string where
  "patJoinNode = ''^JOIN_NODE ('' @ esc CHR ''S'' @ ''+)$''"

definition patRemoveNode :: string where
  "patRemoveNode = ''^REMOVE_NODE ('' @ esc CHR ''d'' @ ''+)$''"

text \<open>
  The package variable \<open>CommandFormats\<close>, built when the program starts: one failed compilation
  and the program panics.
\<close>

fun sequence_outcomes :: "'a outcome list \<Rightarrow> 'a list outcome" where
  "sequence_outcomes [] = Done []"
| "sequence_outcomes (x # xs) =
     and_then x (\<lambda>a. and_then (sequence_outcomes xs) (\<lambda>as. Done (a # as)))"

definition initCommandFormats :: "json_decoder \<Rightarrow> CommandFormat list outcome" where
  "initCommandFormats js = sequence_outcomes
    [NewCommandFormat ''GET'' patGet parseGet,
     NewCommandFormat ''DEL'' patDel parseDel,
     NewCommandFormat ''PUT'' patPut (parsePut js),
     NewCommandFormat ''POST'' patPost (parsePost js),
     NewCommandFormat ''SEARCH'' patSearch parseSearch,
     NewCommandFormat ''CREATE_PART'' patCreatePart parseCreatePart,
     NewCommandFormat ''DELETE_PART'' patDeletePart parseDeletePart,
     NewCommandFormat ''JOIN_NODE'' patJoinNode parseJoinNode,
     NewCommandFormat ''REMOVE_NODE'' patRemoveNode parseRemoveNode]"

fun parseWith :: "CommandFormat list \<Rightarrow> string \<Rightarrow> gerror + Command" where
  "parseWith [] raw = Inl ErrUnknownCommand"
| "parseWith (f # fs) raw = (if Test f raw then Run f raw else parseWith fs raw)"

text \<open>The table that initialisation yields, with its compiled patterns written out.\<close>

abbreviation litItems :: "string \<Rightarrow> rx_item list" where
  "litItems s \<equiv> map RChar s"

definition fmtGet :: "CommandFormat" where
  "fmtGet = \<lparr>Prefix = ''GET'',
     regexPattern = litItems ''GET '' @ [ROpen, RPlus NotSpace, RClose, RChar CHR '' '',
       ROpen, RPlus NotSpace, RClose],
     Pattern = patGet, parser = parseGet\<rparr>"

definition fmtDel :: "CommandFormat" where
  "fmtDel = \<lparr>Prefix = ''DEL'',
     regexPattern = litItems ''DEL '' @ [ROpen, RPlus NotSpace, RClose, RChar CHR '' '',
       ROpen, RPlus NotSpace, RClose, RChar CHR '' '', ROpen, RPlus Digit, RClose],
     Pattern = patDel, parser = parseDel\<rparr>"

definition fmtPut :: "json_decoder \<Rightarrow> CommandFormat" where
  "fmtPut js = \<lparr>Prefix = ''PUT'',
     regexPattern = litItems ''PUT '' @ [ROpen, RPlus Digit, RClose, RChar CHR '' '',
       ROpen, RChar CHR ''{'', RStar AnyButNewline, RChar CHR ''}'', RClose],
     Pattern = patPut, parser = parsePut js\<rparr>"

definition fmtPost :: "json_decoder \<Rightarrow> CommandFormat" where
  "fmtPost js = \<lparr>Prefix = ''POST'',
     regexPattern = litItems ''POST '' @ [ROpen, RChar CHR ''{'', RStar AnyButNewline, RChar CHR ''}'', RClose],
     Pattern = patPost, parser = parsePost js\<rparr>"

definition fmtSearch :: "CommandFormat" where
  "fmtSearch = \<lparr>Prefix = ''SEARCH'',
     regexPattern = litItems ''SEARCH '' @ [ROpen, RPlus NotSpace, RClose, RChar CHR '' '',
       ROpen, RPlus AnyButNewline, RClose],
     Pattern = patSearch, parser = parseSearch\<rparr>"

definition fmtCreatePart :: "CommandFormat" where
  "fmtCreatePart = \<lparr>Prefix = ''CREATE_PART'',
     regexPattern = litItems ''CREATE_PART '' @ [ROpen, RPlus NotSpace, RClose],
     Pattern = patCreatePart, parser = parseCreatePart\<rparr>"

definition fmtDeletePart :: "CommandFormat" where
  "fmtDeletePart = \<lparr>Prefix = ''DELETE_PART'',
     regexPattern = litItems ''DELETE_PART '' @ [ROpen, RPlus NotSpace, RClose],
     Pattern = patDeletePart, parser = parseDeletePart\<rparr>"

definition fmtJoinNode :: "CommandFormat" where
  "fmtJoinNode = \<lparr>Prefix = ''JOIN_NODE'',
     regexPattern = litItems ''JOIN_NODE '' @ [ROpen, RPlus NotSpace, RClose],
     Pattern = patJoinNode, parser = parseJoinNode\<rparr>"

definition fmtRemoveNode :: "CommandFormat" where
  "fmtRemoveNode = \<lparr>Prefix = ''REMOVE_NODE'',
     regexPattern = litItems ''REMOVE_NODE '' @ [ROpen, RPlus Digit, RClose],
     Pattern = patRemoveNode, parser = parseRemoveNode\<rparr>"

definition CommandFormats :: "json_decoder \<Rightarrow> CommandFormat list" where
  "CommandFormats js = [fmtGet, fmtDel, fmtPut js, fmtPost js, fmtSearch, fmtCreatePart,
     fmtDeletePart, fmtJoinNode, fmtRemoveNode]"

lemmas fmt_defs = fmtGet_def fmtDel_def fmtPut_def fmtPost_def fmtSearch_def fmtCreatePart_def
  fmtDeletePart_def fmtJoinNode_def fmtRemoveNode_def

definition ParseCommand :: "json_decoder \<Rightarrow> string \<Rightarrow> gerror + Command" where
  "ParseCommand js raw = parseWith (CommandFormats js) raw"

lemmas pat_defs = patGet_def patDel_def patPut_def patPost_def patSearch_def patCreatePart_def
  patDeletePart_def patJoinNode_def patRemoveNode_def

lemma initCommandFormats_eq: "initCommandFormats js = Done (CommandFormats js)"
  by (simp add: initCommandFormats_def NewCommandFormat_def CommandFormats_def fmt_defs pat_defs
      rx_compile_def esc_def backslash_def rx_class_of_def rx_repeat_def is_digit_def)

section \<open>The table as an interface\<close>

text \<open>
  What the dispatch relies on: prefixes that differ and hold no space. Then at most one format
  claims a message, and the order of the table does not matter.
\<close>

locale command_table =
  fixes formats :: "CommandFormat list"
  assumes prefixes_distinct: "distinct (map Prefix formats)"
    and prefix_no_space: "f \<in> set formats \<Longrightarrow> CHR '' '' \<notin> set (Prefix f)"
begin

lemma Test_iff: "Test f raw \<longleftrightarrow> (\<exists>s. raw = Prefix f @ CHR '' '' # s)"
  by (simp add: Test_def has_prefix_iff)

lemma Test_unique:
  assumes "f \<in> set formats" and "g \<in> set formats" and "Test f raw" and "Test g raw"
  shows "f = g"
proof -
  from assms(3,4) obtain s t where "Prefix f @ CHR '' '' # s = Prefix g @ CHR '' '' # t"
    by (auto simp: Test_iff)
  then have "Prefix f = Prefix g"
    by (rule append_eq_delim [OF _ prefix_no_space prefix_no_space, THEN conjunct1,
          OF _ assms(1,2)])
  moreover have "inj_on Prefix (set formats)" using prefixes_distinct by (simp add: distinct_map)
  ultimately show ?thesis using assms(1,2) by (simp add: inj_on_def)
qed

lemma parseWith_selected:
  assumes "set fs \<subseteq> set formats" and "f \<in> set fs" and "Test f raw"
  shows "parseWith fs raw = Run f raw"
  using assms
proof (induction fs)
  case Nil
  then show ?case by simp
next
  case (Cons g fs)
  then show ?case using Test_unique [of f g raw] by auto
qed

lemma parseWith_unclaimed: "\<forall>f \<in> set fs. \<not> Test f raw \<Longrightarrow> parseWith fs raw = Inl ErrUnknownCommand"
  by (induction fs) auto

lemma parseWith_order:
  assumes "set fs = set formats"
  shows "parseWith fs raw = parseWith formats raw"
proof (cases "\<exists>f \<in> set formats. Test f raw")
  case True
  then obtain f where "f \<in> set formats" "Test f raw" by blast
  then show ?thesis using assms parseWith_selected by (metis order_refl)
next
  case False
  then show ?thesis using assms parseWith_unclaimed by metis
qed

text \<open>The first word of a message is the prefix of the format that claims it.\<close>

lemma first_word_Test:
  assumes "f \<in> set formats"
  shows "hd (split_char CHR '' '' raw) = Prefix f \<longleftrightarrow> raw = Prefix f \<or> Test f raw"
proof
  assume h: "hd (split_char CHR '' '' raw) = Prefix f"
  show "raw = Prefix f \<or> Test f raw"
  proof (cases "CHR '' '' \<in> set raw")
    case True
    then obtain u v where "raw = u @ CHR '' '' # v" "CHR '' '' \<notin> set u"
      by (rule split_at_first)
    with h show ?thesis by (auto simp: split_char_sep Test_iff)
  next
    case False
    with h show ?thesis by (simp add: split_char_no_sep)
  qed
next
  assume "raw = Prefix f \<or> Test f raw"
  then show "hd (split_char CHR '' '' raw) = Prefix f"
    using prefix_no_space [OF assms] by (auto simp: Test_iff split_char_sep split_char_no_sep)
qed

end

lemma map_Prefix_CommandFormats: "map Prefix (CommandFormats js) =
    [''GET'', ''DEL'', ''PUT'', ''POST'', ''SEARCH'', ''CREATE_PART'', ''DELETE_PART'',
     ''JOIN_NODE'', ''REMOVE_NODE'']"
  by (simp add: CommandFormats_def fmt_defs)

interpretation cf: command_table "CommandFormats js" for js
proof
  show "distinct (map Prefix (CommandFormats js))"
    unfolding map_Prefix_CommandFormats by simp
next
  fix f assume "f \<in> set (CommandFormats js)"
  then have "Prefix f \<in> set (map Prefix (CommandFormats js))" by simp
  then show "CHR '' '' \<notin> set (Prefix f)"
    unfolding map_Prefix_CommandFormats by auto
qed

section \<open>The wire grammar\<close>

text \<open>What each command looks like on the wire, and the command it stands for.\<close>

definition token :: "string \<Rightarrow> bool" where
  "token s \<longleftrightarrow> s \<noteq> [] \<and> list_all (in_class NotSpace) s"

definition number :: "string \<Rightarrow> bool" where
  "number s \<longleftrightarrow> s \<noteq> [] \<and> list_all is_digit s"

definition line_text :: "string \<Rightarrow> bool" where
  "line_text s \<longleftrightarrow> s \<noteq> [] \<and> list_all (in_class AnyButNewline) s"

definition braced :: "string \<Rightarrow> bool" where
  "braced s \<longleftrightarrow>
    2 \<le> length s \<and> hd s = CHR ''{'' \<and> last s = CHR ''}'' \<and> list_all (in_class AnyButNewline) s"

definition fits_int64 :: "string \<Rightarrow> bool" where
  "fits_int64 n \<longleftrightarrow> dec_val 0 n < 9223372036854775808"

inductive wire :: "json_decoder \<Rightarrow> string \<Rightarrow> Command \<Rightarrow> bool" for js where
  get: "raw = ''GET '' @ p @ '' '' @ i \<Longrightarrow> token p \<Longrightarrow> token i \<Longrightarrow>
    wire js raw ((newCommand raw)\<lparr>cmdType := GET, cmdPart := p, cmdId := i\<rparr>)"
| del: "raw = ''DEL '' @ p @ '' '' @ i @ '' '' @ n \<Longrightarrow> token p \<Longrightarrow> token i \<Longrightarrow> number n \<Longrightarrow>
    fits_int64 n \<Longrightarrow>
    wire js raw ((newCommand raw)\<lparr>cmdType := DEL, cmdPart := p, cmdId := i,
      cmdTs := of_nat (dec_val 0 n)\<rparr>)"
| put: "raw = ''PUT '' @ n @ '' '' @ b \<Longrightarrow> number n \<Longrightarrow> fits_int64 n \<Longrightarrow> braced b \<Longrightarrow>
    js b = Inr d \<Longrightarrow>
    wire js raw ((newCommand raw)\<lparr>cmdType := PUT, cmdStringDoc := b, cmdBytesDoc := b,
      cmdDoc := Some d, cmdPart := docPart d, cmdId := docId d, cmdTs := of_nat (dec_val 0 n)\<rparr>)"
| post: "raw = ''POST '' @ b \<Longrightarrow> braced b \<Longrightarrow> js b = Inr d \<Longrightarrow>
    wire js raw ((newCommand raw)\<lparr>cmdType := POST, cmdStringDoc := b, cmdBytesDoc := b,
      cmdDoc := Some d, cmdPart := docPart d, cmdId := docId d, cmdTs := docCreated d\<rparr>)"
| search: "raw = ''SEARCH '' @ p @ '' '' @ q \<Longrightarrow> token p \<Longrightarrow> line_text q \<Longrightarrow>
    wire js raw ((newCommand raw)\<lparr>cmdType := SEARCH, cmdPart := p, cmdQuery := q\<rparr>)"
| create: "raw = ''CREATE_PART '' @ p \<Longrightarrow> token p \<Longrightarrow>
    wire js raw ((newCommand raw)\<lparr>cmdType := CREATE_PART, cmdPart := p, cmdIsPart := True\<rparr>)"
| delete: "raw = ''DELETE_PART '' @ p \<Longrightarrow> token p \<Longrightarrow>
    wire js raw ((newCommand raw)\<lparr>cmdType := DELETE_PART, cmdPart := p, cmdIsPart := True\<rparr>)"
| join: "raw = ''JOIN_NODE '' @ a \<Longrightarrow> token a \<Longrightarrow>
    wire js raw ((newCommand raw)\<lparr>cmdType := JOIN_NODE, cmdId := a\<rparr>)"
| remove: "raw = ''REMOVE_NODE '' @ n \<Longrightarrow> number n \<Longrightarrow>
    wire js raw ((newCommand raw)\<lparr>cmdType := REMOVE_NODE, cmdId := n\<rparr>)"

subsection \<open>The patterns on the text after the prefix\<close>

lemma class_simps [simp]:
  "\<not> in_class NotSpace CHR '' ''" "\<not> is_digit CHR '' ''" "in_class AnyButNewline CHR ''{''"
  "in_class AnyButNewline CHR ''}''"
  by (simp_all add: is_space_def is_digit_def)

lemma in_class_Digit: "in_class Digit = is_digit"
  by (simp add: fun_eq_iff)

lemma star_char_close:
  assumes "in_class k c"
  shows "rx_run [RStar k, RChar c, RClose] t =
    (if t \<noteq> [] \<and> last t = c \<and> list_all (in_class k) t then Some [butlast t, [c], []] else None)"
proof (induction t)
  case Nil
  then show ?case by simp
next
  case (Cons x t)
  then show ?case using assms by (cases t) auto
qed

lemma run_token: "rx_run [ROpen, RPlus NotSpace, RClose] s =
    (if token s then Some [[], s, []] else None)"
  by (simp add: parse_simps token_def del: in_class.simps)

lemma run_number: "rx_run [ROpen, RPlus Digit, RClose] s =
    (if number s then Some [[], s, []] else None)"
  by (simp add: parse_simps number_def in_class_Digit del: in_class.simps)

lemma run_line: "rx_run [ROpen, RPlus AnyButNewline, RClose] s =
    (if line_text s then Some [[], s, []] else None)"
  by (simp add: parse_simps line_text_def del: in_class.simps)

lemma run_braced: "rx_run [ROpen, RChar CHR ''{'', RStar AnyButNewline, RChar CHR ''}'', RClose] s =
    (if braced s then Some [[], ''{'', butlast (tl s), ''}'', []] else None)"
proof (cases s)
  case Nil
  then show ?thesis by (simp add: braced_def)
next
  case (Cons x t)
  then show ?thesis
    by (cases t) (auto simp: braced_def star_char_close simp del: in_class.simps)
qed

lemma braced_pieces:
  assumes "braced s"
  shows "CHR ''{'' # butlast (tl s) @ ''}'' = s"
proof -
  obtain t where s: "s = CHR ''{'' # t" "t \<noteq> []" "last t = CHR ''}''"
    using assms by (cases s; cases "tl s") (auto simp: braced_def)
  then have "butlast t @ [last t] = t" by (intro append_butlast_last_id)
  with s show ?thesis by simp
qed

text \<open>A group of one class, a blank, and the rest of the pattern.\<close>

lemma run_field:
  assumes "\<not> in_class k CHR '' ''"
  shows "rx_run (ROpen # RPlus k # RClose # RChar CHR '' '' # r) s = Some ps \<longleftrightarrow>
    (\<exists>p t qs. s = p @ CHR '' '' # t \<and> p \<noteq> [] \<and> list_all (in_class k) p \<and>
      rx_run r t = Some qs \<and> ps = [] # p # [] # '' '' # qs)"
    (is "?run \<longleftrightarrow> ?cut")
proof
  assume ?run
  then have "cuts (ROpen # RPlus k # RClose # RChar CHR '' '' # r) ps" "concat ps = s"
    using rx_run_sound by blast+
  then obtain p qs where p: "p \<noteq> []" "list_all (in_class k) p" "cuts r qs"
      "ps = [] # p # [] # '' '' # qs" "s = p @ CHR '' '' # concat qs"
    by (auto simp del: in_class.simps)
  with \<open>?run\<close> assms show ?cut
    by (auto simp: parse_simps simp del: in_class.simps)
next
  assume ?cut
  with assms show ?run by (auto simp: parse_simps simp del: in_class.simps)
qed

lemma run_two_tokens:
  "rx_run (ROpen # RPlus NotSpace # RClose # RChar CHR '' '' # r) s = Some ps \<longleftrightarrow>
    (\<exists>p t qs. s = p @ CHR '' '' # t \<and> token p \<and> rx_run r t = Some qs \<and>
      ps = [] # p # [] # '' '' # qs)"
  by (subst run_field) (auto simp: token_def simp del: in_class.simps)

lemma run_number_field:
  "rx_run (ROpen # RPlus Digit # RClose # RChar CHR '' '' # r) s = Some ps \<longleftrightarrow>
    (\<exists>p t qs. s = p @ CHR '' '' # t \<and> number p \<and> rx_run r t = Some qs \<and>
      ps = [] # p # [] # '' '' # qs)"
  by (subst run_field) (auto simp: number_def in_class_Digit simp del: in_class.simps)

lemma eval_token_field:
  "token p \<Longrightarrow> rx_run (ROpen # RPlus NotSpace # RClose # RChar CHR '' '' # r) (p @ CHR '' '' # t) =
    map_option (\<lambda>ps. [] # p # [] # '' '' # ps) (rx_run r t)"
  by (simp add: token_def parse_simps option.map_comp comp_def del: in_class.simps)

lemma eval_number_field:
  "number p \<Longrightarrow> rx_run (ROpen # RPlus Digit # RClose # RChar CHR '' '' # r) (p @ CHR '' '' # t) =
    map_option (\<lambda>ps. [] # p # [] # '' '' # ps) (rx_run r t)"
  by (simp add: number_def in_class_Digit parse_simps option.map_comp comp_def)

lemmas eval_rules = eval_token_field eval_number_field run_token run_number run_line run_braced

lemmas run_rules = run_token run_number run_line run_braced run_two_tokens run_number_field

subsection \<open>The parser is the grammar\<close>

text \<open>A format on a message it claims: the literal prefix, then the rest of its pattern.\<close>

lemma rx_run_lit: "rx_run (litItems w @ r) (w @ s) =
    map_option (\<lambda>ps. map (\<lambda>c. [c]) w @ ps) (rx_run r s)"
  by (induction w) (simp_all add: option.map_comp comp_def option.map_ident)

lemma rx_groups_lit: "rx_groups (litItems w @ r) (map (\<lambda>c. [c]) w @ ps) None = rx_groups r ps None"
  by (induction w) auto

lemma Run_lit:
  assumes "regexPattern f = litItems w @ r"
  shows "Run f (w @ s) =
    (case rx_run r s of None \<Rightarrow> Inl (ErrFormat (Prefix f))
     | Some ps \<Rightarrow> parser f (newCommand (w @ s)) ((w @ s) # rx_groups r ps None))"
  using assms
  by (simp add: Run_def match_string_def find_submatch_def rx_run_lit rx_groups_lit
      split: option.split)

lemma ParseCommand_claimed:
  assumes "f \<in> set (CommandFormats js)" and "regexPattern f = litItems w @ r"
    and "Prefix f = pre" and "parser f = g" and "w = pre @ '' ''"
  shows "ParseCommand js (w @ s) =
    (case rx_run r s of None \<Rightarrow> Inl (ErrFormat pre)
     | Some ps \<Rightarrow> g (newCommand (w @ s)) ((w @ s) # rx_groups r ps None))"
proof -
  have "Test f (w @ s)" using assms(1,3,5) cf.Test_iff by simp
  with assms(1) have "parseWith (CommandFormats js) (w @ s) = Run f (w @ s)"
    using cf.parseWith_selected [of "CommandFormats js" js f "w @ s"] by blast
  then have "ParseCommand js (w @ s) = Run f (w @ s)" by (simp only: ParseCommand_def)
  also have "\<dots> = (case rx_run r s of None \<Rightarrow> Inl (ErrFormat (Prefix f))
     | Some ps \<Rightarrow> parser f (newCommand (w @ s)) ((w @ s) # rx_groups r ps None))"
    by (rule Run_lit) (rule assms(2))
  finally show ?thesis by (simp only: assms(3,4))
qed

text \<open>One equation per command: the parser on a message with its prefix.\<close>

lemma parse_GET: "ParseCommand js (''GET '' @ s) =
    (case rx_run [ROpen, RPlus NotSpace, RClose, RChar CHR '' '',
      ROpen, RPlus NotSpace, RClose] s of
       None \<Rightarrow> Inl (ErrFormat ''GET'')
     | Some ps \<Rightarrow> parseGet (newCommand (''GET '' @ s)) ((''GET '' @ s) #
         rx_groups [ROpen, RPlus NotSpace, RClose, RChar CHR '' '',
      ROpen, RPlus NotSpace, RClose] ps None))"
  by (rule ParseCommand_claimed [where f = "fmtGet"]) (simp_all add: CommandFormats_def fmtGet_def)

lemma parse_DEL: "ParseCommand js (''DEL '' @ s) =
    (case rx_run [ROpen, RPlus NotSpace, RClose, RChar CHR '' '',
      ROpen, RPlus NotSpace, RClose, RChar CHR '' '', ROpen, RPlus Digit, RClose] s of
       None \<Rightarrow> Inl (ErrFormat ''DEL'')
     | Some ps \<Rightarrow> parseDel (newCommand (''DEL '' @ s)) ((''DEL '' @ s) #
         rx_groups [ROpen, RPlus NotSpace, RClose, RChar CHR '' '',
      ROpen, RPlus NotSpace, RClose, RChar CHR '' '', ROpen, RPlus Digit, RClose] ps None))"
  by (rule ParseCommand_claimed [where f = "fmtDel"]) (simp_all add: CommandFormats_def fmtDel_def)

lemma parse_PUT: "ParseCommand js (''PUT '' @ s) =
    (case rx_run [ROpen, RPlus Digit, RClose, RChar CHR '' '',
      ROpen, RChar CHR ''{'', RStar AnyButNewline, RChar CHR ''}'', RClose] s of
       None \<Rightarrow> Inl (ErrFormat ''PUT'')
     | Some ps \<Rightarrow> parsePut js (newCommand (''PUT '' @ s)) ((''PUT '' @ s) #
         rx_groups [ROpen, RPlus Digit, RClose, RChar CHR '' '',
      ROpen, RChar CHR ''{'', RStar AnyButNewline, RChar CHR ''}'', RClose] ps None))"
  by (rule ParseCommand_claimed [where f = "fmtPut js"]) (simp_all add: CommandFormats_def fmtPut_def)

lemma parse_POST: "ParseCommand js (''POST '' @ s) =
    (case rx_run [ROpen, RChar CHR ''{'', RStar AnyButNewline, RChar CHR ''}'', RClose] s of
       None \<Rightarrow> Inl (ErrFormat ''POST'')
     | Some ps \<Rightarrow> parsePost js (newCommand (''POST '' @ s)) ((''POST '' @ s) #
         rx_groups [ROpen, RChar CHR ''{'', RStar AnyButNewline, RChar CHR ''}'', RClose] ps None))"
  by (rule ParseCommand_claimed [where f = "fmtPost js"]) (simp_all add: CommandFormats_def fmtPost_def)

lemma parse_SEARCH: "ParseCommand js (''SEARCH '' @ s) =
    (case rx_run [ROpen, RPlus NotSpace, RClose, RChar CHR '' '',
      ROpen, RPlus AnyButNewline, RClose] s of
       None \<Rightarrow> Inl (ErrFormat ''SEARCH'')
     | Some ps \<Rightarrow> parseSearch (newCommand (''SEARCH '' @ s)) ((''SEARCH '' @ s) #
         rx_groups [ROpen, RPlus NotSpace, RClose, RChar CHR '' '',
      ROpen, RPlus AnyButNewline, RClose] ps None))"
  by (rule ParseCommand_claimed [where f = "fmtSearch"]) (simp_all add: CommandFormats_def fmtSearch_def)

lemma parse_CREATE_PART: "ParseCommand js (''CREATE_PART '' @ s) =
    (case rx_run [ROpen, RPlus NotSpace, RClose] s of
       None \<Rightarrow> Inl (ErrFormat ''CREATE_PART'')
     | Some ps \<Rightarrow> parseCreatePart (newCommand (''CREATE_PART '' @ s)) ((''CREATE_PART '' @ s) #
         rx_groups [ROpen, RPlus NotSpace, RClose] ps None))"
  by (rule ParseCommand_claimed [where f = "fmtCreatePart"]) (simp_all add: CommandFormats_def fmtCreatePart_def)

lemma parse_DELETE_PART: "ParseCommand js (''DELETE_PART '' @ s) =
    (case rx_run [ROpen, RPlus NotSpace, RClose] s of
       None \<Rightarrow> Inl (ErrFormat ''DELETE_PART'')
     | Some ps \<Rightarrow> parseDeletePart (newCommand (''DELETE_PART '' @ s)) ((''DELETE_PART '' @ s) #
         rx_groups [ROpen, RPlus NotSpace, RClose] ps None))"
  by (rule ParseCommand_claimed [where f = "fmtDeletePart"]) (simp_all add: CommandFormats_def fmtDeletePart_def)

lemma parse_JOIN_NODE: "ParseCommand js (''JOIN_NODE '' @ s) =
    (case rx_run [ROpen, RPlus NotSpace, RClose] s of
       None \<Rightarrow> Inl (ErrFormat ''JOIN_NODE'')
     | Some ps \<Rightarrow> parseJoinNode (newCommand (''JOIN_NODE '' @ s)) ((''JOIN_NODE '' @ s) #
         rx_groups [ROpen, RPlus NotSpace, RClose] ps None))"
  by (rule ParseCommand_claimed [where f = "fmtJoinNode"]) (simp_all add: CommandFormats_def fmtJoinNode_def)

lemma parse_REMOVE_NODE: "ParseCommand js (''REMOVE_NODE '' @ s) =
    (case rx_run [ROpen, RPlus Digit, RClose] s of
       None \<Rightarrow> Inl (ErrFormat ''REMOVE_NODE'')
     | Some ps \<Rightarrow> parseRemoveNode (newCommand (''REMOVE_NODE '' @ s)) ((''REMOVE_NODE '' @ s) #
         rx_groups [ROpen, RPlus Digit, RClose] ps None))"
  by (rule ParseCommand_claimed [where f = "fmtRemoveNode"]) (simp_all add: CommandFormats_def fmtRemoveNode_def)

lemmas parse_eqs = parse_GET parse_DEL parse_PUT parse_POST parse_SEARCH parse_CREATE_PART
  parse_DELETE_PART parse_JOIN_NODE parse_REMOVE_NODE

lemmas parse_eqs_cons = parse_eqs [unfolded append_Cons append_Nil]

lemma parse_int64_number:
  "number n \<Longrightarrow> parse_int64 n =
    (if fits_int64 n then (of_nat (dec_val 0 n), None) else (9223372036854775807, Some ErrRange))"
  by (simp add: number_def fits_int64_def parse_int64_digits)

lemma wire_parses: "wire js raw c \<Longrightarrow> ParseCommand js raw = Inr c"
  by (induction rule: wire.induct)
    (simp_all add: parse_eqs_cons eval_rules parser_simps parse_int64_number braced_pieces
      newCommand_def del: rx_run.simps)

lemma parses_claimed:
  assumes "ParseCommand js raw = Inr c"
  shows "\<exists>f \<in> set (CommandFormats js). \<exists>s. raw = Prefix f @ CHR '' '' # s"
proof (rule ccontr)
  assume "\<not> ?thesis"
  then have "\<forall>f \<in> set (CommandFormats js). \<not> Test f raw" using cf.Test_iff by blast
  then have "ParseCommand js raw = Inl ErrUnknownCommand"
    by (simp add: ParseCommand_def cf.parseWith_unclaimed)
  with assms show False by simp
qed

lemma parses_prefix:
  assumes "ParseCommand js raw = Inr c"
  shows "\<exists>s. raw \<in> {''GET '' @ s, ''DEL '' @ s, ''PUT '' @ s, ''POST '' @ s, ''SEARCH '' @ s,
    ''CREATE_PART '' @ s, ''DELETE_PART '' @ s, ''JOIN_NODE '' @ s, ''REMOVE_NODE '' @ s}"
proof -
  obtain f s where f: "f \<in> set (CommandFormats js)" "raw = Prefix f @ CHR '' '' # s"
    using parses_claimed [OF assms] by blast
  then have "Prefix f \<in> set (map Prefix (CommandFormats js))" by simp
  with f(2) show ?thesis unfolding map_Prefix_CommandFormats by auto
qed

lemma parses_wire_cases:
  "ParseCommand js (''GET '' @ s) = Inr c \<Longrightarrow> wire js (''GET '' @ s) c"
  "ParseCommand js (''DEL '' @ s) = Inr c \<Longrightarrow> wire js (''DEL '' @ s) c"
  "ParseCommand js (''PUT '' @ s) = Inr c \<Longrightarrow> wire js (''PUT '' @ s) c"
  "ParseCommand js (''POST '' @ s) = Inr c \<Longrightarrow> wire js (''POST '' @ s) c"
  "ParseCommand js (''SEARCH '' @ s) = Inr c \<Longrightarrow> wire js (''SEARCH '' @ s) c"
  "ParseCommand js (''CREATE_PART '' @ s) = Inr c \<Longrightarrow> wire js (''CREATE_PART '' @ s) c"
  "ParseCommand js (''DELETE_PART '' @ s) = Inr c \<Longrightarrow> wire js (''DELETE_PART '' @ s) c"
  "ParseCommand js (''JOIN_NODE '' @ s) = Inr c \<Longrightarrow> wire js (''JOIN_NODE '' @ s) c"
  "ParseCommand js (''REMOVE_NODE '' @ s) = Inr c \<Longrightarrow> wire js (''REMOVE_NODE '' @ s) c"
  by (force simp: parse_eqs_cons run_rules parser_simps parse_int64_number braced_pieces Let_def
      simp del: rx_run.simps split: option.splits if_splits sum.splits intro: wire.intros)+

lemma parses_wire: "ParseCommand js raw = Inr c \<Longrightarrow> wire js raw c"
  using parses_prefix [of js raw c] parses_wire_cases [of js _ c] by blast

lemma ParseCommand_iff_wire: "ParseCommand js raw = Inr c \<longleftrightarrow> wire js raw c"
  using parses_wire wire_parses by blast

inductive_cases wireE: "wire js raw c"

section \<open>Well-formed commands\<close>

text \<open>
  What the rest of the program may rely on: the fields that go with each type. A command that
  carries no document still carries the zero document, never nil.
\<close>

definition carries_doc :: "CommandType \<Rightarrow> bool" where
  "carries_doc t \<longleftrightarrow> t = PUT \<or> t = POST"

definition part_type :: "CommandType \<Rightarrow> bool" where
  "part_type t \<longleftrightarrow> t = CREATE_PART \<or> t = DELETE_PART"

definition alters :: "CommandType \<Rightarrow> bool" where
  "alters t \<longleftrightarrow> carries_doc t \<or> part_type t \<or> t = DEL"

definition wf_command :: "json_decoder \<Rightarrow> Command \<Rightarrow> bool" where
  "wf_command js c \<longleftrightarrow>
    (cmdIsPart c \<longleftrightarrow> part_type (cmdType c)) \<and>
    (cmdIsPart c \<longrightarrow> cmdId c = [] \<and> token (cmdPart c)) \<and>
    (if carries_doc (cmdType c)
     then braced (cmdBytesDoc c) \<and> cmdStringDoc c = cmdBytesDoc c \<and>
       (\<exists>d. js (cmdBytesDoc c) = Inr d \<and> cmdDoc c = Some d \<and> docPart d = cmdPart c \<and>
         docId d = cmdId c)
     else cmdDoc c = Some zeroDocument \<and> cmdStringDoc c = [] \<and> cmdBytesDoc c = [])"

lemmas type_defs = carries_doc_def part_type_def alters_def

text \<open>The commands of the log come before the administration of the cluster; partitions lie between.\<close>

lemma part_type_order: "part_type t \<longleftrightarrow> CREATE_PART \<le> t \<and> t \<le> DELETE_PART"
  by (cases t) (simp_all add: type_defs less_eq_CommandType_def word_le_nat_alt)

lemma alters_order: "alters t \<Longrightarrow> t < JOIN_NODE"
  by (cases t) (simp_all add: type_defs less_CommandType_def word_less_nat_alt)

lemma wire_wf: "wire js raw c \<Longrightarrow> wf_command js c \<and> cmdRaw c = raw"
  by (induction rule: wire.induct) (auto simp: wf_command_def newCommand_def type_defs)

lemma wf_commandD:
  assumes "wf_command js c"
  shows "cmdIsPart c \<longleftrightarrow> part_type (cmdType c)"
    and "cmdIsPart c \<Longrightarrow> cmdId c = []"
    and "carries_doc (cmdType c) \<Longrightarrow> cmdBytesDoc c \<noteq> []"
    and "carries_doc (cmdType c) \<Longrightarrow> cmdStringDoc c = cmdBytesDoc c"
    and "carries_doc (cmdType c) \<Longrightarrow> js (cmdBytesDoc c) = Inr (the (cmdDoc c))"
    and "cmdDoc c \<noteq> None"
    and "\<not> carries_doc (cmdType c) \<Longrightarrow> cmdDoc c = Some zeroDocument"
  using assms by (auto simp: wf_command_def braced_def split: if_splits)

lemma sint_of_small: "n < 9223372036854775808 \<Longrightarrow> sint (of_nat n :: i64) = int n"
  by (simp add: signed_of_nat signed_take_bit_int_eq_self)

lemma wire_ts_nonneg: "wire js raw c \<Longrightarrow> cmdType c = PUT \<or> cmdType c = DEL \<Longrightarrow> 0 \<le> sint (cmdTs c)"
  by (erule wireE) (auto simp: newCommand_def fits_int64_def sint_of_small)

section \<open>Document keys\<close>

text \<open>Inside a partition the key determines the identifier.\<close>

definition doc_key :: "string \<Rightarrow> string \<Rightarrow> string" where
  "doc_key p i = p @ '':'' @ i"

lemma FullId_doc_key: "FullId c = doc_key (cmdPart c) (cmdId c)"
  by (simp add: FullId_def doc_key_def)

lemma doc_key_inject [simp]: "doc_key p i = doc_key p j \<longleftrightarrow> i = j"
  by (simp add: doc_key_def)

lemma doc_key_nonempty [simp]: "doc_key p i \<noteq> []"
  by (simp add: doc_key_def)

end
