(* ===== verification/Store.thy ===== *)
theory Store
  imports Document "HOL-Library.AList"
begin

text \<open>
  The two libraries a shard stands on, which are not in the repository: the key-value store
  \<^verbatim>\<open>github.com/boltdb/bolt\<close> and the search index \<^verbatim>\<open>github.com/blevesearch/bleve\<close>. They are
  parameters: records of the calls the code makes, and for bolt the locale of what its
  documentation promises of them.
\<close>

section \<open>bolt\<close>

text \<open>
  \<open>txBucket\<close> tells whether \<^verbatim>\<open>tx.Bucket(name)\<close> is non-nil; \<open>bktGet\<close>, \<open>bktPut\<close>, \<open>bktDelete\<close> and
  \<open>bktKeys\<close> are the methods of that bucket (\<open>bktKeys\<close> the keys a cursor walks through).
  \<open>txBegin\<close> is the error of beginning a transaction and \<open>txCommit\<close> the outcome of committing one.
\<close>

record 'db bolt =
  txBucket :: "'db \<Rightarrow> string \<Rightarrow> bool"
  bktGet :: "'db \<Rightarrow> string \<Rightarrow> string \<Rightarrow> string option"
  bktPut :: "'db \<Rightarrow> string \<Rightarrow> string \<Rightarrow> string \<Rightarrow> gerror + 'db"
  bktDelete :: "'db \<Rightarrow> string \<Rightarrow> string \<Rightarrow> gerror + 'db"
  bktKeys :: "'db \<Rightarrow> string \<Rightarrow> string list"
  txCreateBucketIfNotExists :: "'db \<Rightarrow> string \<Rightarrow> gerror + 'db"
  txDeleteBucket :: "'db \<Rightarrow> string \<Rightarrow> 'db"
  txBegin :: "'db \<Rightarrow> gerror option"
  txCommit :: "'db \<Rightarrow> gerror + 'db"
  dbClose :: "'db \<Rightarrow> gerror option"

text \<open>What is visible in a database: its buckets, and in each the values by key.\<close>

type_synonym content = "string \<rightharpoonup> (string \<rightharpoonup> string)"

definition content_of :: "'db bolt \<Rightarrow> 'db \<Rightarrow> content" where
  "content_of B db p = (if txBucket B db p then Some (bktGet B db p) else None)"

text \<open>Sizes bolt accepts: a non-empty key of at most 32768 bytes, a value below 2 GB.\<close>

definition max_key_size :: nat where
  "max_key_size = 32768"

definition max_value_size :: nat where
  "max_value_size = 2147483646"

locale bolt_laws =
  fixes B :: "'db bolt"
  assumes put_content: "txBucket B db p \<Longrightarrow> bktPut B db p k v = Inr db' \<Longrightarrow>
      content_of B db' = (content_of B db)(p \<mapsto> (bktGet B db p)(k \<mapsto> v))"
    and put_ok: "txBucket B db p \<Longrightarrow> k \<noteq> [] \<Longrightarrow> length k \<le> max_key_size \<Longrightarrow>
      length v \<le> max_value_size \<Longrightarrow> \<exists>db'. bktPut B db p k v = Inr db'"
    and delete_content: "txBucket B db p \<Longrightarrow> bktDelete B db p k = Inr db' \<Longrightarrow>
      content_of B db' = (content_of B db)(p \<mapsto> (bktGet B db p)(k := None))"
    and delete_ok: "txBucket B db p \<Longrightarrow> \<exists>db'. bktDelete B db p k = Inr db'"
    and create_content: "txCreateBucketIfNotExists B db p = Inr db' \<Longrightarrow>
      content_of B db' = (content_of B db)(p \<mapsto>
        (case content_of B db p of None \<Rightarrow> Map.empty | Some m \<Rightarrow> m))"
    and create_ok: "p \<noteq> [] \<Longrightarrow> length p \<le> max_key_size \<Longrightarrow>
      \<exists>db'. txCreateBucketIfNotExists B db p = Inr db'"
    and delete_bucket_content: "content_of B (txDeleteBucket B db p) = (content_of B db)(p := None)"
    and keys_content: "txBucket B db p \<Longrightarrow> set (bktKeys B db p) = dom (bktGet B db p)"
    and commit_content: "txCommit B db = Inr db' \<Longrightarrow> content_of B db' = content_of B db"
begin

lemma txBucket_content: "txBucket B db p \<longleftrightarrow> content_of B db p \<noteq> None"
  by (simp add: content_of_def)

lemma bktGet_content: "txBucket B db p \<Longrightarrow> bktGet B db p = the (content_of B db p)"
  by (simp add: content_of_def)

end

section \<open>Transactions\<close>

text \<open>
  \<^verbatim>\<open>db.View(fn)\<close> runs \<^verbatim>\<open>fn\<close> on the database and returns its error. \<^verbatim>\<open>db.Update(fn)\<close> rolls back when
  \<^verbatim>\<open>fn\<close> returns an error and commits otherwise.
\<close>

definition boltView :: "'db bolt \<Rightarrow> 'db \<Rightarrow> ('db \<Rightarrow> gerror + 'a) \<Rightarrow> gerror + 'a" where
  "boltView B db fn = (case txBegin B db of Some e \<Rightarrow> Inl e | None \<Rightarrow> fn db)"

definition boltUpdate :: "'db bolt \<Rightarrow> 'db \<Rightarrow> ('db \<Rightarrow> gerror + 'db) \<Rightarrow> gerror + 'db" where
  "boltUpdate B db fn =
    (case txBegin B db of
       Some e \<Rightarrow> Inl e
     | None \<Rightarrow> (case fn db of Inl e \<Rightarrow> Inl e | Inr db' \<Rightarrow> txCommit B db'))"

section \<open>A store kept in memory\<close>

text \<open>
  The laws describe a table of tables, so they can hold together: buckets and entries in
  association lists.
\<close>

type_synonym mem_db = "(string \<times> (string \<times> string) list) list"

definition memBolt :: "mem_db bolt" where
  "memBolt =
    \<lparr>txBucket = (\<lambda>db p. map_of db p \<noteq> None),
     bktGet = (\<lambda>db p. case map_of db p of None \<Rightarrow> Map.empty | Some m \<Rightarrow> map_of m),
     bktPut = (\<lambda>db p k v. case map_of db p of
        None \<Rightarrow> Inl NilDeref
      | Some m \<Rightarrow>
          if k = [] \<or> max_key_size < length k \<or> max_value_size < length v
          then Inl (ErrLib ''put'') else Inr (AList.update p (AList.update k v m) db)),
     bktDelete = (\<lambda>db p k. case map_of db p of
        None \<Rightarrow> Inl NilDeref | Some m \<Rightarrow> Inr (AList.update p (AList.delete k m) db)),
     bktKeys = (\<lambda>db p. case map_of db p of None \<Rightarrow> [] | Some m \<Rightarrow> map fst m),
     txCreateBucketIfNotExists = (\<lambda>db p.
        if p = [] then Inl (ErrLib ''bucket name required'')
        else Inr (case map_of db p of None \<Rightarrow> AList.update p [] db | Some m \<Rightarrow> db)),
     txDeleteBucket = (\<lambda>db p. AList.delete p db),
     txBegin = (\<lambda>db. None),
     txCommit = Inr,
     dbClose = (\<lambda>db. None)\<rparr>"

lemma memBolt_simps [simp]:
  "txBucket memBolt db p \<longleftrightarrow> map_of db p \<noteq> None"
  "bktGet memBolt db p = (case map_of db p of None \<Rightarrow> Map.empty | Some m \<Rightarrow> map_of m)"
  "bktKeys memBolt db p = (case map_of db p of None \<Rightarrow> [] | Some m \<Rightarrow> map fst m)"
  "txDeleteBucket memBolt db p = AList.delete p db"
  "txBegin memBolt db = None"
  "txCommit memBolt db = Inr db"
  "dbClose memBolt db = None"
  "bktPut memBolt db p k v = (case map_of db p of
        None \<Rightarrow> Inl NilDeref
      | Some m \<Rightarrow>
          if k = [] \<or> max_key_size < length k \<or> max_value_size < length v
          then Inl (ErrLib ''put'') else Inr (AList.update p (AList.update k v m) db))"
  "bktDelete memBolt db p k = (case map_of db p of
        None \<Rightarrow> Inl NilDeref | Some m \<Rightarrow> Inr (AList.update p (AList.delete k m) db))"
  "txCreateBucketIfNotExists memBolt db p =
        (if p = [] then Inl (ErrLib ''bucket name required'')
        else Inr (case map_of db p of None \<Rightarrow> AList.update p [] db | Some m \<Rightarrow> db))"
  by (simp_all add: memBolt_def)

lemma content_memBolt: "content_of memBolt db = map_option map_of \<circ> map_of db"
  by (auto simp: content_of_def fun_eq_iff split: option.split)

interpretation mem: bolt_laws memBolt
  by unfold_locales
    (auto simp: content_memBolt fun_eq_iff update_conv' delete_conv' dom_map_of_conv_image_fst
      max_key_size_def max_value_size_def split: option.splits if_splits)

section \<open>bleve\<close>

text \<open>
  A batch collects index and delete requests; \<open>ixIndexError\<close> is the error of adding a document to
  a batch, \<open>ixBatch\<close> applies the batch, and \<open>ixSearch\<close> answers a query string with hits, each an
  identifier and a score.
\<close>

datatype batch_op = BatchIndex string "Document option" | BatchDelete string

record 'ix bleve =
  ixIndexError :: "string \<Rightarrow> Document option \<Rightarrow> gerror option"
  ixBatch :: "'ix \<Rightarrow> batch_op list \<Rightarrow> gerror + 'ix"
  ixSearch :: "'ix \<Rightarrow> string \<Rightarrow> gerror + (string \<times> u64) list"
  ixClose :: "'ix \<Rightarrow> gerror option"

text \<open>An index that keeps the list of what was indexed and answers every query with all of it.\<close>

fun apply_op :: "batch_op \<Rightarrow> (string \<times> Document option) list \<Rightarrow> (string \<times> Document option) list" where
  "apply_op (BatchIndex i d) ix = AList.update i d ix"
| "apply_op (BatchDelete i) ix = AList.delete i ix"

definition memBleve :: "(string \<times> Document option) list bleve" where
  "memBleve =
    \<lparr>ixIndexError = (\<lambda>i d. None),
     ixBatch = (\<lambda>ix ops. Inr (fold apply_op ops ix)),
     ixSearch = (\<lambda>ix q. Inr (map (\<lambda>(i, d). (i, 0)) ix)),
     ixClose = (\<lambda>ix. None)\<rparr>"

end
