(* ===== verification/Shard.thy ===== *)
theory Shard
  imports Command Store
begin

text \<open>
  \<^verbatim>\<open>statemachine/shard.go\<close>: one of the 36 shards, a bolt database and a bleve index. Its content
  is what its buckets hold; the lemmas say what each operation does to that content.
\<close>

section \<open>Data\<close>

record ('db, 'ix) Shard =
  shIndex :: 'ix
  shBlock :: 'db

text \<open>
  \<^verbatim>\<open>updateEntry\<close> of \<^verbatim>\<open>statemachine.go\<close>; the pointer into the slice of log entries is an index into
  it, or nil.
\<close>

record updateEntry =
  ueEntry :: "nat option"
  ueCmd :: Command
  ueExistingDoc :: "Document option"
  uePartExists :: bool
  ueIndex :: u64
  ueShardId :: rune

record searchMatch =
  smScore :: u64
  smDoc :: Document

text \<open>The code outside the repository that the state machine calls.\<close>

record ('db, 'ix) libs =
  libDecode :: json_decoder
  libMarshal :: "searchMatch list \<Rightarrow> gerror + string"
  libBolt :: "'db bolt"
  libBleve :: "'ix bleve"

section \<open>Operations\<close>

definition GetDocumentString ::
  "('db, 'ix) libs \<Rightarrow> ('db, 'ix) Shard \<Rightarrow> string \<Rightarrow> string \<Rightarrow> gerror + (string \<times> bool)" where
  "GetDocumentString L sh key part =
    (case boltView (libBolt L) (shBlock sh) (\<lambda>db.
        if \<not> txBucket (libBolt L) db part then Inr None
        else Inr (Some (case bktGet (libBolt L) db part key of None \<Rightarrow> [] | Some doc \<Rightarrow> doc))) of
       Inl e \<Rightarrow> Inl e
     | Inr None \<Rightarrow> Inr ([], False)
     | Inr (Some raw) \<Rightarrow> if raw = [] then Inr ([], False) else Inr (raw, True))"

text \<open>
  The loop of \<^verbatim>\<open>FindExistingDocumentsForUpdates\<close>. The entries of a loop that ends in an error are
  dropped by its only caller, so the error stands alone.
\<close>

fun findExistingLoop ::
  "('db, 'ix) libs \<Rightarrow> 'db \<Rightarrow> updateEntry list \<Rightarrow> gerror + updateEntry list" where
  "findExistingLoop L db [] = Inr []"
| "findExistingLoop L db (e # es) =
    (let rest = (\<lambda>e'. case findExistingLoop L db es of Inl err \<Rightarrow> Inl err | Inr es' \<Rightarrow> Inr (e' # es'));
         part = cmdPart (ueCmd e)
     in if ueExistingDoc e \<noteq> None then rest e
        else if \<not> txBucket (libBolt L) db part then rest (e\<lparr>uePartExists := False\<rparr>)
        else let e1 = e\<lparr>uePartExists := True\<rparr>
          in if cmdIsPart (ueCmd e) then rest e1
             else case bktGet (libBolt L) db part (FullId (ueCmd e)) of
                 None \<Rightarrow> rest e1
               | Some raw \<Rightarrow>
                   if raw = [] then rest e1
                   else case libDecode L raw of
                       Inl err \<Rightarrow> Inl err
                     | Inr d \<Rightarrow> rest (e1\<lparr>ueExistingDoc := Some d\<rparr>))"

definition FindExistingDocumentsForUpdates ::
  "('db, 'ix) libs \<Rightarrow> ('db, 'ix) Shard \<Rightarrow> updateEntry list \<Rightarrow> gerror + updateEntry list" where
  "FindExistingDocumentsForUpdates L sh es =
    boltView (libBolt L) (shBlock sh) (\<lambda>db. findExistingLoop L db es)"

text \<open>
  The loop of \<^verbatim>\<open>ApplyUpdates\<close>, over the transaction's database and the index batch. A method called
  on the nil bucket is a nil dereference.
\<close>

definition applyEntry ::
  "('db, 'ix) libs \<Rightarrow> 'db \<Rightarrow> batch_op list \<Rightarrow> updateEntry \<Rightarrow>
    (gerror + 'db \<times> batch_op list) outcome" where
  "applyEntry L db batch e =
    (let B = libBolt L; c = ueCmd e; p = cmdPart c in
     if cmdType c = CREATE_PART then Done
       (case txCreateBucketIfNotExists B db p of
          Inl err \<Rightarrow> Inl err
        | Inr db' \<Rightarrow> Inr (db', batch))
     else if cmdType c = DELETE_PART then
       (if \<not> txBucket B db p then Panic NilDeref
        else Done (Inr (txDeleteBucket B db p, batch @ map BatchDelete (bktKeys B db p))))
     else if cmdType c = PUT \<or> cmdType c = POST then
       (if \<not> txBucket B db p then Panic NilDeref
        else Done (case bktPut B db p (FullId c) (cmdBytesDoc c) of
            Inl err \<Rightarrow> Inl err
          | Inr db' \<Rightarrow>
             (case ixIndexError (libBleve L) (FullId c) (cmdDoc c) of
                Some err \<Rightarrow> Inl err
              | None \<Rightarrow> Inr (db', batch @ [BatchIndex (FullId c) (cmdDoc c)]))))
     else if cmdType c = DEL then
       (if \<not> txBucket B db p then Panic NilDeref
        else Done (case bktDelete B db p (FullId c) of
            Inl err \<Rightarrow> Inl err
          | Inr db' \<Rightarrow> Inr (db', batch @ [BatchDelete (FullId c)])))
     else Done (Inr (db, batch)))"

fun applyLoop ::
  "('db, 'ix) libs \<Rightarrow> 'db \<Rightarrow> batch_op list \<Rightarrow> updateEntry list \<Rightarrow>
    (gerror + 'db \<times> batch_op list) outcome" where
  "applyLoop L db batch [] = Done (Inr (db, batch))"
| "applyLoop L db batch (e # es) =
    and_then (applyEntry L db batch e) (\<lambda>r.
      case r of Inl err \<Rightarrow> Done (Inl err) | Inr (db', batch') \<Rightarrow> applyLoop L db' batch' es)"

text \<open>
  The transaction around it: an error of the loop or of the index batch rolls the database back;
  the index keeps a batch it has applied even when the commit that follows fails.
\<close>

definition ApplyUpdates ::
  "('db, 'ix) libs \<Rightarrow> ('db, 'ix) Shard \<Rightarrow> updateEntry list \<Rightarrow>
    (('db, 'ix) Shard \<times> gerror option) outcome" where
  "ApplyUpdates L sh es =
    (case txBegin (libBolt L) (shBlock sh) of
       Some err \<Rightarrow> Done (sh, Some err)
     | None \<Rightarrow>
        and_then (applyLoop L (shBlock sh) [] es) (\<lambda>r. Done
          (case r of
             Inl err \<Rightarrow> (sh, Some err)
           | Inr (db', batch) \<Rightarrow>
              (case ixBatch (libBleve L) (shIndex sh) batch of
                 Inl err \<Rightarrow> (sh, Some err)
               | Inr ix' \<Rightarrow>
                  (case txCommit (libBolt L) db' of
                     Inl err \<Rightarrow> (sh\<lparr>shIndex := ix'\<rparr>, Some err)
                   | Inr db'' \<Rightarrow> (\<lparr>shIndex = ix', shBlock = db''\<rparr>, None))))))"

text \<open>The matches in the order of the hits; a hit whose document is gone is skipped.\<close>

fun searchLoop ::
  "('db, 'ix) libs \<Rightarrow> 'db \<Rightarrow> string \<Rightarrow> (string \<times> u64) list \<Rightarrow> gerror + searchMatch list" where
  "searchLoop L db part [] = Inr []"
| "searchLoop L db part ((i, score) # hits) =
    (case bktGet (libBolt L) db part i of
       None \<Rightarrow> searchLoop L db part hits
     | Some jsDoc \<Rightarrow>
        (case libDecode L jsDoc of
           Inl err \<Rightarrow> Inl err
         | Inr d \<Rightarrow>
            (case searchLoop L db part hits of
               Inl err \<Rightarrow> Inl err
             | Inr ms \<Rightarrow> Inr (\<lparr>smScore = score, smDoc = d\<rparr> # ms))))"

definition Search ::
  "('db, 'ix) libs \<Rightarrow> ('db, 'ix) Shard \<Rightarrow> string \<Rightarrow> string \<Rightarrow> gerror + searchMatch list" where
  "Search L sh part searchStr =
    (case ixSearch (libBleve L) (shIndex sh) (''+part:'' @ part @ '' '' @ searchStr) of
       Inl err \<Rightarrow> Inl err
     | Inr hits \<Rightarrow>
        boltView (libBolt L) (shBlock sh) (\<lambda>db.
          if \<not> txBucket (libBolt L) db part then Inr [] else searchLoop L db part hits))"

section \<open>What the operations do to the content\<close>

text \<open>
  The effect a command is meant to have on the content. \<open>None\<close>: the command needs a partition that
  is not there.
\<close>

definition apply_command :: "Command \<Rightarrow> content \<Rightarrow> content option" where
  "apply_command c m =
    (let p = cmdPart c in
     if cmdType c = CREATE_PART
     then Some (m(p \<mapsto> (case m p of None \<Rightarrow> Map.empty | Some b \<Rightarrow> b)))
     else if \<not> alters (cmdType c) then Some m
     else case m p of
         None \<Rightarrow> None
       | Some b \<Rightarrow> Some
          (if cmdType c = DELETE_PART then m(p := None)
           else if cmdType c = DEL then m(p \<mapsto> b(FullId c := None))
           else m(p \<mapsto> b(FullId c \<mapsto> cmdBytesDoc c))))"

fun apply_commands :: "Command list \<Rightarrow> content \<Rightarrow> content option" where
  "apply_commands [] m = Some m"
| "apply_commands (c # cs) m = Option.bind (apply_command c m) (apply_commands cs)"

lemma apply_commands_append:
  "apply_commands (xs @ ys) m = Option.bind (apply_commands xs m) (apply_commands ys)"
proof (induction xs arbitrary: m)
  case Nil
  then show ?case by simp
next
  case (Cons c xs)
  then show ?case by (cases "apply_command c m") simp_all
qed

text \<open>
  What a command is meant to tell the index: a written document is indexed under its key, a deleted one is
  taken out, and so are all documents of a deleted partition, in whatever order.
\<close>

definition index_command :: "Command \<Rightarrow> content \<Rightarrow> batch_op list \<Rightarrow> bool" where
  "index_command c m ops \<longleftrightarrow>
    (if cmdType c = DELETE_PART
     then \<exists>b keys. m (cmdPart c) = Some b \<and> set keys = dom b \<and> ops = map BatchDelete keys
     else if cmdType c = PUT \<or> cmdType c = POST then ops = [BatchIndex (FullId c) (cmdDoc c)]
     else if cmdType c = DEL then ops = [BatchDelete (FullId c)]
     else ops = [])"

fun index_commands :: "Command list \<Rightarrow> content \<Rightarrow> batch_op list \<Rightarrow> bool" where
  "index_commands [] m ops \<longleftrightarrow> ops = []"
| "index_commands (c # cs) m ops \<longleftrightarrow>
    (\<exists>ops1 ops2 m1. ops = ops1 @ ops2 \<and> index_command c m ops1 \<and> apply_command c m = Some m1 \<and>
      index_commands cs m1 ops2)"

text \<open>Commands of other partitions do not matter to a partition.\<close>

lemma apply_command_other:
  "apply_command c m = Some m' \<Longrightarrow> cmdPart c \<noteq> p \<Longrightarrow> m' p = m p"
  by (auto simp: apply_command_def Let_def split: if_splits option.splits)

lemma apply_commands_other:
  "apply_commands cs m = Some m' \<Longrightarrow> \<forall>c \<in> set cs. cmdPart c \<noteq> p \<Longrightarrow> m' p = m p"
proof (induction cs arbitrary: m)
  case Nil
  then show ?case by simp
next
  case (Cons c cs)
  then obtain m1 where "apply_command c m = Some m1" "apply_commands cs m1 = Some m'"
    by (auto simp: bind_eq_Some_conv)
  with Cons show ?case using apply_command_other by force
qed

definition shard_content :: "('db, 'ix) libs \<Rightarrow> ('db, 'ix) Shard \<Rightarrow> content" where
  "shard_content L sh = content_of (libBolt L) (shBlock sh)"

text \<open>Sizes that bolt stores.\<close>

definition storable :: "Command \<Rightarrow> bool" where
  "storable c \<longleftrightarrow> cmdPart c \<noteq> [] \<and> length (cmdPart c) \<le> max_key_size \<and>
    length (FullId c) \<le> max_key_size \<and> length (cmdBytesDoc c) \<le> max_value_size"

lemma FullId_nonempty [simp]: "FullId c \<noteq> []"
  by (simp add: FullId_def)

lemma applyLoop_Cons_Done:
  "applyLoop L db batch (e # es) = Done (Inr r) \<longleftrightarrow>
    (\<exists>db1 batch1. applyEntry L db batch e = Done (Inr (db1, batch1)) \<and>
      applyLoop L db1 batch1 es = Done (Inr r))"
  by (auto simp: outcome_eqs split: sum.split_asm)

lemma ApplyUpdates_Done:
  "ApplyUpdates L sh es = Done (sh', None) \<longleftrightarrow>
    (\<exists>db' batch. txBegin (libBolt L) (shBlock sh) = None \<and>
      applyLoop L (shBlock sh) [] es = Done (Inr (db', batch)) \<and>
      ixBatch (libBleve L) (shIndex sh) batch = Inr (shIndex sh') \<and>
      txCommit (libBolt L) db' = Inr (shBlock sh'))"
  by (cases sh') (auto simp: ApplyUpdates_def outcome_eqs split: option.split sum.split_asm)

section \<open>The shard over a lawful store\<close>

locale shard_laws =
  fixes L :: "('db, 'ix) libs"
  assumes bolt: "bolt_laws (libBolt L)"

sublocale shard_laws \<subseteq> bolt_laws "libBolt L"
  by (rule bolt)

context shard_laws begin

lemma applyEntry_content:
  "applyEntry L db batch e = Done (Inr (db', batch')) \<Longrightarrow>
    apply_command (ueCmd e) (content_of (libBolt L) db) = Some (content_of (libBolt L) db')"
  using put_content [of db "cmdPart (ueCmd e)" "FullId (ueCmd e)" "cmdBytesDoc (ueCmd e)" db']
    delete_content [of db "cmdPart (ueCmd e)" "FullId (ueCmd e)" db']
    create_content [of db "cmdPart (ueCmd e)" db'] bktGet_content [of db "cmdPart (ueCmd e)"]
  by (auto simp: applyEntry_def apply_command_def Let_def type_defs delete_bucket_content
      txBucket_content split: if_split_asm sum.split_asm option.split_asm option.split)

lemma applyEntry_panic:
  "applyEntry L db batch e = Panic x \<Longrightarrow>
    x = NilDeref \<and> apply_command (ueCmd e) (content_of (libBolt L) db) = None"
  by (auto simp: applyEntry_def apply_command_def Let_def type_defs txBucket_content
      split: if_splits option.splits)

lemma applyLoop_content:
  "applyLoop L db batch es = Done (Inr (db', batch')) \<Longrightarrow>
    apply_commands (map ueCmd es) (content_of (libBolt L) db) = Some (content_of (libBolt L) db')"
  by (induction es arbitrary: db batch)
    (auto simp: applyLoop_Cons_Done dest!: applyEntry_content simp del: applyLoop.simps(2))

text \<open>The index batch grows by what the commands tell the index.\<close>

lemma applyEntry_index:
  "applyEntry L db batch e = Done (Inr (db', batch')) \<Longrightarrow>
    \<exists>ops. batch' = batch @ ops \<and> index_command (ueCmd e) (content_of (libBolt L) db) ops"
  using keys_content [of db "cmdPart (ueCmd e)"]
  by (auto simp: applyEntry_def index_command_def Let_def type_defs content_of_def
      split: if_split_asm sum.split_asm option.split_asm)

lemma applyLoop_index:
  "applyLoop L db batch es = Done (Inr (db', batch')) \<Longrightarrow>
    \<exists>ops. batch' = batch @ ops \<and> index_commands (map ueCmd es) (content_of (libBolt L) db) ops"
proof (induction es arbitrary: db batch)
  case Nil
  then show ?case by simp
next
  case (Cons e es)
  then obtain db1 batch1 where one: "applyEntry L db batch e = Done (Inr (db1, batch1))"
      and rest: "applyLoop L db1 batch1 es = Done (Inr (db', batch'))"
    unfolding applyLoop_Cons_Done by blast
  from Cons.IH [OF rest] applyEntry_index [OF one] applyEntry_content [OF one] show ?case by fastforce
qed

lemma applyLoop_panic:
  "applyLoop L db batch es = Panic x \<Longrightarrow>
    x = NilDeref \<and> apply_commands (map ueCmd es) (content_of (libBolt L) db) = None"
proof (induction es arbitrary: db batch)
  case Nil
  then show ?case by simp
next
  case (Cons e es)
  then show ?case
    by (cases "applyEntry L db batch e")
      (auto dest: applyEntry_content applyEntry_panic split: sum.splits)
qed

lemma ApplyUpdates_content:
  assumes "ApplyUpdates L sh es = Done (sh', None)"
  shows "apply_commands (map ueCmd es) (shard_content L sh) = Some (shard_content L sh')"
  using assms
  by (auto simp: ApplyUpdates_Done shard_content_def dest!: applyLoop_content commit_content)

lemma ApplyUpdates_index:
  assumes "ApplyUpdates L sh es = Done (sh', None)"
  shows "\<exists>ops. index_commands (map ueCmd es) (shard_content L sh) ops \<and>
    ixBatch (libBleve L) (shIndex sh) ops = Inr (shIndex sh')"
  using assms by (auto simp: ApplyUpdates_Done shard_content_def dest!: applyLoop_index)

text \<open>An error before the commit leaves the shard as it was; an error of the commit leaves the index ahead of
  the documents.\<close>

lemma ApplyUpdates_error:
  assumes "ApplyUpdates L sh es = Done (sh', Some err)"
  shows "sh' = sh \<or> (\<exists>ops ix' db'. sh' = sh\<lparr>shIndex := ix'\<rparr> \<and>
    index_commands (map ueCmd es) (shard_content L sh) ops \<and> ixBatch (libBleve L) (shIndex sh) ops = Inr ix' \<and>
    apply_commands (map ueCmd es) (shard_content L sh) = Some (content_of (libBolt L) db') \<and>
    txCommit (libBolt L) db' = Inl err)"
proof (cases "txBegin (libBolt L) (shBlock sh)")
  case None
  with assms obtain r where r: "applyLoop L (shBlock sh) [] es = Done r"
    by (auto simp: ApplyUpdates_def outcome_eqs)
  show ?thesis
  proof (cases r)
    case (Inl e)
    with assms None r show ?thesis by (simp add: ApplyUpdates_def)
  next
    case (Inr x)
    obtain db' ops where x: "x = (db', ops)" by (cases x)
    with r Inr applyLoop_index [of "shBlock sh" "[]" es db' ops] applyLoop_content [of "shBlock sh" "[]" es db' ops]
    have "index_commands (map ueCmd es) (shard_content L sh) ops"
      "apply_commands (map ueCmd es) (shard_content L sh) = Some (content_of (libBolt L) db')"
      by (simp_all add: shard_content_def)
    with assms None r Inr x show ?thesis
      by (auto simp: ApplyUpdates_def split: sum.splits)
  qed
qed (use assms in \<open>simp add: ApplyUpdates_def\<close>)

text \<open>Reading: the stored text, or not found.\<close>

lemma GetDocumentString_content:
  assumes "GetDocumentString L sh key p = Inr r"
  shows "r = (case shard_content L sh p of
       None \<Rightarrow> ([], False)
     | Some b \<Rightarrow> (case b key of None \<Rightarrow> ([], False) | Some v \<Rightarrow> (v, v \<noteq> [])))"
  using assms
  by (auto simp: GetDocumentString_def boltView_def shard_content_def content_of_def
      split: option.splits if_splits)

end

text \<open>Every match decodes a document that the partition holds now, whatever the index says.\<close>

lemma stored_match:
  "searchLoop L db p hits = Inr ms \<Longrightarrow> m \<in> set ms \<Longrightarrow>
    \<exists>i v. (i, smScore m) \<in> set hits \<and> bktGet (libBolt L) db p i = Some v \<and>
      libDecode L v = Inr (smDoc m)"
proof (induction hits arbitrary: ms)
  case Nil
  then show ?case by simp
next
  case (Cons h hits)
  obtain i score where "h = (i, score)" by (cases h)
  with Cons show ?case by (fastforce split: option.splits sum.splits)
qed

text \<open>No library call fails for a reason of its own.\<close>

locale reliable_libs = shard_laws L for L :: "('db, 'ix) libs" +
  assumes begin_ok: "txBegin (libBolt L) db = None"
    and commit_ok: "\<exists>db'. txCommit (libBolt L) db = Inr db'"
    and index_ok: "ixIndexError (libBleve L) i d = None"
    and batch_ok: "\<exists>ix'. ixBatch (libBleve L) ix ops = Inr ix'"
begin

lemma applyEntry_ok:
  assumes "apply_command (ueCmd e) (content_of (libBolt L) db) \<noteq> None" and "storable (ueCmd e)"
  shows "\<exists>db' batch'. applyEntry L db batch e = Done (Inr (db', batch'))"
  using assms put_ok [of db "cmdPart (ueCmd e)" "FullId (ueCmd e)" "cmdBytesDoc (ueCmd e)"]
    delete_ok [of db "cmdPart (ueCmd e)" "FullId (ueCmd e)"] create_ok [of "cmdPart (ueCmd e)" db]
  by (auto simp: applyEntry_def apply_command_def Let_def type_defs storable_def txBucket_content
      index_ok split: if_splits option.splits)

lemma applyLoop_ok:
  assumes "apply_commands (map ueCmd es) (content_of (libBolt L) db) \<noteq> None"
    and "\<forall>e \<in> set es. storable (ueCmd e)"
  shows "\<exists>db' batch'. applyLoop L db batch es = Done (Inr (db', batch'))"
  using assms
proof (induction es arbitrary: db batch)
  case Nil
  then show ?case by simp
next
  case (Cons e es)
  then obtain db1 batch1 where one: "applyEntry L db batch e = Done (Inr (db1, batch1))"
    using applyEntry_ok [of e db batch] by (auto simp: bind_eq_None_conv)
  with Cons.prems have "apply_commands (map ueCmd es) (content_of (libBolt L) db1) \<noteq> None"
    by (auto dest: applyEntry_content)
  with Cons one show ?case by simp
qed

lemma ApplyUpdates_ok:
  assumes "apply_commands (map ueCmd es) (shard_content L sh) \<noteq> None"
    and "\<forall>e \<in> set es. storable (ueCmd e)"
  shows "\<exists>sh'. ApplyUpdates L sh es = Done (sh', None)"
proof -
  obtain db' batch where "applyLoop L (shBlock sh) [] es = Done (Inr (db', batch))"
    using applyLoop_ok assms unfolding shard_content_def by blast
  moreover obtain ix' where "ixBatch (libBleve L) (shIndex sh) batch = Inr ix'" using batch_ok by blast
  moreover obtain db'' where "txCommit (libBolt L) db' = Inr db''" using commit_ok by blast
  ultimately show ?thesis by (simp add: ApplyUpdates_def begin_ok)
qed

end

definition memLibs ::
  "json_decoder \<Rightarrow> (searchMatch list \<Rightarrow> gerror + string) \<Rightarrow>
    (mem_db, (string \<times> Document option) list) libs" where
  "memLibs js ms = \<lparr>libDecode = js, libMarshal = ms, libBolt = memBolt, libBleve = memBleve\<rparr>"

lemma memLibs_simps [simp]:
  "libDecode (memLibs js ms) = js" "libMarshal (memLibs js ms) = ms"
  "libBolt (memLibs js ms) = memBolt" "libBleve (memLibs js ms) = memBleve"
  by (simp_all add: memLibs_def)

interpretation mem_libs: reliable_libs "memLibs js ms" for js ms
  by (intro reliable_libs.intro shard_laws.intro reliable_libs_axioms.intro)
    (simp_all add: mem.bolt_laws_axioms memBleve_def)

end
