(* ===== verification/Response.thy ===== *)
theory Response
  imports Prelude
begin

text \<open>\<^verbatim>\<open>response/response.go\<close>: what a lookup answers.\<close>

record Response =
  rspCode :: u64
  rspBody :: string

definition NotFound :: Response where
  "NotFound = \<lparr>rspCode = 404, rspBody = ''not found''\<rparr>"

definition Conflict :: Response where
  "Conflict = \<lparr>rspCode = 409, rspBody = ''conflict''\<rparr>"

definition Success :: "string \<Rightarrow> Response" where
  "Success body = \<lparr>rspCode = 200, rspBody = body\<rparr>"

lemma Success_simps [simp]: "rspCode (Success b) = 200" "rspBody (Success b) = b"
  by (simp_all add: Success_def)

lemma Success_inject [simp]: "Success a = Success b \<longleftrightarrow> a = b"
  by (auto simp: Success_def)

lemma Success_not_NotFound [simp]: "Success a \<noteq> NotFound" "NotFound \<noteq> Success a"
  by (auto simp: Success_def NotFound_def)

end
