(* ===== verification/StateMachine.thy ===== *)
theory StateMachine
  imports Shard Response
begin

text \<open>
  \<^verbatim>\<open>statemachine/statemachine.go\<close>: the replicated state machine. \<open>Update\<close> decides a batch of log
  entries and queues the accepted ones; \<open>Sync\<close> applies the queue to the shards; \<open>Lookup\<close> reads.
  The loops over the shard map take the map's iteration order, which Go does not fix, as an
  argument.
\<close>

section \<open>State\<close>

definition alphabet :: string where
  "alphabet = ''abcdefghijklmnopqrstuvwxyz0123456789''"

definition alphabet_runes :: "rune list" where
  "alphabet_runes = map byte_of alphabet"

definition getFirstRune :: "string \<Rightarrow> rune" where
  "getFirstRune s = (if s = [] then 0 else decode_rune (map byte_of s))"

record ('db, 'ix) ByStateMachine =
  shardMap :: "rune \<rightharpoonup> ('db, 'ix) Shard"
  metaDb :: "'db option"
  lastIndex :: u64
  pending :: "updateEntry list"

text \<open>A log entry as Dragonboat hands it over, with the result the state machine fills in.\<close>

record smEntry =
  enIndex :: u64
  enCmd :: string
  enValue :: u64

section \<open>Reading\<close>

definition getPartitionShard ::
  "('db, 'ix) ByStateMachine \<Rightarrow> string \<Rightarrow> gerror + ('db, 'ix) Shard" where
  "getPartitionShard s part =
    (case shardMap s (getFirstRune part) of
       None \<Rightarrow> Inl (ErrNoShard part)
     | Some shard \<Rightarrow> Inr shard)"

definition pending_matches :: "Command \<Rightarrow> updateEntry \<Rightarrow> bool" where
  "pending_matches cmd e \<longleftrightarrow>
    (cmdIsPart (ueCmd e) \<and> cmdPart cmd = cmdPart (ueCmd e)) \<or>
    (cmdId cmd = cmdId (ueCmd e) \<and> cmdPart cmd = cmdPart (ueCmd e))"

definition findCommandInPending :: "updateEntry list \<Rightarrow> Command \<Rightarrow> Command option" where
  "findCommandInPending pend cmd = map_option ueCmd (last_match (pending_matches cmd) pend)"

definition LookupGetRequestInState ::
  "('db, 'ix) libs \<Rightarrow> ('db, 'ix) ByStateMachine \<Rightarrow> Command \<Rightarrow> gerror + Response" where
  "LookupGetRequestInState L s cmd =
    (case getPartitionShard s (cmdPart cmd) of
       Inl err \<Rightarrow> Inl err
     | Inr shard \<Rightarrow>
        (case GetDocumentString L shard (FullId cmd) (cmdPart cmd) of
           Inl err \<Rightarrow> Inl err
         | Inr (stringDoc, found) \<Rightarrow> Inr (if \<not> found then NotFound else Success stringDoc)))"

definition LookupGetRequest ::
  "('db, 'ix) libs \<Rightarrow> ('db, 'ix) ByStateMachine \<Rightarrow> Command \<Rightarrow> gerror + Response" where
  "LookupGetRequest L s cmd =
    (case findCommandInPending (pending s) cmd of
       Some ex \<Rightarrow>
         (if cmdType ex = DEL \<or> cmdType ex = DELETE_PART then Inr NotFound
          else if cmdType ex = POST \<or> cmdType ex = PUT then Inr (Success (cmdStringDoc ex))
          else LookupGetRequestInState L s cmd)
     | None \<Rightarrow> LookupGetRequestInState L s cmd)"

definition LookupSearchRequest ::
  "('db, 'ix) libs \<Rightarrow> ('db, 'ix) ByStateMachine \<Rightarrow> Command \<Rightarrow> gerror + Response" where
  "LookupSearchRequest L s cmd =
    (case getPartitionShard s (cmdPart cmd) of
       Inl err \<Rightarrow> Inl err
     | Inr shard \<Rightarrow>
        (case Search L shard (cmdPart cmd) (cmdQuery cmd) of
           Inl err \<Rightarrow> Inl err
         | Inr results \<Rightarrow>
            (case libMarshal L results of
               Inl err \<Rightarrow> Inl err
             | Inr jsResults \<Rightarrow> Inr (Success jsResults))))"

definition Lookup ::
  "('db, 'ix) libs \<Rightarrow> ('db, 'ix) ByStateMachine \<Rightarrow> string \<Rightarrow> (gerror + Response) outcome" where
  "Lookup L s raw =
    (case ParseCommand (libDecode L) raw of
       Inl err \<Rightarrow> Done (Inl err)
     | Inr cmd \<Rightarrow>
         (if cmdType cmd = GET then Done (LookupGetRequest L s cmd)
          else if cmdType cmd = SEARCH then Done (LookupSearchRequest L s cmd)
          else Panic (ErrMsg (''unknown command passed to lookup: '' @ cmdRaw cmd))))"

section \<open>The index of the last update\<close>

definition metaBucket :: string where
  "metaBucket = ''meta''"

definition metaKey :: string where
  "metaKey = ''lastUpdateIndex''"

definition getLastUpdateIndex ::
  "('db, 'ix) libs \<Rightarrow> ('db, 'ix) ByStateMachine \<Rightarrow>
    (('db, 'ix) ByStateMachine \<times> u64 \<times> gerror option) outcome" where
  "getLastUpdateIndex L s =
    (case metaDb s of
       None \<Rightarrow> Panic NilDeref
     | Some meta \<Rightarrow> Done
        (let (index, err) =
           (case txBegin (libBolt L) meta of
              Some e \<Rightarrow> (0, Some e)
            | None \<Rightarrow>
               if \<not> txBucket (libBolt L) meta metaBucket then (0, None)
               else case bktGet (libBolt L) meta metaBucket metaKey of
                   None \<Rightarrow> (0, None)
                 | Some v \<Rightarrow> if v = [] then (0, None) else parse_uint64 v)
         in (s\<lparr>lastIndex := index\<rparr>, index, err)))"

definition updateLastUpdateIndex ::
  "('db, 'ix) libs \<Rightarrow> ('db, 'ix) ByStateMachine \<Rightarrow>
    (('db, 'ix) ByStateMachine \<times> gerror option) outcome" where
  "updateLastUpdateIndex L s =
    (case metaDb s of
       None \<Rightarrow> Panic NilDeref
     | Some meta \<Rightarrow>
        if txBegin (libBolt L) meta = None \<and> \<not> txBucket (libBolt L) meta metaBucket
        then Panic NilDeref
        else Done (case boltUpdate (libBolt L) meta (\<lambda>db.
              bktPut (libBolt L) db metaBucket metaKey (fmt_u64 (lastIndex s))) of
            Inl err \<Rightarrow> (s, Some err)
          | Inr meta' \<Rightarrow> (s\<lparr>metaDb := Some meta'\<rparr>, None)))"

section \<open>Update\<close>

text \<open>Parsing the entries; a text that does not parse is a panic.\<close>

fun parseEntries ::
  "json_decoder \<Rightarrow> nat \<Rightarrow> smEntry list \<Rightarrow> updateEntry list outcome" where
  "parseEntries js i [] = Done []"
| "parseEntries js i (en # ens) =
    (case ParseCommand js (enCmd en) of
       Inl err \<Rightarrow> Panic err
     | Inr cmd \<Rightarrow>
        map_outcome (Cons \<lparr>ueEntry = Some i, ueCmd = cmd, ueExistingDoc = None,
            uePartExists = False, ueIndex = enIndex en, ueShardId = getFirstRune (cmdPart cmd)\<rparr>)
          (parseEntries js (Suc i) ens))"

text \<open>What the queue says of an entry: nothing, or the state its document will have.\<close>

definition attachPending :: "updateEntry list \<Rightarrow> updateEntry \<Rightarrow> updateEntry" where
  "attachPending pend e =
    (case findCommandInPending pend (ueCmd e) of
       None \<Rightarrow> e
     | Some ex \<Rightarrow>
         if cmdType ex = CREATE_PART then e\<lparr>uePartExists := True\<rparr>
         else if cmdType ex = DELETE_PART then e\<lparr>uePartExists := False\<rparr>
         else e\<lparr>uePartExists := True, ueExistingDoc := cmdDoc ex\<rparr>)"

definition stateSearchDocs :: "updateEntry list \<Rightarrow> updateEntry list \<Rightarrow> nat" where
  "stateSearchDocs pend es =
    length (filter (\<lambda>e. findCommandInPending pend (ueCmd e) = None) es)"

text \<open>
  The result code of an entry, if its type has one, and whether the entry is queued.
\<close>

definition decide :: "updateEntry \<Rightarrow> (u64 \<times> bool) option" where
  "decide e =
    (let c = ueCmd e in
     if cmdType c = PUT \<or> cmdType c = DEL then Some
       (if \<not> uePartExists e \<or> ueExistingDoc e = None then (404, False)
        else if docUpdated (the (ueExistingDoc e)) \<noteq> cmdTs c then (409, False)
        else (200, True))
     else if cmdType c = POST then Some
       (if \<not> uePartExists e then (404, False)
        else if ueExistingDoc e \<noteq> None then (409, False)
        else (200, True))
     else if cmdType c = CREATE_PART then Some
       (if uePartExists e then (409, False) else (200, True))
     else if cmdType c = DELETE_PART then Some
       (if uePartExists e then (200, True) else (404, False))
     else None)"

definition setResult :: "smEntry list \<Rightarrow> nat option \<Rightarrow> u64 \<Rightarrow> smEntry list" where
  "setResult ups i v =
    (case i of None \<Rightarrow> ups | Some k \<Rightarrow> ups[k := (ups ! k)\<lparr>enValue := v\<rparr>])"

fun decideAll ::
  "smEntry list \<Rightarrow> updateEntry list \<Rightarrow> updateEntry list \<Rightarrow> smEntry list \<times> updateEntry list" where
  "decideAll ups pend [] = (ups, pend)"
| "decideAll ups pend (e # es) =
    (case decide e of
       None \<Rightarrow> decideAll ups pend es
     | Some (code, accepted) \<Rightarrow>
         decideAll (setResult ups (ueEntry e) code)
           (if accepted then pend @ [e\<lparr>ueEntry := None\<rparr>] else pend) es)"

text \<open>One turn of the loop over the shards: the entries of the shard with rune \<open>c\<close>.\<close>

definition updateShard ::
  "('db, 'ix) libs \<Rightarrow> ('db, 'ix) Shard \<Rightarrow> updateEntry list \<Rightarrow> smEntry list \<Rightarrow> updateEntry list \<Rightarrow>
    gerror + smEntry list \<times> updateEntry list" where
  "updateShard L shard shardEntries ups pend =
    (if shardEntries = [] then Inr (ups, pend)
     else
       let es1 = map (attachPending pend) shardEntries;
           found = (if 0 < stateSearchDocs pend shardEntries
                    then FindExistingDocumentsForUpdates L shard es1 else Inr es1)
       in case found of
            Inl err \<Rightarrow> Inl err
          | Inr es2 \<Rightarrow> Inr (decideAll ups pend es2))"

definition entries_of :: "rune \<Rightarrow> updateEntry list \<Rightarrow> updateEntry list" where
  "entries_of c es = filter (\<lambda>e. ueShardId e = c) es"

fun updateShards ::
  "('db, 'ix) libs \<Rightarrow> rune list \<Rightarrow> updateEntry list \<Rightarrow> ('db, 'ix) ByStateMachine \<Rightarrow> smEntry list \<Rightarrow>
    ('db, 'ix) ByStateMachine \<times> smEntry list \<times> gerror option" where
  "updateShards L [] es s ups = (s, ups, None)"
| "updateShards L (c # cs) es s ups =
    (case shardMap s c of
       None \<Rightarrow> updateShards L cs es s ups
     | Some shard \<Rightarrow>
        (case updateShard L shard (entries_of c es) ups (pending s) of
           Inl err \<Rightarrow> (s, ups, Some err)
         | Inr (ups', pend') \<Rightarrow> updateShards L cs es (s\<lparr>pending := pend'\<rparr>) ups'))"

definition Update ::
  "('db, 'ix) libs \<Rightarrow> rune list \<Rightarrow> ('db, 'ix) ByStateMachine \<Rightarrow> smEntry list \<Rightarrow>
    (('db, 'ix) ByStateMachine \<times> smEntry list \<times> gerror option) outcome" where
  "Update L order s updates =
    map_outcome (\<lambda>es. updateShards L order es s updates) (parseEntries (libDecode L) 0 updates)"

section \<open>Sync\<close>

definition findHighestIndexInPending :: "('db, 'ix) ByStateMachine \<Rightarrow> u64" where
  "findHighestIndexInPending s =
    fold (\<lambda>e updateIndex. if updateIndex < ueIndex e then ueIndex e else updateIndex)
      (pending s) (lastIndex s)"

text \<open>
  Each shard applies its own entries in its own goroutine. They share nothing, so they run here one
  after the other; an error in any of them is a panic of the process.
\<close>

fun applyShards ::
  "('db, 'ix) libs \<Rightarrow> rune list \<Rightarrow> ('db, 'ix) ByStateMachine \<Rightarrow> ('db, 'ix) ByStateMachine outcome"
where
  "applyShards L [] s = Done s"
| "applyShards L (c # cs) s =
    (case shardMap s c of
       None \<Rightarrow> applyShards L cs s
     | Some shard \<Rightarrow>
        let shardEntries = entries_of c (pending s) in
        if shardEntries = [] then applyShards L cs s
        else and_then (ApplyUpdates L shard shardEntries) (\<lambda>(shard', err).
          case err of
            Some x \<Rightarrow> Panic x
          | None \<Rightarrow> applyShards L cs (s\<lparr>shardMap := (shardMap s)(c \<mapsto> shard')\<rparr>)))"

definition Sync ::
  "('db, 'ix) libs \<Rightarrow> rune list \<Rightarrow> ('db, 'ix) ByStateMachine \<Rightarrow>
    (('db, 'ix) ByStateMachine \<times> gerror option) outcome" where
  "Sync L order s =
    and_then (applyShards L order (s\<lparr>lastIndex := findHighestIndexInPending s\<rparr>)) (\<lambda>s1.
      updateLastUpdateIndex L (s1\<lparr>pending := []\<rparr>))"

end
