(* ===== verification/Queue.thy ===== *)
theory Queue
  imports StateMachine
begin

text \<open>
  The pending queue and the content it stands for. The content of a state is what its shards hold
  with the queued commands applied to it; these lemmas relate the search in the queue to that
  content, one partition and one key at a time.
\<close>

section \<open>Applying queued commands\<close>

text \<open>As \<open>apply_command\<close>, but a partition is created only where there is none.\<close>

definition apply_strict :: "Command \<Rightarrow> content \<Rightarrow> content option" where
  "apply_strict c m =
    (if cmdType c = CREATE_PART \<and> m (cmdPart c) \<noteq> None then None else apply_command c m)"

fun apply_queue :: "Command list \<Rightarrow> content \<Rightarrow> content option" where
  "apply_queue [] m = Some m"
| "apply_queue (c # cs) m = Option.bind (apply_strict c m) (apply_queue cs)"

lemma apply_queue_append:
  "apply_queue (xs @ ys) m = Option.bind (apply_queue xs m) (apply_queue ys)"
proof (induction xs arbitrary: m)
  case Nil
  then show ?case by simp
next
  case (Cons c xs)
  then show ?case by (cases "apply_strict c m") simp_all
qed

lemma apply_queue_append_Some:
  "apply_queue (xs @ ys) m = Some m' \<longleftrightarrow>
    (\<exists>m1. apply_queue xs m = Some m1 \<and> apply_queue ys m1 = Some m')"
  by (auto simp: apply_queue_append bind_eq_Some_conv)

lemma apply_strict_weak: "apply_strict c m = Some m' \<Longrightarrow> apply_command c m = Some m'"
  by (simp add: apply_strict_def split: if_splits)

lemma apply_queue_weak: "apply_queue cs m = Some m' \<Longrightarrow> apply_commands cs m = Some m'"
  by (induction cs arbitrary: m) (auto simp: bind_eq_Some_conv dest!: apply_strict_weak)

text \<open>The partitions of one shard do not feel the commands of the others.\<close>

lemma apply_strict_local:
  assumes "apply_strict c m = Some m'" and "\<forall>p. Q p \<longrightarrow> m1 p = m p" and "Q (cmdPart c)"
  shows "\<exists>m1'. apply_strict c m1 = Some m1' \<and> (\<forall>p. Q p \<longrightarrow> m1' p = m' p)"
  using assms
  by (auto simp: apply_strict_def apply_command_def Let_def split: if_splits option.splits)

lemma apply_strict_other:
  "apply_strict c m = Some m' \<Longrightarrow> \<not> Q (cmdPart c) \<Longrightarrow> \<forall>p. Q p \<longrightarrow> m' p = m p"
  using apply_strict_weak apply_command_other by metis

lemma apply_queue_filter:
  assumes "apply_queue cs m = Some m'" and "\<forall>p. Q p \<longrightarrow> m1 p = m p"
  shows "\<exists>m1'. apply_queue (filter (\<lambda>c. Q (cmdPart c)) cs) m1 = Some m1' \<and>
    (\<forall>p. Q p \<longrightarrow> m1' p = m' p)"
  using assms
proof (induction cs arbitrary: m m1)
  case Nil
  then show ?case by simp
next
  case (Cons c cs)
  then obtain m2 where m2: "apply_strict c m = Some m2" "apply_queue cs m2 = Some m'"
    by (auto simp: bind_eq_Some_conv)
  show ?case
  proof (cases "Q (cmdPart c)")
    case True
    then obtain m3 where "apply_strict c m1 = Some m3" "\<forall>p. Q p \<longrightarrow> m3 p = m2 p"
      using apply_strict_local m2(1) Cons.prems(2) by blast
    with Cons.IH m2(2) True show ?thesis by simp
  next
    case False
    with m2(1) Cons.prems(2) have "\<forall>p. Q p \<longrightarrow> m1 p = m2 p"
      using apply_strict_other [of c m m2 Q] by simp
    with Cons.IH m2(2) False show ?thesis by simp
  qed
qed

section \<open>One partition, one key\<close>

text \<open>What a command sees of a content: whether its partition exists, and its own document.\<close>

definition sees :: "content \<Rightarrow> Command \<Rightarrow> bool \<times> string option" where
  "sees m c = (case m (cmdPart c) of None \<Rightarrow> (False, None) | Some b \<Rightarrow> (True, b (FullId c)))"

lemma FullId_eq:
  "cmdPart c = cmdPart d \<Longrightarrow> FullId c = FullId d \<longleftrightarrow> cmdId c = cmdId d"
  by (simp add: FullId_doc_key)

text \<open>A queued command that does not match leaves what the command sees as it is.\<close>

lemma apply_strict_unmatched:
  assumes "apply_strict (ueCmd e) m = Some m'" and "\<not> pending_matches c e"
    and "cmdIsPart (ueCmd e) \<longleftrightarrow> part_type (cmdType (ueCmd e))"
  shows "sees m' c = sees m c"
  using assms FullId_eq [of "ueCmd e" c]
  by (auto simp: apply_strict_def apply_command_def pending_matches_def sees_def type_defs Let_def
      split: if_splits option.splits)

definition consistent_part :: "updateEntry \<Rightarrow> bool" where
  "consistent_part e \<longleftrightarrow> (cmdIsPart (ueCmd e) \<longleftrightarrow> part_type (cmdType (ueCmd e)))"

lemma apply_queue_unmatched:
  assumes "apply_queue (map ueCmd es) m = Some m'" and "\<forall>e \<in> set es. \<not> pending_matches c e"
    and "\<forall>e \<in> set es. consistent_part e"
  shows "sees m' c = sees m c"
  using assms
proof (induction es arbitrary: m)
  case Nil
  then show ?case by simp
next
  case (Cons e es)
  then obtain m1 where "apply_strict (ueCmd e) m = Some m1" "apply_queue (map ueCmd es) m1 = Some m'"
    by (auto simp: bind_eq_Some_conv)
  with Cons show ?case
    using apply_strict_unmatched [of e m m1 c] by (simp add: consistent_part_def)
qed

text \<open>What a matching command leaves to see.\<close>

definition left_by :: "Command \<Rightarrow> bool \<times> string option" where
  "left_by x =
    (cmdType x \<noteq> DELETE_PART, if carries_doc (cmdType x) then Some (cmdBytesDoc x) else None)"

lemma apply_strict_matched:
  assumes "apply_strict (ueCmd e) m = Some m'" and "pending_matches c e"
    and "consistent_part e" and "alters (cmdType (ueCmd e))"
  shows "sees m' c = left_by (ueCmd e)"
  using assms FullId_eq [of "ueCmd e" c]
  by (auto simp: apply_strict_def apply_command_def pending_matches_def sees_def type_defs Let_def
      consistent_part_def left_by_def split: if_splits option.splits)

text \<open>
  The search in the queue, against the content after the queue: a hit says what is there, no hit
  says that the queue has not touched it.
\<close>

lemma queue_search:
  assumes "apply_queue (map ueCmd pend) m = Some m'" and "\<forall>e \<in> set pend. consistent_part e"
    and "\<forall>e \<in> set pend. alters (cmdType (ueCmd e))"
  shows "sees m' c =
    (case findCommandInPending pend c of None \<Rightarrow> sees m c | Some x \<Rightarrow> left_by x)"
proof (cases "last_match (pending_matches c) pend")
  case None
  then have "sees m' c = sees m c"
    using assms by (intro apply_queue_unmatched [of pend]) (simp_all add: last_match_None)
  with None show ?thesis by (simp add: findCommandInPending_def)
next
  case (Some e)
  then obtain ys zs where split: "pend = ys @ e # zs" "pending_matches c e"
      "\<forall>z \<in> set zs. \<not> pending_matches c z"
    by (rule last_match_split)
  then obtain m1 m2 where m: "apply_strict (ueCmd e) m1 = Some m2"
      "apply_queue (map ueCmd zs) m2 = Some m'"
    using assms(1) by (auto simp: apply_queue_append_Some bind_eq_Some_conv)
  have "sees m' c = sees m2 c"
    using apply_queue_unmatched m(2) split assms(2) by simp
  also have "\<dots> = left_by (ueCmd e)"
    using apply_strict_matched m(1) split assms(2,3) by simp
  finally show ?thesis using Some by (simp add: findCommandInPending_def)
qed

section \<open>Shards in the queue\<close>

definition in_own_shard :: "updateEntry \<Rightarrow> bool" where
  "in_own_shard e \<longleftrightarrow> ueShardId e = getFirstRune (cmdPart (ueCmd e))"

text \<open>Only the entries of a command's own shard can match it.\<close>

lemma findCommandInPending_shard:
  assumes "\<forall>e \<in> set pend. in_own_shard e"
  shows "findCommandInPending (entries_of (getFirstRune (cmdPart c)) pend) c =
    findCommandInPending pend c"
proof -
  have "last_match (pending_matches c) (entries_of (getFirstRune (cmdPart c)) pend) =
      last_match (pending_matches c) pend"
    unfolding entries_of_def using assms
    by (intro last_match_filter) (auto simp: in_own_shard_def pending_matches_def)
  then show ?thesis by (simp add: findCommandInPending_def)
qed

lemma entries_of_append [simp]: "entries_of c (xs @ ys) = entries_of c xs @ entries_of c ys"
  by (simp add: entries_of_def)

lemma entries_of_Nil [simp]: "entries_of c [] = []"
  by (simp add: entries_of_def)

lemma set_entries_of [simp]: "set (entries_of c es) = {e \<in> set es. ueShardId e = c}"
  by (auto simp: entries_of_def)

lemma map_ueCmd_entries_of:
  assumes "\<forall>e \<in> set es. in_own_shard e"
  shows "map ueCmd (entries_of c es) = filter (\<lambda>x. getFirstRune (cmdPart x) = c) (map ueCmd es)"
  using assms by (induction es) (auto simp: entries_of_def in_own_shard_def)

end
