(* ===== verification/Contract.thy ===== *)
theory Contract
  imports Queue
begin

text \<open>
  What the README promises of the commands that alter the database, as a state machine on the
  content alone: no queue, no shards, no log. A partition is a table of document texts by key.
\<close>

section \<open>Codes and effects\<close>

text \<open>The \<open>updated\<close> time stamp of a stored text.\<close>

definition stored_updated :: "json_decoder \<Rightarrow> string \<Rightarrow> i64 option" where
  "stored_updated js v = (case js v of Inl _ \<Rightarrow> None | Inr d \<Rightarrow> Some (docUpdated d))"

text \<open>
  The result code: 404 if the partition or the document is missing, 409 if it exists and must not,
  or if the time stamp is not that of the stored document, and 200 otherwise.
\<close>

definition spec_code :: "json_decoder \<Rightarrow> Command \<Rightarrow> content \<Rightarrow> u64" where
  "spec_code js c m =
    (case sees m c of
       (False, _) \<Rightarrow> if cmdType c = CREATE_PART then 200 else 404
     | (True, doc) \<Rightarrow>
        if cmdType c = CREATE_PART then 409
        else if cmdType c = DELETE_PART then 200
        else (case doc of
            None \<Rightarrow> if cmdType c = POST then 200 else 404
          | Some v \<Rightarrow>
              if cmdType c = POST then 409
              else if stored_updated js v = Some (cmdTs c) then 200 else 409))"

lemma spec_code_POST:
  "cmdType c = POST \<Longrightarrow> spec_code js c m =
    (if \<not> fst (sees m c) then 404 else if snd (sees m c) = None then 200 else 409)"
  by (cases "sees m c") (auto simp: spec_code_def split: option.split bool.split)

definition spec_effect :: "json_decoder \<Rightarrow> Command \<Rightarrow> content \<Rightarrow> content" where
  "spec_effect js c m = (if spec_code js c m = 200 then the (apply_command c m) else m)"

fun spec_run :: "json_decoder \<Rightarrow> Command list \<Rightarrow> content \<Rightarrow> u64 list \<times> content" where
  "spec_run js [] m = ([], m)"
| "spec_run js (c # cs) m =
    (let (vs, m') = spec_run js cs (spec_effect js c m) in (spec_code js c m # vs, m'))"

lemma snd_spec_run: "snd (spec_run js cs m) = fold (spec_effect js) cs m"
  by (induction cs arbitrary: m) (simp_all add: split_beta)

lemma spec_run_append: "spec_run js (cs @ ds) m =
    (fst (spec_run js cs m) @ fst (spec_run js ds (snd (spec_run js cs m))),
     snd (spec_run js ds (snd (spec_run js cs m))))"
  by (induction cs arbitrary: m) (simp_all add: split_beta)

text \<open>An accepted command can be carried out.\<close>

lemma spec_accepted:
  assumes "spec_code js c m = 200" and "alters (cmdType c)"
  shows "\<exists>m'. apply_strict c m = Some m' \<and> spec_effect js c m = m'"
  using assms
  by (auto simp: spec_effect_def spec_code_def apply_strict_def apply_command_def sees_def Let_def
      split: option.splits if_splits)

section \<open>Commands that do not meet\<close>

text \<open>
  Two commands are unrelated if they name different partitions, or different documents of one
  partition.
\<close>

definition unrelated :: "Command \<Rightarrow> Command \<Rightarrow> bool" where
  "unrelated c d \<longleftrightarrow> cmdPart c \<noteq> cmdPart d \<or>
    (\<not> part_type (cmdType c) \<and> \<not> part_type (cmdType d) \<and> cmdId c \<noteq> cmdId d)"

lemma unrelated_sym: "unrelated c d \<longleftrightarrow> unrelated d c"
  by (auto simp: unrelated_def)

lemma unrelated_sees:
  assumes "apply_command d m = Some m'" and "unrelated c d"
  shows "sees m' c = sees m c"
  using assms FullId_eq [of c d]
  by (auto simp: apply_command_def sees_def unrelated_def type_defs Let_def
      split: if_splits option.splits)

lemma spec_code_sees: "sees m' c = sees m c \<Longrightarrow> spec_code js c m' = spec_code js c m"
  by (simp add: spec_code_def)

lemma unrelated_effect_sees:
  assumes "alters (cmdType d)" and "unrelated c d"
  shows "sees (spec_effect js d m) c = sees m c"
proof (cases "spec_code js d m = 200")
  case True
  with assms(1) obtain m' where "apply_strict d m = Some m'" "spec_effect js d m = m'"
    using spec_accepted by blast
  with assms(2) show ?thesis using unrelated_sees apply_strict_weak by blast
next
  case False
  then show ?thesis by (simp add: spec_effect_def)
qed

lemma spec_run_unrelated:
  assumes "\<forall>d \<in> set cs. alters (cmdType d)" and "sorted_wrt unrelated cs"
  shows "fst (spec_run js cs m) = map (\<lambda>c. spec_code js c m) cs"
  using assms
proof (induction cs arbitrary: m)
  case Nil
  then show ?case by simp
next
  case (Cons c cs)
  have "spec_code js d (spec_effect js c m) = spec_code js d m" if "d \<in> set cs" for d
    by (rule spec_code_sees, rule unrelated_effect_sees)
      (use Cons.prems that unrelated_sym [of c d] in auto)
  with Cons show ?case by (simp add: split_beta)
qed

section \<open>Partitions do not interfere\<close>

lemma apply_command_agree:
  assumes "m1 (cmdPart c) = m2 (cmdPart c)"
  shows "map_option (\<lambda>m'. m' (cmdPart c)) (apply_command c m1) =
    map_option (\<lambda>m'. m' (cmdPart c)) (apply_command c m2)"
  using assms by (auto simp: apply_command_def Let_def split: option.split)

text \<open>An effect is an update of the command's own partition.\<close>

definition own_part :: "json_decoder \<Rightarrow> Command \<Rightarrow> (string \<rightharpoonup> string) option \<Rightarrow> (string \<rightharpoonup> string) option" where
  "own_part js c b = spec_effect js c (\<lambda>p. if p = cmdPart c then b else None) (cmdPart c)"

lemma spec_effect_other:
  assumes "alters (cmdType c)" and "p \<noteq> cmdPart c"
  shows "spec_effect js c m p = m p"
proof (cases "spec_code js c m = 200")
  case True
  with assms show ?thesis
    using spec_accepted apply_strict_weak apply_command_other by metis
next
  case False
  then show ?thesis by (simp add: spec_effect_def)
qed

lemma spec_effect_agree:
  assumes "alters (cmdType c)" and "m1 (cmdPart c) = m2 (cmdPart c)"
  shows "spec_effect js c m1 (cmdPart c) = spec_effect js c m2 (cmdPart c)"
proof -
  have "sees m1 c = sees m2 c" using assms(2) by (simp add: sees_def)
  then have code: "spec_code js c m1 = spec_code js c m2" by (rule spec_code_sees)
  show ?thesis
  proof (cases "spec_code js c m2 = 200")
    case True
    with code assms(1) obtain a1 a2 where
        a: "apply_command c m1 = Some a1" "apply_command c m2 = Some a2"
      using spec_accepted apply_strict_weak by metis
    with apply_command_agree [of m1 c m2, OF assms(2)] have "a1 (cmdPart c) = a2 (cmdPart c)" by simp
    with a True code show ?thesis by (simp add: spec_effect_def)
  next
    case False
    with code assms(2) show ?thesis by (simp add: spec_effect_def)
  qed
qed

lemma spec_effect_fun_upd:
  assumes "alters (cmdType c)"
  shows "spec_effect js c m = m(cmdPart c := own_part js c (m (cmdPart c)))"
proof
  fix p
  show "spec_effect js c m p = (m(cmdPart c := own_part js c (m (cmdPart c)))) p"
    using assms spec_effect_other [of c p js m]
      spec_effect_agree [of c m "\<lambda>p. if p = cmdPart c then m (cmdPart c) else None" js]
    by (cases "p = cmdPart c") (simp_all add: own_part_def)
qed

lemma spec_effect_commute:
  assumes "alters (cmdType c)" and "alters (cmdType d)" and "cmdPart c \<noteq> cmdPart d"
  shows "spec_effect js c (spec_effect js d m) = spec_effect js d (spec_effect js c m)"
  using assms by (simp add: spec_effect_fun_upd fun_upd_twist)

text \<open>
  A fold over steps that commute when their keys differ may be regrouped by key.
\<close>

lemma fold_split_key:
  assumes "\<And>x y z. x \<in> set xs \<Longrightarrow> y \<in> set xs \<Longrightarrow> P x \<Longrightarrow> \<not> P y \<Longrightarrow> f x (f y z) = f y (f x z)"
  shows "fold f xs = fold f (filter P xs @ filter (\<lambda>x. \<not> P x) xs)"
  using assms
proof (induction xs)
  case Nil
  then show ?case by simp
next
  case (Cons x xs)
  have IH: "fold f xs = fold f (filter P xs @ filter (\<lambda>x. \<not> P x) xs)"
    using Cons.prems by (intro Cons.IH) auto
  show ?case
  proof (cases "P x")
    case True
    with IH show ?thesis by simp
  next
    case False
    have "f x \<circ> f y = f y \<circ> f x" if "y \<in> set (filter P xs)" for y
      using Cons.prems [of y x] False that by (auto simp: fun_eq_iff)
    then have "fold f (filter P xs) \<circ> f x = f x \<circ> fold f (filter P xs)"
      using fold_commute [of "filter P xs" "f x" f f] by simp
    then have "fold f (filter P xs) (f x z) = f x (fold f (filter P xs) z)" for z
      by (simp add: fun_eq_iff)
    with False IH show ?thesis by (simp add: fun_eq_iff)
  qed
qed

lemma fold_grouped:
  assumes "\<And>x y z. x \<in> set xs \<Longrightarrow> y \<in> set xs \<Longrightarrow> k x \<noteq> k y \<Longrightarrow> f x (f y z) = f y (f x z)"
    and "distinct ks" and "k ` set xs \<subseteq> set ks"
  shows "fold f (concat (map (\<lambda>c. filter (\<lambda>x. k x = c) xs) ks)) = fold f xs"
  using assms
proof (induction ks arbitrary: xs)
  case Nil
  then show ?case by simp
next
  case (Cons c ks)
  let ?r = "filter (\<lambda>x. k x \<noteq> c) xs"
  have same: "map (\<lambda>c'. filter (\<lambda>x. k x = c') ?r) ks = map (\<lambda>c'. filter (\<lambda>x. k x = c') xs) ks"
    using Cons.prems(2) by (auto intro: filter_cong)
  have "fold f (concat (map (\<lambda>c'. filter (\<lambda>x. k x = c') ?r) ks)) = fold f ?r"
    using Cons.prems by (intro Cons.IH) auto
  then have "fold f (concat (map (\<lambda>c'. filter (\<lambda>x. k x = c') xs) ks)) = fold f ?r"
    unfolding same .
  moreover have "fold f xs = fold f (filter (\<lambda>x. k x = c) xs @ ?r)"
    using Cons.prems(1) by (intro fold_split_key) auto
  ultimately show ?case by simp
qed

lemma sorted_wrt_grouped:
  assumes "sorted_wrt R xs" and "\<And>x y. k x \<noteq> k y \<Longrightarrow> R x y" and "distinct ks"
  shows "sorted_wrt R (concat (map (\<lambda>c. filter (\<lambda>x. k x = c) xs) ks))"
  using assms(3)
proof (induction ks)
  case Nil
  then show ?case by simp
next
  case (Cons c ks)
  then show ?case
    using assms(1,2) by (auto simp: sorted_wrt_append sorted_wrt_filter) metis
qed

section \<open>Stored texts\<close>

text \<open>
  Every stored text decodes, to a document that says where it is stored.
\<close>

definition part_ok :: "json_decoder \<Rightarrow> string \<Rightarrow> (string \<rightharpoonup> string) \<Rightarrow> bool" where
  "part_ok js p b \<longleftrightarrow> (\<forall>k v. b k = Some v \<longrightarrow>
    v \<noteq> [] \<and> (\<exists>d. js v = Inr d \<and> docPart d = p \<and> k = doc_key p (docId d)))"

definition content_ok :: "json_decoder \<Rightarrow> content \<Rightarrow> bool" where
  "content_ok js m \<longleftrightarrow> (\<forall>p b. m p = Some b \<longrightarrow> part_ok js p b)"

lemma content_ok_seen:
  assumes "content_ok js m" and "sees m c = (x, Some v)"
  shows "v \<noteq> []" and "\<exists>d. js v = Inr d"
proof -
  from assms(2) obtain b where "m (cmdPart c) = Some b" "b (FullId c) = Some v"
    by (auto simp: sees_def split: option.splits)
  with assms(1) have "part_ok js (cmdPart c) b" "b (FullId c) = Some v" by (auto simp: content_ok_def)
  then have "v \<noteq> [] \<and> (\<exists>d. js v = Inr d)" unfolding part_ok_def by blast
  then show "v \<noteq> []" and "\<exists>d. js v = Inr d" by simp_all
qed

lemma part_ok_upd:
  assumes "part_ok js (cmdPart c) b" and "wf_command js c" and "carries_doc (cmdType c)"
  shows "part_ok js (cmdPart c) (b(FullId c \<mapsto> cmdBytesDoc c))"
  using assms by (auto simp: part_ok_def wf_command_def braced_def FullId_doc_key)

lemma part_ok_delete: "part_ok js p b \<Longrightarrow> part_ok js p (b(k := None))"
  by (simp add: part_ok_def)

lemma content_ok_upd: "content_ok js m \<Longrightarrow> part_ok js p b \<Longrightarrow> content_ok js (m(p \<mapsto> b))"
  by (simp add: content_ok_def)

lemma content_ok_apply:
  assumes "content_ok js m" and "apply_command c m = Some m'" and "wf_command js c"
  shows "content_ok js m'"
proof (cases "cmdType c = CREATE_PART")
  case True
  have "part_ok js p Map.empty" for p by (simp add: part_ok_def)
  with True assms(1,2) show ?thesis
    by (cases "m (cmdPart c)") (auto simp: apply_command_def content_ok_def split: if_splits)
next
  case create: False
  show ?thesis
  proof (cases "m (cmdPart c)")
    case None
    with create assms(1,2) show ?thesis by (auto simp: apply_command_def Let_def split: if_splits)
  next
    case (Some b)
    with assms(1) have b: "part_ok js (cmdPart c) b" by (simp add: content_ok_def)
    show ?thesis
    proof (cases "carries_doc (cmdType c)")
      case True
      with Some create assms b show ?thesis
        by (auto simp: apply_command_def Let_def type_defs intro!: content_ok_upd part_ok_upd)
    next
      case False
      with Some create assms b content_ok_upd [OF assms(1) part_ok_delete [OF b]] show ?thesis
        by (auto simp: apply_command_def Let_def type_defs content_ok_def split: if_splits)
    qed
  qed
qed

lemma content_ok_queue:
  assumes "content_ok js m" and "apply_queue cs m = Some m'" and "\<forall>c \<in> set cs. wf_command js c"
  shows "content_ok js m'"
  using assms
proof (induction cs arbitrary: m)
  case Nil
  then show ?case by simp
next
  case (Cons c cs)
  then obtain m1 where "apply_strict c m = Some m1" "apply_queue cs m1 = Some m'"
    by (auto simp: bind_eq_Some_conv)
  with Cons content_ok_apply [of js m c m1] apply_strict_weak show ?case by auto
qed

end
