(* ===== verification/Update.thy ===== *)
theory Update
  imports Queue "HOL-Library.Multiset"
begin

text \<open>
  What \<open>Update\<close> does. First the order of the shard map: whatever order Go's map iteration takes,
  the results are the same and each shard gets the same queue. Then one entry at a time: the
  decision agrees with the content.
\<close>

section \<open>Decisions without the accumulators\<close>

definition accepted :: "updateEntry list \<Rightarrow> updateEntry list" where
  "accepted es = map (\<lambda>e. e\<lparr>ueEntry := None\<rparr>)
    (filter (\<lambda>e. case decide e of Some (_, ok) \<Rightarrow> ok | None \<Rightarrow> False) es)"

definition answer :: "updateEntry \<Rightarrow> smEntry list \<Rightarrow> smEntry list" where
  "answer e ups = (case decide e of None \<Rightarrow> ups | Some (v, _) \<Rightarrow> setResult ups (ueEntry e) v)"

lemma decideAll_eq: "decideAll ups pend es = (fold answer es ups, pend @ accepted es)"
proof (induction es arbitrary: ups pend)
  case Nil
  then show ?case by (simp add: accepted_def)
next
  case (Cons e es)
  then show ?case
    by (cases "decide e") (auto simp: accepted_def answer_def)
qed

text \<open>The entries of a shard after the searches in the queue and in the shard.\<close>

definition examined ::
  "('db, 'ix) libs \<Rightarrow> ('db, 'ix) Shard \<Rightarrow> updateEntry list \<Rightarrow> updateEntry list \<Rightarrow>
    gerror + updateEntry list" where
  "examined L shard pend es =
    (let es1 = map (attachPending pend) es
     in if 0 < stateSearchDocs pend es then FindExistingDocumentsForUpdates L shard es1
        else Inr es1)"

lemma updateShard_eq:
  "updateShard L shard es ups pend =
    (if es = [] then Inr (ups, pend)
     else case examined L shard pend es of
        Inl err \<Rightarrow> Inl err
      | Inr es2 \<Rightarrow> Inr (fold answer es2 ups, pend @ accepted es2))"
  by (simp add: updateShard_def examined_def Let_def decideAll_eq)

lemma findExistingLoop_fields:
  "findExistingLoop L db es = Inr es' \<Longrightarrow>
    map (\<lambda>e. (ueEntry e, ueCmd e, ueIndex e, ueShardId e)) es' =
    map (\<lambda>e. (ueEntry e, ueCmd e, ueIndex e, ueShardId e)) es"
  by (induction es arbitrary: es') (auto simp: Let_def split: if_splits option.splits sum.splits)

lemma attachPending_fields [simp]:
  "ueEntry (attachPending pend e) = ueEntry e" "ueCmd (attachPending pend e) = ueCmd e"
  "ueIndex (attachPending pend e) = ueIndex e" "ueShardId (attachPending pend e) = ueShardId e"
  by (simp_all add: attachPending_def split: option.split)

lemma examined_fields:
  "examined L shard pend es = Inr es' \<Longrightarrow>
    map (\<lambda>e. (ueEntry e, ueCmd e, ueIndex e, ueShardId e)) es' =
    map (\<lambda>e. (ueEntry e, ueCmd e, ueIndex e, ueShardId e)) es"
  by (auto simp: examined_def Let_def FindExistingDocumentsForUpdates_def boltView_def comp_def
      dest: findExistingLoop_fields split: if_splits option.splits)

lemma examined_set:
  assumes "examined L shard pend es = Inr es'" and "e' \<in> set es'"
  shows "\<exists>e \<in> set es. ueEntry e = ueEntry e' \<and> ueCmd e = ueCmd e' \<and> ueIndex e = ueIndex e' \<and>
    ueShardId e = ueShardId e'"
proof -
  have "(ueEntry e', ueCmd e', ueIndex e', ueShardId e') \<in>
      set (map (\<lambda>e. (ueEntry e, ueCmd e, ueIndex e, ueShardId e)) es')"
    using assms(2) by auto
  then show ?thesis unfolding examined_fields [OF assms(1)] by auto
qed

text \<open>Only the shard's own part of the queue matters.\<close>

lemma examined_own_queue:
  assumes "\<forall>e \<in> set pend. in_own_shard e" and "\<forall>e \<in> set pend'. in_own_shard e"
    and "entries_of c pend = entries_of c pend'"
    and "\<forall>e \<in> set es. in_own_shard e \<and> ueShardId e = c"
  shows "examined L shard pend es = examined L shard pend' es"
proof -
  have find: "findCommandInPending pend (ueCmd e) = findCommandInPending pend' (ueCmd e)"
    if "e \<in> set es" for e
  proof -
    have "getFirstRune (cmdPart (ueCmd e)) = c" using that assms(4) by (auto simp: in_own_shard_def)
    then show ?thesis
      using findCommandInPending_shard [OF assms(1), of "ueCmd e"]
        findCommandInPending_shard [OF assms(2), of "ueCmd e"] assms(3) by simp
  qed
  then have "map (attachPending pend) es = map (attachPending pend') es"
    by (simp add: attachPending_def)
  moreover have "stateSearchDocs pend es = stateSearchDocs pend' es"
    unfolding stateSearchDocs_def using find by (intro arg_cong [where f = length] filter_cong) auto
  ultimately show ?thesis unfolding examined_def by (simp only:)
qed

section \<open>The loop over the shards\<close>

text \<open>The entries of one shard as they are when they are decided, or the error of the shard.\<close>

definition shard_entries ::
  "('db, 'ix) libs \<Rightarrow> ('db, 'ix) ByStateMachine \<Rightarrow> updateEntry list \<Rightarrow> rune \<Rightarrow>
    gerror + updateEntry list" where
  "shard_entries L s es c =
    (case shardMap s c of
       None \<Rightarrow> Inr []
     | Some shard \<Rightarrow>
        if entries_of c es = [] then Inr []
        else examined L shard (pending s) (entries_of c es))"

definition decided ::
  "('db, 'ix) libs \<Rightarrow> ('db, 'ix) ByStateMachine \<Rightarrow> updateEntry list \<Rightarrow> rune \<Rightarrow> updateEntry list" where
  "decided L s es c = (case shard_entries L s es c of Inl _ \<Rightarrow> [] | Inr ds \<Rightarrow> ds)"

lemma decided_Inr: "shard_entries L s es c = Inr ds \<Longrightarrow> decided L s es c = ds"
  by (simp add: decided_def)

lemma shard_entries_set:
  assumes "shard_entries L s es c = Inr ds" and "d \<in> set ds"
  shows "\<exists>e \<in> set es. ueEntry e = ueEntry d \<and> ueCmd e = ueCmd d \<and> ueIndex e = ueIndex d \<and>
    ueShardId e = ueShardId d" and "ueShardId d = c"
  using assms
  by (auto simp: shard_entries_def dest!: examined_set split: option.splits if_splits)

lemma accepted_set: "a \<in> set (accepted ds) \<Longrightarrow>
    \<exists>d \<in> set ds. a = d\<lparr>ueEntry := None\<rparr> \<and> (\<exists>v. decide d = Some (v, True))"
  by (auto simp: accepted_def split: option.splits)

lemma accepted_entries:
  assumes "shard_entries L s es c = Inr ds"
  shows "entries_of c' (accepted ds) = (if c' = c then accepted ds else [])"
  using shard_entries_set(2) [OF assms] accepted_set [of _ ds]
  by (auto simp: entries_of_def filter_empty_conv filter_id_conv) (auto dest!: accepted_set)

lemma updateShards_run:
  assumes "distinct cs" and "\<forall>e \<in> set es. in_own_shard e" and "\<forall>e \<in> set (pending s). in_own_shard e"
    and "\<forall>e \<in> set q. in_own_shard e" and "\<forall>c \<in> set cs. entries_of c q = entries_of c (pending s)"
  shows "updateShards L cs es (s\<lparr>pending := q\<rparr>) ups = (s', ups', None) \<longleftrightarrow>
    (\<forall>c \<in> set cs. \<exists>ds. shard_entries L s es c = Inr ds) \<and>
    s' = s\<lparr>pending := q @ concat (map (\<lambda>c. accepted (decided L s es c)) cs)\<rparr> \<and>
    ups' = fold answer (concat (map (decided L s es) cs)) ups"
  using assms
proof (induction cs arbitrary: q ups)
  case Nil
  then show ?case by auto
next
  case (Cons c cs)
  have same: "examined L shard q (entries_of c es) = examined L shard (pending s) (entries_of c es)" for shard
    using Cons.prems by (intro examined_own_queue) auto
  show ?case
  proof (cases "shard_entries L s es c")
    case (Inl err)
    with same show ?thesis
      by (auto simp: shard_entries_def updateShard_eq split: option.splits if_splits)
  next
    case (Inr ds)
    let ?q = "q @ accepted ds"
    have step: "updateShards L (c # cs) es (s\<lparr>pending := q\<rparr>) ups =
        updateShards L cs es (s\<lparr>pending := ?q\<rparr>) (fold answer ds ups)"
      using Inr same
      by (auto simp: shard_entries_def updateShard_eq accepted_def split: option.splits if_splits)
    have own: "\<forall>e \<in> set (accepted ds). in_own_shard e"
    proof
      fix a assume "a \<in> set (accepted ds)"
      then obtain d where "d \<in> set ds" "a = d\<lparr>ueEntry := None\<rparr>" using accepted_set by blast
      with shard_entries_set(1) [OF Inr] Cons.prems(2) show "in_own_shard a"
        by (fastforce simp: in_own_shard_def)
    qed
    have "\<forall>c' \<in> set cs. entries_of c' ?q = entries_of c' (pending s)"
      using Cons.prems(1,5) accepted_entries [OF Inr] by auto
    with Cons.prems own have IH: "updateShards L cs es (s\<lparr>pending := ?q\<rparr>) (fold answer ds ups) =
          (s', ups', None) \<longleftrightarrow>
        (\<forall>c \<in> set cs. \<exists>ds. shard_entries L s es c = Inr ds) \<and>
        s' = s\<lparr>pending := ?q @ concat (map (\<lambda>c. accepted (decided L s es c)) cs)\<rparr> \<and>
        ups' = fold answer (concat (map (decided L s es) cs)) (fold answer ds ups)"
      by (intro Cons.IH) auto
    show ?thesis unfolding step IH using Inr by (simp add: decided_Inr)
  qed
qed

lemma updateShards_run_self:
  assumes "distinct cs" and "\<forall>e \<in> set es. in_own_shard e" and "\<forall>e \<in> set (pending s). in_own_shard e"
  shows "updateShards L cs es s ups = (s', ups', None) \<longleftrightarrow>
    (\<forall>c \<in> set cs. \<exists>ds. shard_entries L s es c = Inr ds) \<and>
    s' = s\<lparr>pending := pending s @ concat (map (\<lambda>c. accepted (decided L s es c)) cs)\<rparr> \<and>
    ups' = fold answer (concat (map (decided L s es) cs)) ups"
  using updateShards_run [OF assms assms(3), of L ups s' ups'] by simp

text \<open>The queue of one shard after the loop.\<close>

lemma entries_of_decided:
  assumes "\<forall>c \<in> set cs. \<exists>ds. shard_entries L s es c = Inr ds" and "distinct cs"
  shows "entries_of c (concat (map (\<lambda>c. accepted (decided L s es c)) cs)) =
    (if c \<in> set cs then accepted (decided L s es c) else [])"
  using assms by (induction cs) (auto simp: decided_def accepted_entries)

section \<open>The order does not matter\<close>

lemma setResult_commute:
  "i \<noteq> j \<Longrightarrow> setResult (setResult ups i v) j w = setResult (setResult ups j w) i v"
  by (cases i; cases j) (auto simp: setResult_def intro: list_update_swap)

lemma answer_commute:
  "ueEntry d \<noteq> ueEntry e \<Longrightarrow> answer d (answer e ups) = answer e (answer d ups)"
  by (auto simp: answer_def setResult_commute split: option.split)

lemma decided_entries:
  assumes "shard_entries L s es c = Inr ds"
  shows "map ueEntry ds = (if shardMap s c = None then [] else map ueEntry (entries_of c es))"
proof -
  have "map ueEntry ds = map ueEntry (entries_of c es)"
    if "examined L shard (pending s) (entries_of c es) = Inr ds" for shard
    using arg_cong [OF examined_fields [OF that], of "map fst"] by (simp add: comp_def)
  with assms show ?thesis by (auto simp: shard_entries_def split: option.splits if_splits)
qed

lemma decided_distinct:
  assumes "\<forall>c \<in> set cs. \<exists>ds. shard_entries L s es c = Inr ds" and "distinct cs"
    and "distinct (map ueEntry es)"
  shows "distinct (map ueEntry (concat (map (decided L s es) cs)))"
  using assms(1,2)
proof (induction cs)
  case Nil
  then show ?case by simp
next
  case (Cons c cs)
  then obtain ds where ds: "shard_entries L s es c = Inr ds" by auto
  have "distinct (map ueEntry (entries_of c es))"
    using assms(3) by (simp add: entries_of_def distinct_map_filter)
  then have one: "distinct (map ueEntry ds)" using decided_entries [OF ds] by simp
  have "ueEntry d \<noteq> ueEntry d'"
    if d: "d \<in> set ds" and d': "c' \<in> set cs" "d' \<in> set (decided L s es c')" for d c' d'
  proof
    assume eq: "ueEntry d = ueEntry d'"
    from d' Cons.prems(1) obtain ds' where ds': "shard_entries L s es c' = Inr ds'" "d' \<in> set ds'"
      by (auto simp: decided_def)
    obtain e e' where "e \<in> set es" "ueEntry e = ueEntry d" "ueShardId e = c"
        "e' \<in> set es" "ueEntry e' = ueEntry d'" "ueShardId e' = c'"
      using shard_entries_set [OF ds d] shard_entries_set [OF ds'] by metis
    with eq assms(3) have "c = c'" by (auto simp: distinct_map inj_on_def)
    with d'(1) Cons.prems(2) show False by simp
  qed
  with one Cons ds show ?case by (auto simp: decided_def)
qed

lemma fold_answer_order:
  assumes "distinct (map ueEntry ds)" and "mset ds = mset ds'"
  shows "fold answer ds = fold answer ds'"
proof (rule fold_multiset_equiv [OF _ assms(2)])
  fix x y assume "x \<in> set ds" "y \<in> set ds"
  with assms(1) have "x = y \<or> ueEntry x \<noteq> ueEntry y" by (auto simp: distinct_map inj_on_def)
  then show "answer x \<circ> answer y = answer y \<circ> answer x"
    using answer_commute by (auto simp: fun_eq_iff)
qed

lemma mset_concat_order:
  "mset cs = mset cs' \<Longrightarrow> mset (concat (map f cs)) = mset (concat (map f cs'))"
  by (simp add: mset_concat comp_def flip: sum_mset_sum_list)

text \<open>Two states that differ at most in how the queues of different shards are interleaved.\<close>

definition same_queues :: "('db, 'ix) ByStateMachine \<Rightarrow> ('db, 'ix) ByStateMachine \<Rightarrow> bool" where
  "same_queues s t \<longleftrightarrow> shardMap s = shardMap t \<and> metaDb s = metaDb t \<and> lastIndex s = lastIndex t \<and>
    mset (pending s) = mset (pending t) \<and> (\<forall>c. entries_of c (pending s) = entries_of c (pending t))"

lemma updateShards_order:
  assumes "distinct cs" and "distinct cs'" and "set cs = set cs'"
    and "\<forall>e \<in> set es. in_own_shard e" and "\<forall>e \<in> set (pending s). in_own_shard e"
    and "distinct (map ueEntry es)"
    and "updateShards L cs es s ups = (s1, ups1, None)"
  shows "\<exists>s2. updateShards L cs' es s ups = (s2, ups1, None) \<and> same_queues s1 s2"
proof -
  note run = updateShards_run_self [OF _ assms(4,5)]
  from assms(7) run [OF assms(1)]
  have ok: "\<forall>c \<in> set cs. \<exists>ds. shard_entries L s es c = Inr ds"
    and s1: "s1 = s\<lparr>pending := pending s @ concat (map (\<lambda>c. accepted (decided L s es c)) cs)\<rparr>"
    and ups1: "ups1 = fold answer (concat (map (decided L s es) cs)) ups"
    by blast+
  let ?s2 = "s\<lparr>pending := pending s @ concat (map (\<lambda>c. accepted (decided L s es c)) cs')\<rparr>"
  have m: "mset cs = mset cs'" using assms(1-3) by (simp add: set_eq_iff_mset_eq_distinct)
  have "fold answer (concat (map (decided L s es) cs)) =
      fold answer (concat (map (decided L s es) cs'))"
    using fold_answer_order [OF decided_distinct [OF ok assms(1,6)]] mset_concat_order [OF m] by blast
  with run [OF assms(2), of L ups ?s2 ups1] ok ups1 assms(3)
  have "updateShards L cs' es s ups = (?s2, ups1, None)" by simp
  moreover have "same_queues s1 ?s2"
    using s1 mset_concat_order [OF m, of "\<lambda>c. accepted (decided L s es c)"]
      entries_of_decided [OF ok assms(1)] entries_of_decided [of cs' L s es, OF _ assms(2)] ok assms(3)
    by (simp add: same_queues_def)
  ultimately show ?thesis by blast
qed

lemma updateShards_own:
  assumes "distinct cs" and "\<forall>e \<in> set es. in_own_shard e" and "\<forall>e \<in> set (pending s). in_own_shard e"
    and "updateShards L cs es s ups = (s', ups', None)"
  shows "\<forall>e \<in> set (pending s'). in_own_shard e"
proof -
  from updateShards_run_self [OF assms(1-3)] assms(4)
  have ok: "\<forall>c \<in> set cs. \<exists>ds. shard_entries L s es c = Inr ds"
    and s': "s' = s\<lparr>pending := pending s @ concat (map (\<lambda>c. accepted (decided L s es c)) cs)\<rparr>"
    by blast+
  have "in_own_shard a" if c: "c \<in> set cs" and a: "a \<in> set (accepted (decided L s es c))" for a c
  proof -
    from bspec [OF ok c] obtain ds where ds: "shard_entries L s es c = Inr ds" ..
    from accepted_set [OF a] obtain d where d: "d \<in> set ds" "a = d\<lparr>ueEntry := None\<rparr>"
      using decided_Inr [OF ds] by auto
    from shard_entries_set(1) [OF ds d(1)] assms(2) d(2) show ?thesis
      by (auto simp: in_own_shard_def)
  qed
  with s' assms(3) show ?thesis by auto
qed

lemma parseEntries_entries:
  "parseEntries js i ens = Done es \<Longrightarrow>
    map ueEntry es = map Some [i..<i + length ens] \<and> (\<forall>e \<in> set es. in_own_shard e)"
proof (induction ens arbitrary: i es)
  case Nil
  then show ?case by simp
next
  case (Cons en ens)
  then obtain c es' where "ParseCommand js (enCmd en) = Inr c" "parseEntries js (Suc i) ens = Done es'"
      "es = \<lparr>ueEntry = Some i, ueCmd = c, ueExistingDoc = None, uePartExists = False,
        ueIndex = enIndex en, ueShardId = getFirstRune (cmdPart c)\<rparr> # es'"
    by (auto simp: outcome_eqs split: sum.splits)
  with Cons.IH [of "Suc i" es'] show ?case
    by (auto simp: in_own_shard_def upt_conv_Cons simp del: upt_Suc)
qed

lemma parseEntries_nth:
  "parseEntries js k ens = Done es \<Longrightarrow> i < length ens \<Longrightarrow> ParseCommand js (enCmd (ens ! i)) = Inr c \<Longrightarrow>
    ueShardId (es ! i) = getFirstRune (cmdPart c)"
proof (induction ens arbitrary: k es i)
  case Nil
  then show ?case by simp
next
  case (Cons en ens)
  then show ?case by (cases i) (auto simp: outcome_eqs split: sum.splits)
qed

lemma updateShards_shards:
  "shardMap (fst (updateShards L cs es s ups)) = shardMap s"
proof (induction cs arbitrary: s ups)
  case Nil
  then show ?case by simp
next
  case (Cons c cs)
  then show ?case by (simp split: option.split sum.split prod.split)
qed

end
