(* ===== verification/Sync.thy ===== *)
theory Sync
  imports Update
begin

text \<open>
  What \<open>Sync\<close> and the reads do: \<open>Sync\<close> gives the same state in whatever order the shards are
  applied, its index is the largest of the queue, and neither it nor a read depends on how the
  queues of different shards are interleaved.
\<close>

section \<open>The highest index\<close>

lemma findHighest_Max:
  "findHighestIndexInPending s = Max (insert (lastIndex s) (ueIndex ` set (pending s)))"
proof -
  have "(\<lambda>(e::updateEntry) u. if u < ueIndex e then ueIndex e else u) = (\<lambda>e. max (ueIndex e))"
    by (auto simp: fun_eq_iff max_def)
  then have "findHighestIndexInPending s = fold (\<lambda>e. max (ueIndex e)) (pending s) (lastIndex s)"
    by (simp only: findHighestIndexInPending_def)
  also have "\<dots> = fold max (map ueIndex (pending s)) (lastIndex s)"
    by (simp add: fold_map comp_def)
  finally show ?thesis by (simp add: fold_max_set)
qed

section \<open>The shards\<close>

text \<open>A shard after its entries are applied; \<open>None\<close> if that fails.\<close>

definition applied ::
  "('db, 'ix) libs \<Rightarrow> ('db, 'ix) ByStateMachine \<Rightarrow> rune \<Rightarrow> ('db, 'ix) Shard option option" where
  "applied L s c =
    (case shardMap s c of
       None \<Rightarrow> Some None
     | Some shard \<Rightarrow>
        if entries_of c (pending s) = [] then Some (Some shard)
        else case ApplyUpdates L shard (entries_of c (pending s)) of
            Done (shard', None) \<Rightarrow> Some (Some shard')
          | _ \<Rightarrow> None)"

definition applied_map ::
  "('db, 'ix) libs \<Rightarrow> ('db, 'ix) ByStateMachine \<Rightarrow> rune list \<Rightarrow> rune \<Rightarrow> ('db, 'ix) Shard option" where
  "applied_map L s cs c = (if c \<in> set cs then the (applied L s c) else shardMap s c)"

lemma applyShards_step:
  assumes "M c = shardMap s c"
  shows "applyShards L (c # cs) (s\<lparr>shardMap := M\<rparr>) = Done s' \<longleftrightarrow>
    (\<exists>x. applied L s c = Some x \<and> applyShards L cs (s\<lparr>shardMap := M(c := x)\<rparr>) = Done s')"
proof (cases "shardMap s c")
  case None
  with assms have "M(c := None) = M" by (auto simp: fun_eq_iff)
  with None assms show ?thesis by (simp add: applied_def)
next
  case (Some shard)
  with assms have M: "M(c \<mapsto> shard) = M" by (auto simp: fun_eq_iff)
  show ?thesis
  proof (cases "entries_of c (pending s) = []")
    case True
    with Some M assms show ?thesis by (simp add: applied_def)
  next
    case False
    with Some assms show ?thesis
      by (cases "ApplyUpdates L shard (entries_of c (pending s))")
        (auto simp: applied_def split: option.splits)
  qed
qed

lemma applyShards_run:
  assumes "distinct cs" and "\<forall>c \<in> set cs. M c = shardMap s c"
  shows "applyShards L cs (s\<lparr>shardMap := M\<rparr>) = Done s' \<longleftrightarrow>
    (\<forall>c \<in> set cs. applied L s c \<noteq> None) \<and>
    s' = s\<lparr>shardMap := (\<lambda>c. if c \<in> set cs then the (applied L s c) else M c)\<rparr>"
  using assms
proof (induction cs arbitrary: M)
  case Nil
  then show ?case by auto
next
  case (Cons c cs)
  show ?case
  proof (cases "applied L s c")
    case None
    with applyShards_step [of M c s L cs s'] Cons.prems show ?thesis by simp
  next
    case (Some x)
    have "\<forall>c' \<in> set cs. (M(c := x)) c' = shardMap s c'" using Cons.prems by auto
    then
    have IH: "applyShards L cs (s\<lparr>shardMap := M(c := x)\<rparr>) = Done s' \<longleftrightarrow>
        (\<forall>c \<in> set cs. applied L s c \<noteq> None) \<and>
        s' = s\<lparr>shardMap := (\<lambda>c'. if c' \<in> set cs then the (applied L s c') else (M(c := x)) c')\<rparr>"
      using Cons.prems(1) by (intro Cons.IH) simp_all
    have "(\<lambda>c'. if c' \<in> set cs then the (applied L s c') else (M(c := x)) c') =
        (\<lambda>c'. if c' \<in> set (c # cs) then the (applied L s c') else M c')"
      using Some Cons.prems(1) by (auto simp: fun_eq_iff)
    with applyShards_step [of M c s L cs s'] Some IH Cons.prems(2) show ?thesis by simp
  qed
qed

lemma applyShards_eq:
  assumes "distinct cs"
  shows "applyShards L cs s = Done s' \<longleftrightarrow>
    (\<forall>c \<in> set cs. applied L s c \<noteq> None) \<and> s' = s\<lparr>shardMap := applied_map L s cs\<rparr>"
proof -
  have "applied_map L s cs = (\<lambda>c. if c \<in> set cs then the (applied L s c) else shardMap s c)"
    by (simp add: applied_map_def fun_eq_iff)
  then show ?thesis using applyShards_run [OF assms, of "shardMap s" s L s'] by simp
qed

lemma applied_lastIndex [simp]: "applied L (s\<lparr>lastIndex := i\<rparr>) c = applied L s c"
  by (cases "shardMap s c") (simp_all add: applied_def)

lemma applied_map_lastIndex [simp]: "applied_map L (s\<lparr>lastIndex := i\<rparr>) cs = applied_map L s cs"
  by (simp add: applied_map_def fun_eq_iff)

text \<open>The state whose index \<open>Sync\<close> stores at the end.\<close>

definition flushed ::
  "('db, 'ix) libs \<Rightarrow> rune list \<Rightarrow> ('db, 'ix) ByStateMachine \<Rightarrow> ('db, 'ix) ByStateMachine" where
  "flushed L cs s =
    s\<lparr>lastIndex := findHighestIndexInPending s, shardMap := applied_map L s cs, pending := []\<rparr>"

lemma Sync_eq:
  assumes "distinct cs"
  shows "Sync L cs s = Done r \<longleftrightarrow>
    (\<forall>c \<in> set cs. applied L s c \<noteq> None) \<and> updateLastUpdateIndex L (flushed L cs s) = Done r"
  by (auto simp: Sync_def outcome_eqs applyShards_eq [OF assms] flushed_def)

section \<open>Neither order nor interleaving matters\<close>

lemma same_queues_refl: "same_queues s s"
  by (simp add: same_queues_def)

lemma same_queues_applied: "same_queues s t \<Longrightarrow> applied L s c = applied L t c"
  by (cases "shardMap t c") (simp_all add: same_queues_def applied_def)

lemma same_queues_flushed:
  assumes "same_queues s t" and "set cs = set cs'"
  shows "flushed L cs s = flushed L cs' t"
proof -
  have "set (pending s) = set (pending t)" using assms(1) mset_eq_setD by (auto simp: same_queues_def)
  then have "findHighestIndexInPending s = findHighestIndexInPending t"
    using assms(1) by (simp add: findHighest_Max same_queues_def)
  moreover have "applied_map L s cs = applied_map L t cs'"
    using assms(2) same_queues_applied [OF assms(1), of L] assms(1)
    by (simp add: applied_map_def fun_eq_iff) (simp add: same_queues_def)
  ultimately show ?thesis using assms(1) by (cases s; cases t) (simp add: flushed_def same_queues_def)
qed

lemma Sync_order:
  assumes "distinct cs" and "distinct cs'" and "set cs = set cs'" and "same_queues s t"
    and "Sync L cs s = Done r"
  shows "Sync L cs' t = Done r"
  using assms same_queues_applied [OF assms(4)] same_queues_flushed [OF assms(4,3)]
  by (simp add: Sync_eq)

lemma same_queues_find:
  assumes "same_queues s t" and "\<forall>e \<in> set (pending s). in_own_shard e"
  shows "findCommandInPending (pending s) c = findCommandInPending (pending t) c"
proof -
  have "set (pending s) = set (pending t)" using assms(1) mset_eq_setD by (auto simp: same_queues_def)
  with assms findCommandInPending_shard [of "pending s" c] findCommandInPending_shard [of "pending t" c]
  show ?thesis by (simp add: same_queues_def)
qed

lemma Lookup_same_queues:
  assumes "same_queues s t" and "\<forall>e \<in> set (pending s). in_own_shard e"
  shows "Lookup L s raw = Lookup L t raw"
proof -
  have shard: "getPartitionShard s p = getPartitionShard t p" for p
    using assms(1) by (simp add: getPartitionShard_def same_queues_def)
  then have inState: "LookupGetRequestInState L s c = LookupGetRequestInState L t c"
      and search: "LookupSearchRequest L s c = LookupSearchRequest L t c" for c
    by (simp_all add: LookupGetRequestInState_def LookupSearchRequest_def)
  have get: "LookupGetRequest L s c = LookupGetRequest L t c" for c
    unfolding LookupGetRequest_def same_queues_find [OF assms] inState ..
  show ?thesis unfolding Lookup_def get search ..
qed

end
