(* ===== verification/Refine.thy ===== *)
theory Refine
  imports Contract Sync
begin

text \<open>
  \<open>Update\<close> against the contract. The view of a state is what its shards hold with the queued
  commands applied to it; a batch of commands that do not meet moves the view as the contract
  says, one command after the other, and answers with the contract's codes.
\<close>

section \<open>The view of a state\<close>

definition state_content :: "('db, 'ix) libs \<Rightarrow> ('db, 'ix) ByStateMachine \<Rightarrow> content" where
  "state_content L s p =
    (case shardMap s (getFirstRune p) of None \<Rightarrow> None | Some sh \<Rightarrow> shard_content L sh p)"

definition db_view :: "('db, 'ix) libs \<Rightarrow> ('db, 'ix) ByStateMachine \<Rightarrow> content option" where
  "db_view L s = apply_queue (map ueCmd (pending s)) (state_content L s)"

text \<open>
  What holds of a queue, and of a state, after any run of the machine on batches that do not meet.
\<close>

definition queued_ok :: "json_decoder \<Rightarrow> updateEntry \<Rightarrow> bool" where
  "queued_ok js e \<longleftrightarrow> wf_command js (ueCmd e) \<and> alters (cmdType (ueCmd e)) \<and> in_own_shard e"

definition sm_inv :: "('db, 'ix) libs \<Rightarrow> ('db, 'ix) ByStateMachine \<Rightarrow> bool" where
  "sm_inv L s \<longleftrightarrow> (\<forall>e \<in> set (pending s). queued_ok (libDecode L) e) \<and>
    ueShardId ` set (pending s) \<subseteq> dom (shardMap s) \<and>
    content_ok (libDecode L) (state_content L s) \<and> db_view L s \<noteq> None"

lemma queued_okD:
  assumes "queued_ok js e"
  shows "consistent_part e" and "alters (cmdType (ueCmd e))" and "wf_command js (ueCmd e)"
    and "in_own_shard e"
  using assms by (simp_all add: queued_ok_def consistent_part_def wf_command_def)

lemma view_ok:
  assumes "sm_inv L s" and "db_view L s = Some m"
  shows "content_ok (libDecode L) m"
  using assms content_ok_queue [of "libDecode L" "state_content L s" "map ueCmd (pending s)" m]
  by (auto simp: sm_inv_def db_view_def queued_ok_def)

text \<open>The search in the queue is a search in the view.\<close>

lemma view_search:
  assumes "sm_inv L s" and "db_view L s = Some m"
  shows "sees m c = (case findCommandInPending (pending s) c of
      None \<Rightarrow> sees (state_content L s) c | Some x \<Rightarrow> left_by x)"
  using assms queued_okD by (intro queue_search) (auto simp: sm_inv_def db_view_def)

lemma find_queued:
  assumes "findCommandInPending pend c = Some x" and "\<forall>e \<in> set pend. queued_ok js e"
  shows "wf_command js x \<and> alters (cmdType x)"
  using assms last_match_Some [of "pending_matches c" pend]
  by (auto simp: findCommandInPending_def queued_ok_def)

section \<open>What an examined entry knows\<close>

definition doc_seen :: "json_decoder \<Rightarrow> content \<Rightarrow> Command \<Rightarrow> Document option" where
  "doc_seen js m c = Option.bind (snd (sees m c))
    (\<lambda>v. case js v of Inl _ \<Rightarrow> None | Inr d \<Rightarrow> Some d)"

definition knows :: "json_decoder \<Rightarrow> content \<Rightarrow> updateEntry \<Rightarrow> bool" where
  "knows js m e \<longleftrightarrow> uePartExists e = fst (sees m (ueCmd e)) \<and>
    (\<not> part_type (cmdType (ueCmd e)) \<longrightarrow> ueExistingDoc e = doc_seen js m (ueCmd e))"

lemma decide_knows:
  assumes "knows js m e" and "alters (cmdType (ueCmd e))" and "content_ok js m"
  shows "decide e = Some (spec_code js (ueCmd e) m, spec_code js (ueCmd e) m = 200)"
proof (cases "sees m (ueCmd e)")
  case (Pair x doc)
  show ?thesis
  proof (cases doc)
    case None
    with Pair assms(1,2) show ?thesis
      by (auto simp: decide_def knows_def spec_code_def doc_seen_def type_defs)
  next
    case (Some v)
    then obtain d where "js v = Inr d"
      using content_ok_seen(2) assms(3) Pair by blast
    moreover have x using Pair Some by (auto simp: sees_def split: option.splits)
    ultimately show ?thesis using Pair Some assms(1,2)
      by (auto simp: decide_def knows_def spec_code_def doc_seen_def type_defs stored_updated_def)
  qed
qed

section \<open>The two searches\<close>

lemma findExistingLoop_each:
  "findExistingLoop L db es = Inr es' \<longleftrightarrow>
    list_all2 (\<lambda>e e'. findExistingLoop L db [e] = Inr [e']) es es'"
proof (induction es arbitrary: es')
  case Nil
  then show ?case by auto
next
  case (Cons e es)
  show ?case
  proof (cases es')
    case Nil
    then show ?thesis
      by (auto simp: Let_def split: option.splits sum.splits)
  next
    case (Cons e' es'')
    with Cons.IH [of es''] show ?thesis
      by (auto simp: Let_def split: option.splits sum.splits)
  qed
qed

text \<open>An entry as \<open>Update\<close> first builds it.\<close>

definition fresh :: "updateEntry \<Rightarrow> bool" where
  "fresh e \<longleftrightarrow> ueExistingDoc e = None \<and> \<not> uePartExists e"

lemma search_knows:
  assumes "findExistingLoop L db [e] = Inr [e']" and "fresh e" and "consistent_part e"
    and "sees m (ueCmd e) = sees (content_of (libBolt L) db) (ueCmd e)"
    and "content_ok (libDecode L) m"
  shows "knows (libDecode L) m e'"
proof (cases "content_of (libBolt L) db (cmdPart (ueCmd e))")
  case None
  then have "\<not> txBucket (libBolt L) db (cmdPart (ueCmd e))" "sees m (ueCmd e) = (False, None)"
    using assms(4) by (auto simp: content_of_def sees_def split: if_splits)
  with assms(1,2) show ?thesis
    by (auto simp: knows_def doc_seen_def fresh_def Let_def split: if_splits)
next
  case (Some b)
  then have b: "txBucket (libBolt L) db (cmdPart (ueCmd e))"
      "b = bktGet (libBolt L) db (cmdPart (ueCmd e))"
    by (auto simp: content_of_def split: if_splits)
  have s: "sees m (ueCmd e) = (True, b (FullId (ueCmd e)))"
    using Some assms(4) by (simp add: sees_def)
  show ?thesis
  proof (cases "b (FullId (ueCmd e))")
    case None
    with assms(1-3) b s show ?thesis
      by (auto simp: knows_def doc_seen_def fresh_def Let_def consistent_part_def split: if_splits)
  next
    case (Some v)
    with s content_ok_seen [OF assms(5)] obtain d where "v \<noteq> []" "libDecode L v = Inr d"
      by metis
    with Some assms(1-3) b s show ?thesis
      by (auto simp: knows_def doc_seen_def fresh_def Let_def consistent_part_def split: if_splits)
  qed
qed

text \<open>A hit in the queue tells the truth unless it is a \<open>DEL\<close>: that one claims a document.\<close>

lemma attach_knows:
  assumes "findCommandInPending pend (ueCmd e) = Some x" and "fresh e"
    and "wf_command js x" and "cmdType x \<noteq> DEL" and "alters (cmdType x)"
    and "sees m (ueCmd e) = left_by x"
  shows "knows js m (attachPending pend e)"
proof (cases "carries_doc (cmdType x)")
  case True
  with assms wf_commandD(5,6) [OF assms(3)] show ?thesis
    by (auto simp: knows_def attachPending_def doc_seen_def left_by_def type_defs fresh_def)
next
  case False
  with assms show ?thesis
    by (auto simp: knows_def attachPending_def doc_seen_def left_by_def type_defs fresh_def)
qed

lemma attach_document:
  assumes "findCommandInPending pend (ueCmd e) = Some x" and "\<not> part_type (cmdType x)"
    and "wf_command js x"
  shows "ueExistingDoc (attachPending pend e) \<noteq> None"
  using assms wf_commandD(6) [OF assms(3)] by (simp add: attachPending_def type_defs)

section \<open>Batches that do not meet\<close>

text \<open>
  Inside the part of a batch that falls to one shard: either the queue knows every entry, and the
  shard is not searched, or what it knows of any is a document. Otherwise the search in the shard
  overrules the queue on whether a partition exists.
\<close>

definition one_search :: "updateEntry list \<Rightarrow> Command list \<Rightarrow> bool" where
  "one_search pend cs \<longleftrightarrow>
    list_all (\<lambda>c. findCommandInPending pend c \<noteq> None) cs \<or>
    list_all (\<lambda>c. case findCommandInPending pend c of
      None \<Rightarrow> True | Some x \<Rightarrow> \<not> part_type (cmdType x)) cs"

definition none_deleted :: "updateEntry list \<Rightarrow> Command list \<Rightarrow> bool" where
  "none_deleted pend cs \<longleftrightarrow> list_all (\<lambda>c. case findCommandInPending pend c of
      None \<Rightarrow> True | Some x \<Rightarrow> cmdType x \<noteq> DEL) cs"

lemma list_all2_map_self: "list_all2 P (map f xs) ys \<longleftrightarrow> list_all2 (\<lambda>x. P (f x)) xs ys"
  by (simp add: list_all2_map1)

lemma examined_each:
  assumes "examined L shard pend es = Inr es'" and "\<forall>e \<in> set pend. queued_ok js e"
    and "one_search pend (map ueCmd es)"
  shows "list_all2 (\<lambda>e e'. e' = attachPending pend e \<and> findCommandInPending pend (ueCmd e) \<noteq> None \<or>
    findExistingLoop L (shBlock shard) [e] = Inr [e'] \<and> findCommandInPending pend (ueCmd e) = None) es es'"
proof (cases "stateSearchDocs pend es = 0")
  case True
  then have "\<forall>e \<in> set es. findCommandInPending pend (ueCmd e) \<noteq> None"
    by (simp add: stateSearchDocs_def filter_empty_conv)
  with True assms(1) show ?thesis
    by (auto simp: examined_def list_all2_map2 list_all2_same)
next
  case False
  then have "\<not> (\<forall>e \<in> set es. findCommandInPending pend (ueCmd e) \<noteq> None)"
    by (simp add: stateSearchDocs_def filter_empty_conv)
  with assms(3) have parts: "\<forall>e \<in> set es. \<forall>x. findCommandInPending pend (ueCmd e) = Some x \<longrightarrow>
      \<not> part_type (cmdType x)"
    by (auto simp: one_search_def list_all_iff split: option.splits)
  have "findExistingLoop L (shBlock shard) (map (attachPending pend) es) = Inr es'"
    using False assms(1)
    by (auto simp: examined_def FindExistingDocumentsForUpdates_def boltView_def Let_def
        split: option.splits)
  then have each: "list_all2 (\<lambda>e e'. findExistingLoop L (shBlock shard) [attachPending pend e] = Inr [e']) es es'"
    by (simp only: findExistingLoop_each [of L "shBlock shard" "map (attachPending pend) es"]
        list_all2_map_self)
  have one: "e' = attachPending pend e \<and> findCommandInPending pend (ueCmd e) \<noteq> None \<or>
    findExistingLoop L (shBlock shard) [e] = Inr [e'] \<and> findCommandInPending pend (ueCmd e) = None"
    if "e \<in> set es" and f: "findExistingLoop L (shBlock shard) [attachPending pend e] = Inr [e']" for e e'
  proof (cases "findCommandInPending pend (ueCmd e)")
    case None
    with f show ?thesis by (simp add: attachPending_def)
  next
    case (Some x)
    then have "ueExistingDoc (attachPending pend e) \<noteq> None"
      using parts that(1) find_queued [OF Some assms(2)] attach_document [OF Some] by blast
    with f Some show ?thesis by (auto simp: Let_def)
  qed
  show ?thesis by (rule list.rel_mono_strong [OF each]) (use one in blast)
qed

text \<open>Every examined entry of a shard knows the view.\<close>

lemma examined_knows:
  assumes "sm_inv L s" and "db_view L s = Some m" and "shardMap s c = Some shard"
    and "examined L shard (pending s) es = Inr es'"
    and "\<forall>e \<in> set es. fresh e \<and> consistent_part e \<and> getFirstRune (cmdPart (ueCmd e)) = c"
    and "one_search (pending s) (map ueCmd es)" and "none_deleted (pending s) (map ueCmd es)"
  shows "\<forall>e' \<in> set es'. knows (libDecode L) m e'"
proof -
  have q: "\<forall>e \<in> set (pending s). queued_ok (libDecode L) e" using assms(1) by (simp add: sm_inv_def)
  note each = examined_each [OF assms(4) q assms(6)]
  have knows: "knows (libDecode L) m e'"
    if e: "e \<in> set es" and one: "e' = attachPending (pending s) e \<and>
        findCommandInPending (pending s) (ueCmd e) \<noteq> None \<or>
      findExistingLoop L (shBlock shard) [e] = Inr [e'] \<and>
        findCommandInPending (pending s) (ueCmd e) = None" for e e'
  proof (cases "findCommandInPending (pending s) (ueCmd e)")
    case None
    have "sees m (ueCmd e) = sees (state_content L s) (ueCmd e)"
      using view_search [OF assms(1,2), of "ueCmd e"] None by simp
    also have "\<dots> = sees (content_of (libBolt L) (shBlock shard)) (ueCmd e)"
      using assms(3,5) e by (simp add: sees_def state_content_def shard_content_def)
    finally have seen: "sees m (ueCmd e) = sees (content_of (libBolt L) (shBlock shard)) (ueCmd e)" .
    show ?thesis
      using None one e assms(5) by (intro search_knows [OF _ _ _ seen view_ok [OF assms(1,2)]]) auto
  next
    case (Some x)
    then have "cmdType x \<noteq> DEL" using assms(7) e by (auto simp: none_deleted_def list_all_iff)
    moreover have "sees m (ueCmd e) = left_by x"
      using view_search [OF assms(1,2), of "ueCmd e"] Some by simp
    moreover have "fresh e" using e assms(5) by blast
    ultimately have "knows (libDecode L) m (attachPending (pending s) e)"
      using find_queued [OF Some q] attach_knows [OF Some] by blast
    with one Some show ?thesis by simp
  qed
  have "list_all2 (\<lambda>e e'. knows (libDecode L) m e') es es'"
    by (rule list.rel_mono_strong [OF each knows])
  then show ?thesis by (auto simp: list_all2_conv_all_nth in_set_conv_nth)
qed

section \<open>The accepted commands carry out the contract\<close>

lemma knows_unrelated:
  assumes "knows js m e" and "sees m' (ueCmd e) = sees m (ueCmd e)"
  shows "knows js m' e"
  using assms by (simp add: knows_def doc_seen_def)

lemma accepted_run:
  assumes "\<forall>d \<in> set ds. knows js m d \<and> alters (cmdType (ueCmd d)) \<and> wf_command js (ueCmd d)"
    and "sorted_wrt unrelated (map ueCmd ds)" and "content_ok js m"
  shows "apply_queue (map ueCmd (accepted ds)) m = Some (snd (spec_run js (map ueCmd ds) m))"
  using assms
proof (induction ds arbitrary: m)
  case Nil
  then show ?case by (simp add: accepted_def)
next
  case (Cons d ds)
  let ?m = "spec_effect js (ueCmd d) m"
  have dec: "decide d = Some (spec_code js (ueCmd d) m, spec_code js (ueCmd d) m = 200)"
    using Cons.prems by (intro decide_knows) auto
  have rest: "\<forall>d \<in> set ds. knows js ?m d \<and> alters (cmdType (ueCmd d)) \<and> wf_command js (ueCmd d)"
  proof
    fix d' assume d': "d' \<in> set ds"
    then have "unrelated (ueCmd d') (ueCmd d)" "alters (cmdType (ueCmd d))"
      using Cons.prems(1,2) unrelated_sym [of "ueCmd d" "ueCmd d'"] by simp_all
    then have "sees ?m (ueCmd d') = sees m (ueCmd d')" by (intro unrelated_effect_sees)
    with d' Cons.prems(1) show "knows js ?m d' \<and> alters (cmdType (ueCmd d')) \<and> wf_command js (ueCmd d')"
      using knows_unrelated [of js m d' ?m] by simp
  qed
  show ?case
  proof (cases "spec_code js (ueCmd d) m = 200")
    case True
    then have "apply_strict (ueCmd d) m = Some ?m"
      using spec_accepted Cons.prems(1) by auto
    moreover have "content_ok js ?m"
      using calculation content_ok_apply apply_strict_weak Cons.prems(1,3) by (meson list.set_intros(1))
    ultimately show ?thesis
      using Cons.IH [OF rest] Cons.prems(2) True dec by (simp add: accepted_def split_beta)
  next
    case False
    then have "?m = m" by (simp add: spec_effect_def)
    with Cons.IH [OF rest] Cons.prems(2,3) False dec show ?thesis
      by (simp add: accepted_def split_beta)
  qed
qed

section \<open>A whole batch\<close>

definition part_rune :: "Command \<Rightarrow> rune" where
  "part_rune c = getFirstRune (cmdPart c)"

text \<open>
  A batch whose commands alter the database, fall to shards that exist, and find the queue in a
  state that the searches read correctly. It is safe if no two of its commands meet.
\<close>

definition batch_seen :: "('db, 'ix) ByStateMachine \<Rightarrow> Command list \<Rightarrow> bool" where
  "batch_seen s cs \<longleftrightarrow>
    list_all (\<lambda>c. alters (cmdType c) \<and> shardMap s (part_rune c) \<noteq> None) cs \<and>
    list_all (\<lambda>c. one_search (pending s) (filter (\<lambda>d. part_rune d = part_rune c) cs)) cs \<and>
    none_deleted (pending s) cs"

definition batch_safe :: "('db, 'ix) ByStateMachine \<Rightarrow> Command list \<Rightarrow> bool" where
  "batch_safe s cs \<longleftrightarrow> batch_seen s cs \<and> sorted_wrt unrelated cs"

lemma map_ueCmd_own:
  "\<forall>e \<in> set es. in_own_shard e \<Longrightarrow>
    map ueCmd (entries_of c es) = filter (\<lambda>x. part_rune x = c) (map ueCmd es)"
  by (simp add: map_ueCmd_entries_of part_rune_def)

lemma accepted_concat: "accepted (concat dss) = concat (map accepted dss)"
  by (induction dss) (simp_all add: accepted_def)

lemma decided_cmds:
  assumes "shard_entries L s es c = Inr ds" and "shardMap s c \<noteq> None"
  shows "map ueCmd ds = map ueCmd (entries_of c es)"
proof -
  have "map ueCmd ds = map ueCmd (entries_of c es)"
    if "examined L shard (pending s) (entries_of c es) = Inr ds" for shard
    using arg_cong [OF examined_fields [OF that], of "map (fst \<circ> snd)"] by (simp add: comp_def)
  with assms show ?thesis by (auto simp: shard_entries_def split: if_splits)
qed

lemma decided_knows:
  assumes "sm_inv L s" and "db_view L s = Some m" and "shard_entries L s es c = Inr ds"
    and "\<forall>e \<in> set es. fresh e \<and> consistent_part e \<and> in_own_shard e"
    and "batch_seen s (map ueCmd es)"
  shows "\<forall>d \<in> set ds. knows (libDecode L) m d"
proof (cases "shardMap s c = None \<or> entries_of c es = []")
  case True
  with assms(3) show ?thesis by (auto simp: shard_entries_def split: option.splits if_splits)
next
  case False
  then obtain shard where sh: "shardMap s c = Some shard" "entries_of c es \<noteq> []" by auto
  with assms(3) have ex: "examined L shard (pending s) (entries_of c es) = Inr ds"
    by (simp add: shard_entries_def)
  from sh(2) obtain e where "e \<in> set es" "ueShardId e = c"
    using set_entries_of [of c es] by (metis (mono_tags, lifting) ex_in_conv mem_Collect_eq set_empty)
  then have "ueCmd e \<in> set (map ueCmd es)" "part_rune (ueCmd e) = c"
    using assms(4) by (auto simp: in_own_shard_def part_rune_def)
  then have one: "one_search (pending s) (map ueCmd (entries_of c es))"
    using assms(4,5) map_ueCmd_own [of es c] by (auto simp: batch_seen_def list_all_iff)
  have none: "none_deleted (pending s) (map ueCmd (entries_of c es))"
    using assms(5) by (auto simp: batch_seen_def none_deleted_def list_all_iff)
  show ?thesis
    using assms(4) by (intro examined_knows [OF assms(1,2) sh(1) ex _ one none])
      (auto simp: in_own_shard_def)
qed

text \<open>The decided entries of all shards, and what they amount to.\<close>

definition all_decided ::
  "('db, 'ix) libs \<Rightarrow> ('db, 'ix) ByStateMachine \<Rightarrow> updateEntry list \<Rightarrow> rune list \<Rightarrow> updateEntry list" where
  "all_decided L s es cs = concat (map (decided L s es) cs)"

lemma all_decided_cmds:
  assumes "\<forall>c \<in> set cs. \<exists>ds. shard_entries L s es c = Inr ds"
    and "\<forall>c \<in> set cs. shardMap s c \<noteq> None" and "\<forall>e \<in> set es. in_own_shard e"
  shows "map ueCmd (all_decided L s es cs) =
    concat (map (\<lambda>c. filter (\<lambda>x. part_rune x = c) (map ueCmd es)) cs)"
proof -
  have each: "map ueCmd (decided L s es c) = filter (\<lambda>x. part_rune x = c) (map ueCmd es)"
    if "c \<in> set cs" for c
  proof -
    from bspec [OF assms(1) that] obtain ds where ds: "shard_entries L s es c = Inr ds" ..
    have "map ueCmd ds = map ueCmd (entries_of c es)"
      by (rule decided_cmds [OF ds]) (use that assms(2) in blast)
    with map_ueCmd_own [OF assms(3)] decided_Inr [OF ds] show ?thesis by simp
  qed
  have "map (\<lambda>c. map ueCmd (decided L s es c)) cs =
      map (\<lambda>c. filter (\<lambda>x. part_rune x = c) (map ueCmd es)) cs"
    by (rule map_cong [OF refl]) (rule each)
  then show ?thesis unfolding all_decided_def map_concat map_map comp_def by (simp only:)
qed

lemma part_rune_unrelated: "part_rune c \<noteq> part_rune d \<Longrightarrow> unrelated c d"
  by (auto simp: unrelated_def part_rune_def)

lemma spec_run_grouped:
  assumes "\<forall>c \<in> set xs. alters (cmdType c)" and "distinct cs" and "part_rune ` set xs \<subseteq> set cs"
  shows "snd (spec_run js (concat (map (\<lambda>c. filter (\<lambda>x. part_rune x = c) xs) cs)) m) =
    snd (spec_run js xs m)"
proof -
  have "spec_effect js x (spec_effect js y z) = spec_effect js y (spec_effect js x z)"
    if "x \<in> set xs" "y \<in> set xs" "part_rune x \<noteq> part_rune y" for x y z
    using that assms(1) by (intro spec_effect_commute) (auto simp: part_rune_def)
  then show ?thesis
    unfolding snd_spec_run using fold_grouped [of xs part_rune "spec_effect js" cs] assms(2,3) by simp
qed

text \<open>The answers, entry by entry.\<close>

lemma answer_other:
  "ueEntry d \<noteq> Some i \<Longrightarrow> answer d ups ! i = ups ! i"
  by (auto simp: answer_def setResult_def split: option.split)

lemma length_answer [simp]: "length (answer d ups) = length ups"
  by (auto simp: answer_def setResult_def split: option.split)

lemma length_fold_answer [simp]: "length (fold answer ds ups) = length ups"
  by (induction ds arbitrary: ups) simp_all

lemma fold_answer_other:
  "\<forall>d \<in> set ds. ueEntry d \<noteq> Some i \<Longrightarrow> fold answer ds ups ! i = ups ! i"
  by (induction ds arbitrary: ups) (simp_all add: answer_other)

lemma fold_answer_nth:
  assumes "distinct (map ueEntry ds)" and "d \<in> set ds" and "ueEntry d = Some i"
    and "decide d = Some (v, a)" and "i < length ups"
  shows "enValue (fold answer ds ups ! i) = v"
  using assms
proof (induction ds arbitrary: ups)
  case Nil
  then show ?case by simp
next
  case (Cons x ds)
  show ?case
  proof (cases "x = d")
    case True
    have "\<forall>y \<in> set ds. ueEntry y \<noteq> Some i"
      using Cons.prems(1,3) True by (metis list.simps(9) distinct.simps(2) imageI list.set_map)
    then have "fold answer (x # ds) ups ! i = answer x ups ! i" by (simp add: fold_answer_other)
    also have "answer x ups ! i = (ups ! i)\<lparr>enValue := v\<rparr>"
      using True Cons.prems(3-5) by (simp add: answer_def setResult_def)
    finally show ?thesis by simp
  next
    case False
    with Cons show ?thesis by simp
  qed
qed

text \<open>
  The loop over the shards, on a safe batch that the loop gets through. First what every decided
  entry is, then the answers, then the view.
\<close>

definition safe_loop ::
  "('db, 'ix) libs \<Rightarrow> ('db, 'ix) ByStateMachine \<Rightarrow> content \<Rightarrow> rune list \<Rightarrow> updateEntry list \<Rightarrow> bool"
where
  "safe_loop L s m cs es \<longleftrightarrow> sm_inv L s \<and> db_view L s = Some m \<and> distinct cs \<and>
    set cs = dom (shardMap s) \<and>
    (\<forall>e \<in> set es. fresh e \<and> in_own_shard e \<and> wf_command (libDecode L) (ueCmd e)) \<and>
    batch_seen s (map ueCmd es) \<and> (\<forall>c \<in> set cs. \<exists>ds. shard_entries L s es c = Inr ds)"

lemma all_decided_source:
  assumes "\<forall>c \<in> set cs. \<exists>ds. shard_entries L s es c = Inr ds" and "d \<in> set (all_decided L s es cs)"
  shows "\<exists>e \<in> set es. ueEntry e = ueEntry d \<and> ueCmd e = ueCmd d \<and> ueIndex e = ueIndex d \<and>
    ueShardId e = ueShardId d"
proof -
  from assms(2) obtain c where c: "c \<in> set cs" "d \<in> set (decided L s es c)"
    by (auto simp: all_decided_def)
  from bspec [OF assms(1) c(1)] obtain ds where ds: "shard_entries L s es c = Inr ds" ..
  with c(2) have "d \<in> set ds" by (simp add: decided_Inr)
  from shard_entries_set(1) [OF ds this] show ?thesis by blast
qed

lemma safe_loop_decided:
  assumes "safe_loop L s m cs es" and "d \<in> set (all_decided L s es cs)"
  shows "knows (libDecode L) m d" and "alters (cmdType (ueCmd d))"
    and "wf_command (libDecode L) (ueCmd d)" and "in_own_shard d"
    and "decide d = Some (spec_code (libDecode L) (ueCmd d) m, spec_code (libDecode L) (ueCmd d) m = 200)"
proof -
  have inv: "sm_inv L s" "db_view L s = Some m" and safe: "batch_seen s (map ueCmd es)"
    and ok: "\<forall>c \<in> set cs. \<exists>ds. shard_entries L s es c = Inr ds"
    and wf: "\<forall>e \<in> set es. fresh e \<and> in_own_shard e \<and> wf_command (libDecode L) (ueCmd e)"
    using assms(1) by (simp_all add: safe_loop_def)
  obtain e where e: "e \<in> set es" "ueCmd e = ueCmd d" "ueShardId e = ueShardId d"
    using all_decided_source [OF ok assms(2)] by blast
  with wf safe show alt: "alters (cmdType (ueCmd d))" and "wf_command (libDecode L) (ueCmd d)"
      and "in_own_shard d"
    by (auto simp: batch_seen_def list_all_iff in_own_shard_def)
  from assms(2) obtain c where c: "c \<in> set cs" "d \<in> set (decided L s es c)"
    by (auto simp: all_decided_def)
  from bspec [OF ok c(1)] obtain ds where ds: "shard_entries L s es c = Inr ds" ..
  have "\<forall>e \<in> set es. fresh e \<and> consistent_part e \<and> in_own_shard e"
    using wf by (simp add: consistent_part_def wf_command_def)
  from decided_knows [OF inv ds this safe] show k: "knows (libDecode L) m d"
    using c(2) decided_Inr [OF ds] by simp
  show "decide d = Some (spec_code (libDecode L) (ueCmd d) m, spec_code (libDecode L) (ueCmd d) m = 200)"
    by (rule decide_knows [OF k alt view_ok [OF inv]])
qed

lemma safe_loop_runes:
  assumes "safe_loop L s m cs es"
  shows "\<forall>c \<in> set (map ueCmd es). alters (cmdType c)" and "part_rune ` set (map ueCmd es) \<subseteq> set cs"
    and "map ueCmd (all_decided L s es cs) =
      concat (map (\<lambda>c. filter (\<lambda>x. part_rune x = c) (map ueCmd es)) cs)"
    and "sorted_wrt unrelated (map ueCmd es) \<Longrightarrow>
      sorted_wrt unrelated (map ueCmd (all_decided L s es cs))"
proof -
  show "\<forall>c \<in> set (map ueCmd es). alters (cmdType c)" and "part_rune ` set (map ueCmd es) \<subseteq> set cs"
    using assms by (auto simp: safe_loop_def batch_seen_def list_all_iff)
  show cmds: "map ueCmd (all_decided L s es cs) =
      concat (map (\<lambda>c. filter (\<lambda>x. part_rune x = c) (map ueCmd es)) cs)"
    using assms by (intro all_decided_cmds) (auto simp: safe_loop_def)
  show "sorted_wrt unrelated (map ueCmd es) \<Longrightarrow>
      sorted_wrt unrelated (map ueCmd (all_decided L s es cs))"
    unfolding cmds using assms part_rune_unrelated
    by (intro sorted_wrt_grouped) (auto simp: safe_loop_def batch_seen_def)
qed

lemma safe_loop_run:
  assumes "safe_loop L s m cs es" and "sorted_wrt unrelated (map ueCmd es)"
  shows "apply_queue (map ueCmd (accepted (all_decided L s es cs))) m =
    Some (snd (spec_run (libDecode L) (map ueCmd es) m))"
proof -
  have "content_ok (libDecode L) m" using assms(1) view_ok by (auto simp: safe_loop_def)
  then have "apply_queue (map ueCmd (accepted (all_decided L s es cs))) m =
      Some (snd (spec_run (libDecode L) (map ueCmd (all_decided L s es cs)) m))"
    using safe_loop_decided [OF assms(1)] safe_loop_runes(4) [OF assms] by (intro accepted_run) auto
  also have "snd (spec_run (libDecode L) (map ueCmd (all_decided L s es cs)) m) =
      snd (spec_run (libDecode L) (map ueCmd es) m)"
    unfolding safe_loop_runes(3) [OF assms(1)]
    using assms(1) safe_loop_runes(1,2) [OF assms(1)] by (intro spec_run_grouped) (auto simp: safe_loop_def)
  finally show ?thesis .
qed

text \<open>Every entry of the batch is decided, under its own number.\<close>

lemma safe_loop_entry:
  assumes "safe_loop L s m cs es" and "e \<in> set es" and "distinct (map ueEntry es)"
  shows "\<exists>d \<in> set (all_decided L s es cs). ueEntry d = ueEntry e \<and> ueCmd d = ueCmd e \<and> ueIndex d = ueIndex e"
proof -
  have ok: "\<forall>c \<in> set cs. \<exists>ds. shard_entries L s es c = Inr ds"
    and own: "in_own_shard e" and dom: "set cs = dom (shardMap s)"
    using assms(1,2) by (simp_all add: safe_loop_def)
  have c: "ueShardId e \<in> set cs"
    using safe_loop_runes(2) [OF assms(1)] assms(2) own
    by (auto simp: image_subset_iff in_own_shard_def part_rune_def)
  from bspec [OF ok c] obtain ds where ds: "shard_entries L s es (ueShardId e) = Inr ds" ..
  have "ueEntry e \<in> set (map ueEntry (entries_of (ueShardId e) es))" using assms(2) by simp
  then have "ueEntry e \<in> set (map ueEntry ds)"
    using decided_entries [OF ds] c dom by auto
  then obtain d where d: "d \<in> set ds" "ueEntry d = ueEntry e" by auto
  then have all: "d \<in> set (all_decided L s es cs)"
    using c decided_Inr [OF ds] by (auto simp: all_decided_def)
  from all_decided_source [OF ok all] obtain e' where
      e': "e' \<in> set es" "ueEntry e' = ueEntry d" "ueCmd e' = ueCmd d" "ueIndex e' = ueIndex d" by blast
  have "inj_on ueEntry (set es)" using assms(3) by (simp add: distinct_map)
  with e' d(2) assms(2) have "e' = e" by (simp add: inj_on_eq_iff)
  with all d e'(3,4) show ?thesis by auto
qed

lemma safe_loop_answers:
  assumes "safe_loop L s m cs es" and "map ueEntry es = map Some [0..<length ups]"
  shows "map enValue (fold answer (all_decided L s es cs) ups) =
    map (\<lambda>c. spec_code (libDecode L) c m) (map ueCmd es)"
proof (rule nth_equalityI)
  have len: "length es = length ups" using arg_cong [OF assms(2), of length] by simp
  have dist: "distinct (map ueEntry es)" unfolding assms(2) by (simp add: distinct_map)
  show "length (map enValue (fold answer (all_decided L s es cs) ups)) =
      length (map (\<lambda>c. spec_code (libDecode L) c m) (map ueCmd es))"
    by (simp add: len)
  fix i assume "i < length (map enValue (fold answer (all_decided L s es cs) ups))"
  then have i: "i < length ups" by simp
  have "ueEntry (es ! i) = Some i"
    using arg_cong [OF assms(2), of "\<lambda>xs. xs ! i"] i len by simp
  then obtain d where d: "d \<in> set (all_decided L s es cs)" "ueEntry d = Some i" "ueCmd d = ueCmd (es ! i)"
    using safe_loop_entry [OF assms(1) nth_mem dist] i len by metis
  have "distinct (map ueEntry (all_decided L s es cs))"
    unfolding all_decided_def using assms(1) dist by (intro decided_distinct) (auto simp: safe_loop_def)
  then show "map enValue (fold answer (all_decided L s es cs) ups) ! i =
      map (\<lambda>c. spec_code (libDecode L) c m) (map ueCmd es) ! i"
    using fold_answer_nth [OF _ d(1,2) safe_loop_decided(5) [OF assms(1) d(1)]] i len d(3)
    by simp
qed

lemma safe_loop_codes:
  assumes "safe_loop L s m cs es" and "sorted_wrt unrelated (map ueCmd es)"
  shows "fst (spec_run (libDecode L) (map ueCmd es) m) =
    map (\<lambda>c. spec_code (libDecode L) c m) (map ueCmd es)"
  using safe_loop_runes(1) [OF assms(1)] assms(2) by (intro spec_run_unrelated)

text \<open>Which entries are queued.\<close>

lemma safe_loop_queue:
  assumes "safe_loop L s m cs es"
  shows "map ueCmd (accepted (all_decided L s es cs)) =
    concat (map (\<lambda>c. filter (\<lambda>x. part_rune x = c \<and> spec_code (libDecode L) x m = 200) (map ueCmd es)) cs)"
proof -
  let ?ok = "\<lambda>c. spec_code (libDecode L) c m = 200"
  have "accepted ds = map (\<lambda>e. e\<lparr>ueEntry := None\<rparr>) (filter (\<lambda>d. ?ok (ueCmd d)) ds)"
    if "set ds \<subseteq> set (all_decided L s es cs)" for ds
  proof -
    have "(case decide d of Some (_, ok) \<Rightarrow> ok | None \<Rightarrow> False) = ?ok (ueCmd d)" if "d \<in> set ds" for d
      using safe_loop_decided(5) [OF assms, of d] that \<open>set ds \<subseteq> _\<close> by auto
    then show ?thesis unfolding accepted_def by (simp cong: filter_cong)
  qed
  then have "map ueCmd (accepted (all_decided L s es cs)) =
      filter ?ok (map ueCmd (all_decided L s es cs))"
    by (simp add: filter_map comp_def)
  also have "\<dots> = concat (map (\<lambda>c. filter (\<lambda>x. part_rune x = c \<and> ?ok x) (map ueCmd es)) cs)"
    unfolding safe_loop_runes(3) [OF assms] filter_concat map_map comp_def filter_filter ..
  finally show ?thesis .
qed

lemma updateShards_queued_ok:
  assumes "safe_loop L s m cs es" and "e \<in> set (accepted (all_decided L s es cs))"
  shows "queued_ok (libDecode L) e" and "ueShardId e \<in> dom (shardMap s)"
proof -
  from accepted_set [OF assms(2)] obtain d where
    d: "d \<in> set (all_decided L s es cs)" "e = d\<lparr>ueEntry := None\<rparr>" by blast
  note dec = safe_loop_decided(2-4) [OF assms(1) d(1)]
  with d(2) show "queued_ok (libDecode L) e" by (simp add: queued_ok_def in_own_shard_def)
  have "ueShardId e = part_rune (ueCmd d)" using dec(3) d(2) by (simp add: in_own_shard_def part_rune_def)
  moreover have "ueCmd d \<in> set (map ueCmd es)"
    using all_decided_source [OF _ d(1)] assms(1) by (auto simp: safe_loop_def) (metis imageI)
  ultimately show "ueShardId e \<in> dom (shardMap s)"
    using safe_loop_runes(2) [OF assms(1)] assms(1) by (auto simp: safe_loop_def)
qed

lemma updateShards_seen:
  assumes "safe_loop L s m cs es" and "map ueEntry es = map Some [0..<length ups]"
    and "updateShards L cs es s ups = (s', ups', None)"
  shows "s' = s\<lparr>pending := pending s @ accepted (all_decided L s es cs)\<rparr>"
    and "map enValue ups' = map (\<lambda>c. spec_code (libDecode L) c m) (map ueCmd es)"
proof -
  have dist: "distinct cs" and own: "\<forall>e \<in> set es. in_own_shard e" "\<forall>e \<in> set (pending s). in_own_shard e"
    using assms(1) queued_okD(4) by (auto simp: safe_loop_def sm_inv_def)
  have s': "s' = s\<lparr>pending := pending s @ accepted (all_decided L s es cs)\<rparr>"
    and ups': "ups' = fold answer (all_decided L s es cs) ups"
    using updateShards_run_self [OF dist own, of L ups s' ups'] assms(3)
    by (simp_all add: all_decided_def accepted_concat comp_def)
  from s' show "s' = s\<lparr>pending := pending s @ accepted (all_decided L s es cs)\<rparr>" .
  from safe_loop_answers [OF assms(1,2)] ups'
  show "map enValue ups' = map (\<lambda>c. spec_code (libDecode L) c m) (map ueCmd es)" by simp
qed

lemma updateShards_refines:
  assumes "safe_loop L s m cs es" and "map ueEntry es = map Some [0..<length ups]"
    and "updateShards L cs es s ups = (s', ups', None)" and "sorted_wrt unrelated (map ueCmd es)"
  shows "db_view L s' = Some (snd (spec_run (libDecode L) (map ueCmd es) m))"
    and "map enValue ups' = fst (spec_run (libDecode L) (map ueCmd es) m)"
    and "sm_inv L s'" and "dom (shardMap s') = dom (shardMap s)"
proof -
  have inv: "sm_inv L s" "db_view L s = Some m" using assms(1) by (simp_all add: safe_loop_def)
  note run = updateShards_seen [OF assms(1-3)]
  have state: "state_content L s' = state_content L s" by (simp add: run(1) state_content_def fun_eq_iff)
  then show view: "db_view L s' = Some (snd (spec_run (libDecode L) (map ueCmd es) m))"
    using safe_loop_run [OF assms(1,4)] inv(2) by (simp add: db_view_def run(1) apply_queue_append)
  from updateShards_queued_ok [OF assms(1)] inv(1) view state show "sm_inv L s'"
    by (auto simp: sm_inv_def run(1) subset_iff)
  show "map enValue ups' = fst (spec_run (libDecode L) (map ueCmd es) m)"
    using run(2) safe_loop_codes [OF assms(1,4)] by simp
  show "dom (shardMap s') = dom (shardMap s)" by (simp add: run(1))
qed

section \<open>Update\<close>

text \<open>The entries of a batch whose texts all parse.\<close>

lemma parse_batch:
  assumes "map (\<lambda>en. ParseCommand js (enCmd en)) ups = map Inr cmds"
  shows "\<exists>es. parseEntries js i ups = Done es \<and> map ueCmd es = cmds \<and>
    map ueEntry es = map Some [i..<i + length ups] \<and> map ueIndex es = map enIndex ups \<and>
    (\<forall>e \<in> set es. fresh e \<and> in_own_shard e \<and> wf_command js (ueCmd e))"
  using assms
proof (induction ups arbitrary: i cmds)
  case Nil
  then show ?case by simp
next
  case (Cons en ups)
  then obtain c cs where c: "cmds = c # cs" "ParseCommand js (enCmd en) = Inr c"
      "map (\<lambda>en. ParseCommand js (enCmd en)) ups = map Inr cs"
    by (cases cmds) auto
  from Cons.IH [OF c(3)] obtain es where es: "parseEntries js (Suc i) ups = Done es" "map ueCmd es = cs"
      "map ueEntry es = map Some [Suc i..<Suc i + length ups]" "map ueIndex es = map enIndex ups"
      "\<forall>e \<in> set es. fresh e \<and> in_own_shard e \<and> wf_command js (ueCmd e)"
    by blast
  have "wf_command js c" using c(2) wire_wf by (auto simp: ParseCommand_iff_wire)
  with c es show ?case
    by (auto simp: fresh_def in_own_shard_def upt_conv_Cons simp del: upt_Suc)
qed

lemma Update_parsed:
  assumes "map (\<lambda>en. ParseCommand (libDecode L) (enCmd en)) ups = map Inr cmds"
  obtains es where "map ueCmd es = cmds" and "map ueEntry es = map Some [0..<length ups]"
    and "map ueIndex es = map enIndex ups"
    and "\<forall>e \<in> set es. fresh e \<and> in_own_shard e \<and> wf_command (libDecode L) (ueCmd e)"
    and "Update L cs s ups = Done (updateShards L cs es s ups)"
  using parse_batch [OF assms, of 0] by (auto simp: Update_def)

lemma Update_safe_loop:
  assumes "sm_inv L s" and "db_view L s = Some m" and "distinct cs" and "set cs = dom (shardMap s)"
    and "map (\<lambda>en. ParseCommand (libDecode L) (enCmd en)) ups = map Inr cmds"
    and "batch_seen s cmds" and "Update L cs s ups = Done (s', ups', None)"
  obtains es where "safe_loop L s m cs es" and "map ueCmd es = cmds"
    and "map ueEntry es = map Some [0..<length ups]" and "map ueIndex es = map enIndex ups"
    and "updateShards L cs es s ups = (s', ups', None)"
proof -
  obtain es where es: "map ueCmd es = cmds" "map ueEntry es = map Some [0..<length ups]"
      "map ueIndex es = map enIndex ups"
      "\<forall>e \<in> set es. fresh e \<and> in_own_shard e \<and> wf_command (libDecode L) (ueCmd e)"
      "Update L cs s ups = Done (updateShards L cs es s ups)"
    using Update_parsed [OF assms(5)] by metis
  then have run: "updateShards L cs es s ups = (s', ups', None)" using assms(7) by simp
  have "\<forall>e \<in> set es. in_own_shard e" "\<forall>e \<in> set (pending s). in_own_shard e"
    using es(4) assms(1) queued_okD(4) by (auto simp: sm_inv_def)
  then have "\<forall>c \<in> set cs. \<exists>ds. shard_entries L s es c = Inr ds"
    using updateShards_run_self [OF assms(3), of es s L ups s' ups'] run by blast
  then have "safe_loop L s m cs es"
    using assms(1-4,6) es by (simp add: safe_loop_def)
  with es run that show thesis by blast
qed

lemma Update_refines_contract:
  assumes "sm_inv L s" and "db_view L s = Some m" and "distinct cs" and "set cs = dom (shardMap s)"
    and "map (\<lambda>en. ParseCommand (libDecode L) (enCmd en)) ups = map Inr cmds"
    and "batch_safe s cmds" and "Update L cs s ups = Done (s', ups', None)"
  shows "map enValue ups' = fst (spec_run (libDecode L) cmds m)"
    and "db_view L s' = Some (snd (spec_run (libDecode L) cmds m))"
    and "sm_inv L s'" and "dom (shardMap s') = dom (shardMap s)"
proof -
  have safe: "batch_seen s cmds" "sorted_wrt unrelated cmds"
    using assms(6) by (simp_all add: batch_safe_def)
  obtain es where es: "safe_loop L s m cs es" "map ueCmd es = cmds"
      "map ueEntry es = map Some [0..<length ups]" "updateShards L cs es s ups = (s', ups', None)"
    using Update_safe_loop [OF assms(1-5) safe(1) assms(7)] by metis
  from updateShards_refines [OF es(1,3,4)] es(2) safe(2)
  show "map enValue ups' = fst (spec_run (libDecode L) cmds m)"
    and "db_view L s' = Some (snd (spec_run (libDecode L) cmds m))"
    and "sm_inv L s'" and "dom (shardMap s') = dom (shardMap s)"
    by simp_all
qed

text \<open>
  Without the condition that no two commands meet: the decisions are those of the contract on the
  view before the batch, for each command alone.
\<close>

lemma Update_seen:
  assumes "sm_inv L s" and "db_view L s = Some m" and "distinct cs" and "set cs = dom (shardMap s)"
    and "map (\<lambda>en. ParseCommand (libDecode L) (enCmd en)) ups = map Inr cmds"
    and "batch_seen s cmds" and "Update L cs s ups = Done (s', ups', None)"
  shows "map enValue ups' = map (\<lambda>c. spec_code (libDecode L) c m) cmds"
    and "\<exists>q. s' = s\<lparr>pending := pending s @ q\<rparr> \<and> (\<forall>e \<in> set q. queued_ok (libDecode L) e) \<and>
      map ueCmd q = concat (map (\<lambda>c. filter (\<lambda>x. part_rune x = c \<and> spec_code (libDecode L) x m = 200) cmds) cs)"
proof -
  obtain es where es: "safe_loop L s m cs es" "map ueCmd es = cmds"
      "map ueEntry es = map Some [0..<length ups]" "updateShards L cs es s ups = (s', ups', None)"
    using Update_safe_loop [OF assms] by metis
  note run = updateShards_seen [OF es(1,3,4)]
  from run(2) es(2) show "map enValue ups' = map (\<lambda>c. spec_code (libDecode L) c m) cmds" by simp
  from run(1) safe_loop_queue [OF es(1)] updateShards_queued_ok(1) [OF es(1)] es(2)
  show "\<exists>q. s' = s\<lparr>pending := pending s @ q\<rparr> \<and> (\<forall>e \<in> set q. queued_ok (libDecode L) e) \<and>
      map ueCmd q = concat (map (\<lambda>c. filter (\<lambda>x. part_rune x = c \<and> spec_code (libDecode L) x m = 200) cmds) cs)"
    by blast
qed

text \<open>And it does get through, when transactions begin: no stored text stops the search.\<close>

lemma findExistingLoop_ok:
  assumes "\<forall>e \<in> set es. \<forall>v. bktGet (libBolt L) db (cmdPart (ueCmd e)) (FullId (ueCmd e)) = Some v \<longrightarrow>
    txBucket (libBolt L) db (cmdPart (ueCmd e)) \<longrightarrow> (\<exists>d. libDecode L v = Inr d)"
  shows "\<exists>es'. findExistingLoop L db es = Inr es'"
  using assms
proof (induction es)
  case Nil
  then show ?case by simp
next
  case (Cons e es)
  then obtain es' where "findExistingLoop L db es = Inr es'" by auto
  with Cons.prems show ?case by (auto simp: Let_def split: option.split)
qed

lemma shard_entries_ok:
  assumes "\<And>db. txBegin (libBolt L) db = None" and "content_ok (libDecode L) (state_content L s)"
    and "\<forall>e \<in> set es. in_own_shard e"
  shows "\<exists>ds. shard_entries L s es c = Inr ds"
proof (cases "shardMap s c")
  case None
  then show ?thesis by (simp add: shard_entries_def)
next
  case (Some shard)
  let ?es = "map (attachPending (pending s)) (entries_of c es)"
  have "\<exists>d. libDecode L v = Inr d"
    if "e \<in> set ?es" "txBucket (libBolt L) (shBlock shard) (cmdPart (ueCmd e))"
      "bktGet (libBolt L) (shBlock shard) (cmdPart (ueCmd e)) (FullId (ueCmd e)) = Some v" for e v
  proof -
    have "getFirstRune (cmdPart (ueCmd e)) = c" using that(1) assms(3) by (auto simp: in_own_shard_def)
    with Some that(2,3) have "sees (state_content L s) (ueCmd e) = (True, Some v)"
      by (simp add: sees_def state_content_def shard_content_def content_of_def)
    then show ?thesis by (rule content_ok_seen(2) [OF assms(2)])
  qed
  then have "\<exists>es'. findExistingLoop L (shBlock shard) ?es = Inr es'"
    by (intro findExistingLoop_ok) blast
  with Some assms(1) show ?thesis
    by (simp add: shard_entries_def examined_def FindExistingDocumentsForUpdates_def boltView_def Let_def)
qed

lemma Update_gets_through:
  assumes "\<And>db. txBegin (libBolt L) db = None" and "sm_inv L s" and "distinct cs"
    and "map (\<lambda>en. ParseCommand (libDecode L) (enCmd en)) ups = map Inr cmds"
  shows "\<exists>s' ups'. Update L cs s ups = Done (s', ups', None)"
proof -
  obtain es where es: "\<forall>e \<in> set es. fresh e \<and> in_own_shard e \<and> wf_command (libDecode L) (ueCmd e)"
      "Update L cs s ups = Done (updateShards L cs es s ups)"
    using Update_parsed [OF assms(4)] by metis
  have own: "\<forall>e \<in> set es. in_own_shard e" "\<forall>e \<in> set (pending s). in_own_shard e"
    using es(1) assms(2) queued_okD(4) by (auto simp: sm_inv_def)
  have "content_ok (libDecode L) (state_content L s)" using assms(2) by (simp add: sm_inv_def)
  then have "\<forall>c \<in> set cs. \<exists>ds. shard_entries L s es c = Inr ds"
    using shard_entries_ok [OF assms(1) _ own(1)] by blast
  with updateShards_run_self [OF assms(3) own, of L ups] es(2) show ?thesis by auto
qed

text \<open>An entry that is answered 200 is queued under its index.\<close>

lemma Update_queues_accepted:
  assumes "sm_inv L s" and "db_view L s = Some m" and "distinct cs" and "set cs = dom (shardMap s)"
    and "map (\<lambda>en. ParseCommand (libDecode L) (enCmd en)) ups = map Inr cmds"
    and "batch_seen s cmds" and "Update L cs s ups = Done (s', ups', None)"
    and "i < length ups" and "spec_code (libDecode L) (cmds ! i) m = 200"
  shows "enIndex (ups ! i) \<in> ueIndex ` set (pending s')"
proof -
  obtain es where es: "safe_loop L s m cs es" "map ueCmd es = cmds"
      "map ueEntry es = map Some [0..<length ups]" "map ueIndex es = map enIndex ups"
      "updateShards L cs es s ups = (s', ups', None)"
    using Update_safe_loop [OF assms(1-7)] by metis
  have len: "length es = length ups" using arg_cong [OF es(3), of length] by simp
  have dist: "distinct (map ueEntry es)" unfolding es(3) by (simp add: distinct_map)
  have e: "es ! i \<in> set es" "ueCmd (es ! i) = cmds ! i" "ueIndex (es ! i) = enIndex (ups ! i)"
    using assms(8) len es(2) arg_cong [OF es(4), of "\<lambda>xs. xs ! i"] by auto
  obtain d where d: "d \<in> set (all_decided L s es cs)" "ueCmd d = cmds ! i" "ueIndex d = enIndex (ups ! i)"
    using safe_loop_entry [OF es(1) e(1) dist] e(2,3) by auto
  have own: "\<forall>e \<in> set es. in_own_shard e" "\<forall>e \<in> set (pending s). in_own_shard e"
    using es(1) assms(1) queued_okD(4) by (auto simp: safe_loop_def sm_inv_def)
  have "s' = s\<lparr>pending := pending s @ accepted (all_decided L s es cs)\<rparr>"
    using updateShards_run_self [OF assms(3) own, of L ups s' ups'] es(5)
    by (simp add: all_decided_def accepted_concat comp_def)
  moreover have "d\<lparr>ueEntry := None\<rparr> \<in> set (accepted (all_decided L s es cs))"
    using d(1) safe_loop_decided(5) [OF es(1) d(1)] d(2) assms(9) by (auto simp: accepted_def)
  then have "enIndex (ups ! i) \<in> ueIndex ` set (accepted (all_decided L s es cs))"
    using d(3) by (force simp: image_iff)
  ultimately show ?thesis by auto
qed

end
