(* ===== verification/Flush.thy ===== *)
theory Flush
  imports Refine
begin

text \<open>
  \<open>Sync\<close> against the view: over libraries that work it does not fail, the shards come to hold
  what the view was, the queue is empty, and the index that is stored is the one that
  \<open>getLastUpdateIndex\<close> reads back.
\<close>

section \<open>One shard\<close>

text \<open>The queue of a shard runs on the content of the shard alone.\<close>

lemma view_shard:
  assumes "db_view L s = Some m" and "\<forall>e \<in> set (pending s). in_own_shard e"
    and "shardMap s c = Some shard"
  shows "\<exists>m1. apply_commands (map ueCmd (entries_of c (pending s))) (shard_content L shard) = Some m1 \<and>
    (\<forall>p. getFirstRune p = c \<longrightarrow> m1 p = m p)"
proof -
  have "\<forall>p. getFirstRune p = c \<longrightarrow> shard_content L shard p = state_content L s p"
    using assms(3) by (simp add: state_content_def)
  then obtain m1 where "apply_queue (filter (\<lambda>x. getFirstRune (cmdPart x) = c) (map ueCmd (pending s)))
        (shard_content L shard) = Some m1" "\<forall>p. getFirstRune p = c \<longrightarrow> m1 p = m p"
    using apply_queue_filter [of "map ueCmd (pending s)" "state_content L s" m
        "\<lambda>p. getFirstRune p = c" "shard_content L shard"] assms(1)
    by (auto simp: db_view_def)
  then show ?thesis using apply_queue_weak map_ueCmd_entries_of [OF assms(2), of c] by metis
qed

lemma view_no_shard:
  assumes "sm_inv L s" and "db_view L s = Some m" and "shardMap s (getFirstRune p) = None"
  shows "m p = None"
proof -
  have "cmdPart (ueCmd e) \<noteq> p" if "e \<in> set (pending s)" for e
  proof
    assume "cmdPart (ueCmd e) = p"
    with that assms(1) have "ueShardId e = getFirstRune p" "ueShardId e \<in> dom (shardMap s)"
      by (auto simp: sm_inv_def queued_ok_def in_own_shard_def)
    with assms(3) show False by auto
  qed
  then have others: "\<forall>c \<in> set (map ueCmd (pending s)). cmdPart c \<noteq> p" by simp
  have "apply_commands (map ueCmd (pending s)) (state_content L s) = Some m"
    using assms(2) apply_queue_weak by (simp add: db_view_def)
  from apply_commands_other [OF this others] have "m p = state_content L s p" .
  with assms(3) show ?thesis by (simp add: state_content_def)
qed

context reliable_libs begin

lemma applied_ok:
  assumes "sm_inv L s" and "db_view L s = Some m"
    and "\<forall>e \<in> set (pending s). storable (ueCmd e)" and "shardMap s c = Some shard"
  shows "\<exists>shard'. applied L s c = Some (Some shard') \<and>
    (\<forall>p. getFirstRune p = c \<longrightarrow> shard_content L shard' p = m p)"
proof -
  have own: "\<forall>e \<in> set (pending s). in_own_shard e"
    using assms(1) queued_okD(4) by (auto simp: sm_inv_def)
  obtain m1 where m1: "apply_commands (map ueCmd (entries_of c (pending s))) (shard_content L shard) = Some m1"
      "\<forall>p. getFirstRune p = c \<longrightarrow> m1 p = m p"
    using view_shard [OF assms(2) own assms(4)] by blast
  show ?thesis
  proof (cases "entries_of c (pending s) = []")
    case True
    with m1 assms(4) show ?thesis by (simp add: applied_def)
  next
    case False
    have "\<forall>e \<in> set (entries_of c (pending s)). storable (ueCmd e)" using assms(3) by simp
    then obtain shard' where run: "ApplyUpdates L shard (entries_of c (pending s)) = Done (shard', None)"
      using ApplyUpdates_ok m1(1) by blast
    have "shard_content L shard' = m1" using ApplyUpdates_content [OF run] m1(1) by simp
    with run False assms(4) m1(2) show ?thesis by (simp add: applied_def)
  qed
qed

end

section \<open>Sync\<close>

text \<open>The meta database is open, with its bucket.\<close>

definition meta_ready :: "('db, 'ix) libs \<Rightarrow> ('db, 'ix) ByStateMachine \<Rightarrow> bool" where
  "meta_ready L s \<longleftrightarrow> (case metaDb s of None \<Rightarrow> False | Some db \<Rightarrow> txBucket (libBolt L) db metaBucket)"

text \<open>What a restart would read: the index in the meta database.\<close>

definition stored_index :: "('db, 'ix) libs \<Rightarrow> ('db, 'ix) ByStateMachine \<Rightarrow> (u64 \<times> gerror option) outcome" where
  "stored_index L s = map_outcome snd (getLastUpdateIndex L s)"

lemma getLastUpdateIndex_lastIndex:
  "getLastUpdateIndex L s = Done (s', i, err) \<Longrightarrow> s' = s\<lparr>lastIndex := i\<rparr>"
  by (auto simp: getLastUpdateIndex_def Let_def split: option.splits prod.splits)

lemma stored_index_state:
  assumes "stored_index L s = Done (i, err)"
  shows "getLastUpdateIndex L s = Done (s\<lparr>lastIndex := i\<rparr>, i, err)"
proof (cases "getLastUpdateIndex L s")
  case (Done r)
  obtain s' j e where r: "r = (s', j, e)" by (cases r)
  with Done assms have "j = i" "e = err" by (simp_all add: stored_index_def)
  with getLastUpdateIndex_lastIndex [of L s s' j e] Done r show ?thesis by simp
next
  case (Panic err)
  with assms show ?thesis by (simp add: stored_index_def)
qed

context reliable_libs begin

lemma update_index:
  assumes "meta_ready L s"
  shows "\<exists>meta'. updateLastUpdateIndex L s = Done (s\<lparr>metaDb := Some meta'\<rparr>, None) \<and>
    meta_ready L (s\<lparr>metaDb := Some meta'\<rparr>) \<and>
    stored_index L (s\<lparr>metaDb := Some meta'\<rparr>) = Done (lastIndex s, None)"
proof -
  obtain meta where meta: "metaDb s = Some meta" "txBucket (libBolt L) meta metaBucket"
    using assms by (auto simp: meta_ready_def split: option.splits)
  obtain db where put: "bktPut (libBolt L) meta metaBucket metaKey (fmt_u64 (lastIndex s)) = Inr db"
    using put_ok [OF meta(2), of metaKey "fmt_u64 (lastIndex s)"] fmt_u64_length [of "lastIndex s"]
    by (auto simp: metaKey_def max_key_size_def max_value_size_def)
  obtain db' where commit: "txCommit (libBolt L) db = Inr db'" using commit_ok by blast
  have "content_of (libBolt L) db' = (content_of (libBolt L) meta)
      (metaBucket \<mapsto> (bktGet (libBolt L) meta metaBucket)(metaKey \<mapsto> fmt_u64 (lastIndex s)))"
    using commit_content [OF commit] put_content [OF meta(2) put] by simp
  then have "content_of (libBolt L) db' metaBucket =
      Some ((bktGet (libBolt L) meta metaBucket)(metaKey \<mapsto> fmt_u64 (lastIndex s)))" by simp
  then have db': "txBucket (libBolt L) db' metaBucket"
      "bktGet (libBolt L) db' metaBucket metaKey = Some (fmt_u64 (lastIndex s))"
    by (auto simp: content_of_def split: if_splits)
  have "updateLastUpdateIndex L s = Done (s\<lparr>metaDb := Some db'\<rparr>, None)"
    using meta put commit begin_ok by (simp add: updateLastUpdateIndex_def boltUpdate_def)
  moreover have "stored_index L (s\<lparr>metaDb := Some db'\<rparr>) = Done (lastIndex s, None)"
    using db' begin_ok parse_fmt_u64 [of "lastIndex s"] fmt_u64_nonempty [of "lastIndex s"]
    by (simp add: stored_index_def getLastUpdateIndex_def)
  ultimately show ?thesis using db' by (auto simp: meta_ready_def)
qed

lemma flushed_content:
  assumes "sm_inv L s" and "db_view L s = Some m"
    and "\<forall>e \<in> set (pending s). storable (ueCmd e)" and "set cs = dom (shardMap s)"
  shows "state_content L (flushed L cs s) = m"
proof
  fix p
  show "state_content L (flushed L cs s) p = m p"
  proof (cases "shardMap s (getFirstRune p)")
    case None
    then have "getFirstRune p \<notin> set cs" using assms(4) by auto
    with None view_no_shard [OF assms(1,2) None] show ?thesis
      by (simp add: state_content_def flushed_def applied_map_def)
  next
    case (Some shard)
    then have "getFirstRune p \<in> set cs" using assms(4) by auto
    with applied_ok [OF assms(1,2,3) Some] show ?thesis
      by (auto simp: state_content_def flushed_def applied_map_def)
  qed
qed

lemma flushed_dom:
  assumes "sm_inv L s" and "db_view L s = Some m"
    and "\<forall>e \<in> set (pending s). storable (ueCmd e)" and "set cs = dom (shardMap s)"
  shows "dom (shardMap (flushed L cs s)) = dom (shardMap s)"
proof -
  have "shardMap (flushed L cs s) c = None \<longleftrightarrow> shardMap s c = None" for c
  proof (cases "shardMap s c")
    case None
    then have "c \<notin> set cs" using assms(4) by auto
    with None show ?thesis by (simp add: flushed_def applied_map_def)
  next
    case (Some shard)
    then have "c \<in> set cs" using assms(4) by auto
    with applied_ok [OF assms(1,2,3) Some] Some show ?thesis
      by (auto simp: flushed_def applied_map_def)
  qed
  then show ?thesis by (auto simp: dom_def)
qed

lemma Sync_flushes:
  assumes "sm_inv L s" and "db_view L s = Some m" and "meta_ready L s"
    and "\<forall>e \<in> set (pending s). storable (ueCmd e)" and "distinct cs" and "set cs = dom (shardMap s)"
  shows "\<exists>s'. Sync L cs s = Done (s', None) \<and> pending s' = [] \<and> state_content L s' = m \<and>
    db_view L s' = Some m \<and> lastIndex s' = Max (insert (lastIndex s) (ueIndex ` set (pending s))) \<and>
    stored_index L s' = Done (lastIndex s', None) \<and> sm_inv L s' \<and> meta_ready L s' \<and>
    dom (shardMap s') = dom (shardMap s)"
proof -
  let ?f = "flushed L cs s"
  have ok: "\<forall>c \<in> set cs. applied L s c \<noteq> None"
    using applied_ok [OF assms(1,2,4)] assms(6) by fastforce
  have "meta_ready L ?f" using assms(3) by (simp add: meta_ready_def flushed_def)
  then obtain meta where meta: "updateLastUpdateIndex L ?f = Done (?f\<lparr>metaDb := Some meta\<rparr>, None)"
      "meta_ready L (?f\<lparr>metaDb := Some meta\<rparr>)"
      "stored_index L (?f\<lparr>metaDb := Some meta\<rparr>) = Done (lastIndex ?f, None)"
    using update_index by blast
  let ?s' = "?f\<lparr>metaDb := Some meta\<rparr>"
  have "state_content L ?s' = state_content L ?f" by (simp add: state_content_def fun_eq_iff)
  then have state: "state_content L ?s' = m"
    using flushed_content [OF assms(1,2,4,6)] by simp
  have pend: "pending ?s' = []" by (simp add: flushed_def)
  then have view: "db_view L ?s' = Some m" using state by (simp add: db_view_def)
  moreover have "sm_inv L ?s'" using pend state view view_ok [OF assms(1,2)] by (simp add: sm_inv_def)
  moreover have "lastIndex ?s' = Max (insert (lastIndex s) (ueIndex ` set (pending s)))"
    by (simp add: flushed_def findHighest_Max)
  moreover have "Sync L cs s = Done (?s', None)" using ok meta(1) by (simp add: Sync_eq [OF assms(5)])
  moreover have "stored_index L ?s' = Done (lastIndex ?s', None)" using meta(3) by simp
  moreover have "dom (shardMap ?s') = dom (shardMap s)" using flushed_dom [OF assms(1,2,4,6)] by simp
  ultimately show ?thesis using state pend meta(2) by blast
qed

end

section \<open>Reading a document\<close>

text \<open>
  A \<open>GET\<close> answers from the view, unless the newest command it meets in the queue re-creates a
  partition: then it reads the shard, which may still hold what the partition held before.
\<close>

definition view_answer :: "content \<Rightarrow> Command \<Rightarrow> Response" where
  "view_answer m c = (case sees m c of (_, Some v) \<Rightarrow> Success v | (_, None) \<Rightarrow> NotFound)"

lemma in_state_answer:
  assumes "txBegin (libBolt L) = (\<lambda>db. None)" and "shardMap s (getFirstRune (cmdPart c)) \<noteq> None"
    and "content_ok (libDecode L) (state_content L s)"
  shows "LookupGetRequestInState L s c = Inr (view_answer (state_content L s) c)"
proof -
  obtain shard where shard: "shardMap s (getFirstRune (cmdPart c)) = Some shard" using assms(2) by blast
  have seen: "sees (state_content L s) c = (case shard_content L shard (cmdPart c) of
      None \<Rightarrow> (False, None) | Some b \<Rightarrow> (True, b (FullId c)))"
    using shard by (simp add: sees_def state_content_def)
  show ?thesis
  proof (cases "txBucket (libBolt L) (shBlock shard) (cmdPart c)")
    case False
    with seen shard assms(1) show ?thesis
      by (simp add: LookupGetRequestInState_def getPartitionShard_def GetDocumentString_def boltView_def
          view_answer_def shard_content_def content_of_def)
  next
    case True
    with seen have s2: "sees (state_content L s) c =
        (True, bktGet (libBolt L) (shBlock shard) (cmdPart c) (FullId c))"
      by (simp add: shard_content_def content_of_def)
    with True shard assms(1) content_ok_seen(1) [OF assms(3), of c] show ?thesis
      by (cases "bktGet (libBolt L) (shBlock shard) (cmdPart c) (FullId c)")
        (auto simp: LookupGetRequestInState_def getPartitionShard_def GetDocumentString_def boltView_def
          view_answer_def)
  qed
qed

text \<open>No queued re-creation hides an older document of the shard.\<close>

definition not_recreated :: "('db, 'ix) libs \<Rightarrow> ('db, 'ix) ByStateMachine \<Rightarrow> Command \<Rightarrow> bool" where
  "not_recreated L s c \<longleftrightarrow>
    (case findCommandInPending (pending s) c of
       None \<Rightarrow> True
     | Some x \<Rightarrow> cmdType x = CREATE_PART \<longrightarrow> snd (sees (state_content L s) c) = None)"

lemma get_reads_view:
  assumes "txBegin (libBolt L) = (\<lambda>db. None)" and "sm_inv L s" and "db_view L s = Some m"
    and "shardMap s (getFirstRune (cmdPart c)) \<noteq> None" and "not_recreated L s c"
  shows "LookupGetRequest L s c = Inr (view_answer m c)"
proof -
  have "content_ok (libDecode L) (state_content L s)" using assms(2) by (simp add: sm_inv_def)
  note state = in_state_answer [OF assms(1,4) this]
  note search = view_search [OF assms(2,3), of c]
  show ?thesis
  proof (cases "findCommandInPending (pending s) c")
    case None
    with state search show ?thesis by (simp add: LookupGetRequest_def view_answer_def)
  next
    case (Some x)
    have x: "wf_command (libDecode L) x" "alters (cmdType x)"
      using find_queued [OF Some] assms(2) by (auto simp: sm_inv_def)
    show ?thesis
    proof (cases "cmdType x = CREATE_PART")
      case True
      with Some assms(5) have "snd (sees (state_content L s) c) = None" by (simp add: not_recreated_def)
      with Some True state search show ?thesis
        by (cases "sees (state_content L s) c")
          (simp add: LookupGetRequest_def view_answer_def left_by_def type_defs)
    next
      case False
      with Some x search wf_commandD(4) [OF x(1)] show ?thesis
        by (auto simp: LookupGetRequest_def view_answer_def left_by_def type_defs)
    qed
  qed
qed

end
