(* ===== verification/History.thy ===== *)
theory History
  imports Flush
begin

text \<open>
  Runs of the state machine: batches, syncs and reads in any order, as the log drives them. A run
  is a step relation; a simulation between a queued machine and its contract is a locale, proved
  once for all runs and discharged here by the model.
\<close>

section \<open>Simulation\<close>

text \<open>
  Runs of a step relation, as lists of events. Then a machine that answers events, an abstract machine that answers the same events, and a view that
  the steps carry along.
\<close>

fun runs :: "('s \<Rightarrow> 'e \<Rightarrow> 's \<Rightarrow> bool) \<Rightarrow> 's \<Rightarrow> 'e list \<Rightarrow> 's \<Rightarrow> bool" where
  "runs st s [] s' \<longleftrightarrow> s' = s"
| "runs st s (e # es) s' \<longleftrightarrow> (\<exists>t. st s e t \<and> runs st t es s')"

lemma runs_append:
  "runs st s (es @ fs) s' \<longleftrightarrow> (\<exists>t. runs st s es t \<and> runs st t fs s')"
  by (induction es arbitrary: s) auto

locale simulation =
  fixes step :: "'s \<Rightarrow> 'e \<Rightarrow> 's \<Rightarrow> bool"
    and view :: "'s \<Rightarrow> 'v option"
    and inv :: "'s \<Rightarrow> bool"
    and abs_step :: "'v \<Rightarrow> 'e \<Rightarrow> 'v \<Rightarrow> bool"
  assumes inv_step: "inv s \<Longrightarrow> step s e s' \<Longrightarrow> inv s'"
    and view_defined: "inv s \<Longrightarrow> \<exists>v. view s = Some v"
    and view_step: "inv s \<Longrightarrow> view s = Some v \<Longrightarrow> step s e s' \<Longrightarrow>
      \<exists>v'. view s' = Some v' \<and> abs_step v e v'"
begin

lemma run_simulates:
  "inv s \<Longrightarrow> view s = Some v \<Longrightarrow> runs step s es s' \<Longrightarrow>
    inv s' \<and> (\<exists>v'. view s' = Some v' \<and> runs abs_step v es v')"
proof (induction es arbitrary: s v)
  case Nil
  then show ?case by simp
next
  case (Cons e es)
  then obtain t where t: "step s e t" "runs step t es s'" by auto
  with Cons.prems inv_step view_step obtain w where "inv t" "view t = Some w" "abs_step v e w"
    by blast
  with Cons.IH t(2) show ?case by fastforce
qed

end

section \<open>The events of the state machine\<close>

text \<open>
  What Dragonboat calls: \<open>Update\<close> with a batch, answered with codes; \<open>Sync\<close>; \<open>Lookup\<close> of a
  document.
\<close>

datatype sm_event =
    Wrote "Command list" "u64 list"
  | Synced
  | Read Command Response

inductive sm_step ::
  "('db, 'ix) libs \<Rightarrow> ('db, 'ix) ByStateMachine \<Rightarrow> sm_event \<Rightarrow> ('db, 'ix) ByStateMachine \<Rightarrow> bool"
  for L where
  wrote: "distinct order \<Longrightarrow> set order = dom (shardMap s) \<Longrightarrow>
    map (\<lambda>en. ParseCommand (libDecode L) (enCmd en)) ups = map Inr cmds \<Longrightarrow>
    batch_safe s cmds \<Longrightarrow> list_all storable cmds \<Longrightarrow>
    Update L order s ups = Done (s', ups', None) \<Longrightarrow>
    sm_step L s (Wrote cmds (map enValue ups')) s'"
| synced: "distinct order \<Longrightarrow> set order = dom (shardMap s) \<Longrightarrow>
    Sync L order s = Done (s', None) \<Longrightarrow> sm_step L s Synced s'"
| read: "shardMap s (part_rune c) \<noteq> None \<Longrightarrow> not_recreated L s c \<Longrightarrow>
    LookupGetRequest L s c = Inr r \<Longrightarrow> sm_step L s (Read c r) s"

inductive_cases sm_stepE: "sm_step L s e s'"
inductive_simps sm_step_read: "sm_step L s (Read c r) s'"
inductive_simps sm_step_synced: "sm_step L s Synced s'"
inductive_simps sm_step_wrote: "sm_step L s (Wrote cmds codes) s'"

text \<open>The same events on the content alone.\<close>

fun spec_event :: "json_decoder \<Rightarrow> content \<Rightarrow> sm_event \<Rightarrow> content \<Rightarrow> bool" where
  "spec_event js m (Wrote cmds codes) m' \<longleftrightarrow> spec_run js cmds m = (codes, m')"
| "spec_event js m Synced m' \<longleftrightarrow> m' = m"
| "spec_event js m (Read c r) m' \<longleftrightarrow> m' = m \<and> r = view_answer m c"

definition run_inv :: "('db, 'ix) libs \<Rightarrow> ('db, 'ix) ByStateMachine \<Rightarrow> bool" where
  "run_inv L s \<longleftrightarrow> sm_inv L s \<and> meta_ready L s \<and> list_all (\<lambda>e. storable (ueCmd e)) (pending s)"

text \<open>What \<open>Update\<close> queues comes from the batch.\<close>

lemma Update_queue:
  assumes "sm_inv L s" and "distinct cs"
    and "map (\<lambda>en. ParseCommand (libDecode L) (enCmd en)) ups = map Inr cmds"
    and "Update L cs s ups = Done (s', ups', None)"
  shows "\<exists>q. s' = s\<lparr>pending := pending s @ q\<rparr> \<and> ueCmd ` set q \<subseteq> set cmds \<and>
    ueIndex ` set q \<subseteq> enIndex ` set ups"
proof -
  obtain es where es: "map ueCmd es = cmds" "map ueIndex es = map enIndex ups"
      "\<forall>e \<in> set es. fresh e \<and> in_own_shard e \<and> wf_command (libDecode L) (ueCmd e)"
      "Update L cs s ups = Done (updateShards L cs es s ups)"
    using Update_parsed [OF assms(3)] by metis
  have own: "\<forall>e \<in> set es. in_own_shard e" "\<forall>e \<in> set (pending s). in_own_shard e"
    using es(3) assms(1) queued_okD(4) by (auto simp: sm_inv_def)
  let ?q = "accepted (all_decided L s es cs)"
  have run: "\<forall>c \<in> set cs. \<exists>ds. shard_entries L s es c = Inr ds" "s' = s\<lparr>pending := pending s @ ?q\<rparr>"
    using updateShards_run_self [OF assms(2) own, of L ups s' ups'] assms(4) es(4)
    by (simp_all add: all_decided_def accepted_concat comp_def)
  have "ueCmd a \<in> set cmds \<and> ueIndex a \<in> enIndex ` set ups" if "a \<in> set ?q" for a
  proof -
    from accepted_set [OF that] obtain d where d: "d \<in> set (all_decided L s es cs)" "a = d\<lparr>ueEntry := None\<rparr>"
      by blast
    from d(1) obtain c where c: "c \<in> set cs" "d \<in> set (decided L s es c)"
      by (auto simp: all_decided_def)
    from bspec [OF run(1) c(1)] obtain ds where ds: "shard_entries L s es c = Inr ds" ..
    with c(2) have "d \<in> set ds" by (simp add: decided_Inr)
    from shard_entries_set(1) [OF ds this] obtain e where "e \<in> set es" "ueCmd e = ueCmd d" "ueIndex e = ueIndex d"
      by blast
    then have "ueCmd d \<in> set (map ueCmd es)" "ueIndex d \<in> set (map ueIndex es)" by (auto, metis imageI)+
    with es(1,2) d(2) show ?thesis by simp
  qed
  then show ?thesis using run(2) by blast
qed

sublocale reliable_libs \<subseteq> sim: simulation "sm_step L" "db_view L" "run_inv L" "spec_event (libDecode L)"
proof
  fix s s' e assume inv: "run_inv L s" and st: "sm_step L s e s'"
  then obtain m where m: "db_view L s = Some m" by (auto simp: run_inv_def sm_inv_def)
  show "run_inv L s'"
    using st
  proof (cases rule: sm_step.cases)
    case (wrote order ups cmds ups')
    have "sm_inv L s" using inv by (simp add: run_inv_def)
    from Update_queue [OF this wrote(2,4,7)] Update_refines_contract(3) [OF this m wrote(2,3,4,5,7)]
    show ?thesis using inv wrote(6) by (auto simp: run_inv_def list_all_iff meta_ready_def image_subset_iff)
  next
    case (synced order)
    with inv m Sync_flushes [of s m order] show ?thesis
      by (auto simp: run_inv_def list_all_iff)
  next
    case (read c r)
    with inv show ?thesis by simp
  qed
next
  fix s assume "run_inv L s"
  then show "\<exists>v. db_view L s = Some v" by (auto simp: run_inv_def sm_inv_def)
next
  fix s s' e m assume inv: "run_inv L s" and m: "db_view L s = Some m" and st: "sm_step L s e s'"
  then have sm: "sm_inv L s" by (simp add: run_inv_def)
  show "\<exists>m'. db_view L s' = Some m' \<and> spec_event (libDecode L) m e m'"
    using st
  proof (cases rule: sm_step.cases)
    case (wrote order ups cmds ups')
    with Update_refines_contract(1,2) [OF sm m wrote(2,3,4,5,7)] show ?thesis by simp
  next
    case (synced order)
    with inv m Sync_flushes [of s m order] show ?thesis
      by (auto simp: run_inv_def list_all_iff)
  next
    case (read c r)
    have "txBegin (libBolt L) = (\<lambda>db. None)" using begin_ok by (simp add: fun_eq_iff)
    from get_reads_view [OF this sm m] read m show ?thesis by (simp add: part_rune_def)
  qed
qed

context reliable_libs begin

lemma run_refines:
  "run_inv L s \<Longrightarrow> db_view L s = Some m \<Longrightarrow> runs (sm_step L) s es s' \<Longrightarrow>
    run_inv L s' \<and> (\<exists>m'. db_view L s' = Some m' \<and> runs (spec_event (libDecode L)) m es m')"
  by (rule sim.run_simulates)

text \<open>Neither a safe batch nor a sync is ever stuck.\<close>

lemma wrote_possible:
  fixes ups :: "smEntry list"
  assumes "run_inv L s" and "db_view L s = Some m" and "distinct order" and "set order = dom (shardMap s)"
    and "map (\<lambda>en. ParseCommand (libDecode L) (enCmd en)) ups = map Inr cmds"
    and "batch_safe s cmds" and "list_all storable cmds"
  shows "\<exists>s'. sm_step L s (Wrote cmds (fst (spec_run (libDecode L) cmds m))) s'"
proof -
  have inv: "sm_inv L s" using assms(1) by (simp add: run_inv_def)
  obtain s' ups' where run: "Update L order s ups = Done (s', ups', None)"
    using Update_gets_through [OF begin_ok inv assms(3,5)] by blast
  from Update_refines_contract(1) [OF inv assms(2-6) run] sm_step.wrote [OF assms(3-7) run]
  show ?thesis by auto
qed

lemma synced_possible:
  assumes "run_inv L s" and "distinct order" and "set order = dom (shardMap s)"
  shows "\<exists>s'. sm_step L s Synced s'"
proof -
  obtain m where "db_view L s = Some m" using assms(1) by (auto simp: run_inv_def sm_inv_def)
  with assms Sync_flushes [of s m order] obtain s' where "Sync L order s = Done (s', None)"
    by (auto simp: run_inv_def list_all_iff)
  from sm_step.synced [OF assms(2,3) this] show ?thesis by blast
qed

lemma step_dom:
  assumes "run_inv L s" and "sm_step L s e s'"
  shows "dom (shardMap s') = dom (shardMap s)"
proof -
  obtain m where m: "db_view L s = Some m" "sm_inv L s"
    using assms(1) by (auto simp: run_inv_def sm_inv_def)
  show ?thesis
    using assms(2)
  proof (cases rule: sm_step.cases)
    case (wrote order ups cmds ups')
    from Update_queue [OF m(2) wrote(2,4,7)] show ?thesis by auto
  next
    case (synced order)
    with assms(1) m Sync_flushes [of s m order] show ?thesis
      by (auto simp: run_inv_def list_all_iff)
  next
    case (read c r)
    then show ?thesis by simp
  qed
qed

lemma run_inv_runs: "run_inv L s \<Longrightarrow> runs (sm_step L) s es s' \<Longrightarrow> run_inv L s'"
  by (induction es arbitrary: s) (auto dest: sim.inv_step)

lemma run_dom: "run_inv L s \<Longrightarrow> runs (sm_step L) s es s' \<Longrightarrow> dom (shardMap s') = dom (shardMap s)"
  by (induction es arbitrary: s) (simp, metis runs.simps(2) sim.inv_step step_dom)

text \<open>A sync leaves nothing in the queue, and the view in the databases.\<close>

lemma synced_empty:
  assumes "run_inv L s" and "db_view L s = Some m" and "sm_step L s Synced s'"
  shows "pending s' = []" and "state_content L s' = m" and "db_view L s' = Some m" and "run_inv L s'"
proof -
  from assms(3) obtain order where order: "distinct order" "set order = dom (shardMap s)"
      "Sync L order s = Done (s', None)"
    unfolding sm_step_synced by blast
  with assms(1,2) Sync_flushes [of s m order]
  show "pending s' = []" "state_content L s' = m" "db_view L s' = Some m" "run_inv L s'"
    by (auto simp: run_inv_def list_all_iff)
qed

text \<open>With an empty queue a single command is always safe, so a log goes through one command at a time.\<close>

lemma one_safe:
  assumes "pending s = []" and "alters (cmdType c)" and "shardMap s (part_rune c) \<noteq> None"
  shows "batch_safe s [c]"
  using assms by (simp add: batch_safe_def batch_seen_def one_search_def none_deleted_def findCommandInPending_def)

lemma one_through:
  assumes "run_inv L s" and "pending s = []" and "db_view L s = Some m"
    and "distinct order" and "set order = dom (shardMap s)" and "ParseCommand (libDecode L) raw = Inr c"
    and "storable c" and "alters (cmdType c)" and "shardMap s (part_rune c) \<noteq> None"
  shows "\<exists>t s'. sm_step L s (Wrote [c] [spec_code (libDecode L) c m]) t \<and> sm_step L t Synced s' \<and>
    run_inv L s' \<and> pending s' = [] \<and> state_content L s' = spec_effect (libDecode L) c m \<and>
    db_view L s' = Some (spec_effect (libDecode L) c m) \<and> dom (shardMap s') = dom (shardMap s)"
proof -
  let ?ups = "[\<lparr>enIndex = 0, enCmd = raw, enValue = 0\<rparr>] :: smEntry list"
  have "map (\<lambda>en. ParseCommand (libDecode L) (enCmd en)) ?ups = map Inr [c]" using assms(6) by simp
  from wrote_possible [OF assms(1,3-5) this one_safe [OF assms(2,8,9)]] assms(7)
  obtain t where t: "sm_step L s (Wrote [c] [spec_code (libDecode L) c m]) t" by auto
  with run_refines [OF assms(1,3), of "[Wrote [c] [spec_code (libDecode L) c m]]" t]
  have view: "run_inv L t" "db_view L t = Some (spec_effect (libDecode L) c m)" by auto
  have dom: "dom (shardMap t) = dom (shardMap s)" by (rule step_dom [OF assms(1) t])
  with assms(5) synced_possible [OF view(1) assms(4)] obtain s' where s': "sm_step L t Synced s'" by auto
  with synced_empty [OF view s'] step_dom [OF view(1) s'] dom t show ?thesis by metis
qed

end

text \<open>A log, one command at a time, with a sync after each.\<close>

fun serial :: "Command list \<Rightarrow> u64 list \<Rightarrow> sm_event list" where
  "serial (c # cs) (v # vs) = Wrote [c] [v] # Synced # serial cs vs"
| "serial cs vs = []"

context reliable_libs begin

lemma serial_through:
  assumes "run_inv L s" and "pending s = []" and "db_view L s = Some m"
    and "distinct order" and "set order = dom (shardMap s)"
    and "map (ParseCommand (libDecode L)) raws = map Inr cmds" and "list_all storable cmds"
    and "list_all (\<lambda>c. alters (cmdType c) \<and> shardMap s (part_rune c) \<noteq> None) cmds"
  shows "\<exists>s'. runs (sm_step L) s (serial cmds (fst (spec_run (libDecode L) cmds m))) s' \<and> pending s' = [] \<and>
    state_content L s' = snd (spec_run (libDecode L) cmds m) \<and> run_inv L s'"
  using assms
proof (induction cmds arbitrary: raws s m)
  case Nil
  then show ?case by (simp add: db_view_def)
next
  case (Cons c cs)
  from Cons.prems(6) obtain raw raws' where raws: "raws = raw # raws'" "ParseCommand (libDecode L) raw = Inr c"
      "map (ParseCommand (libDecode L)) raws' = map Inr cs"
    by (cases raws) auto
  have c: "storable c" "alters (cmdType c)" "shardMap s (part_rune c) \<noteq> None" using Cons.prems(7,8) by simp_all
  obtain t u where step: "sm_step L s (Wrote [c] [spec_code (libDecode L) c m]) t" "sm_step L t Synced u"
    and u: "run_inv L u" "pending u = []" "db_view L u = Some (spec_effect (libDecode L) c m)"
      "dom (shardMap u) = dom (shardMap s)"
    using one_through [OF Cons.prems(1-5) raws(2) c] by blast
  have "shardMap u r \<noteq> None \<longleftrightarrow> shardMap s r \<noteq> None" for r using u(4) by (auto simp: domIff set_eq_iff)
  then have "list_all (\<lambda>c. alters (cmdType c) \<and> shardMap u (part_rune c) \<noteq> None) cs"
    using Cons.prems(8) by (auto simp: list_all_iff)
  with Cons.IH [OF u(1-3) Cons.prems(4) _ raws(3)] Cons.prems(5,7) u(4) obtain s' where
    "runs (sm_step L) u (serial cs (fst (spec_run (libDecode L) cs (spec_effect (libDecode L) c m)))) s'"
    "pending s' = []" "state_content L s' = snd (spec_run (libDecode L) cs (spec_effect (libDecode L) c m))"
    "run_inv L s'"
    by auto
  with step show ?case by (auto simp: split_beta)
qed

end

section \<open>Replicas\<close>

fun log_of :: "sm_event list \<Rightarrow> Command list" where
  "log_of [] = []"
| "log_of (Wrote cmds codes # es) = cmds @ log_of es"
| "log_of (e # es) = log_of es"

fun codes_of :: "sm_event list \<Rightarrow> u64 list" where
  "codes_of [] = []"
| "codes_of (Wrote cmds codes # es) = codes @ codes_of es"
| "codes_of (e # es) = codes_of es"

lemma spec_history:
  "runs (spec_event js) m es m' \<Longrightarrow> spec_run js (log_of es) m = (codes_of es, m')"
proof (induction es arbitrary: m)
  case Nil
  then show ?case by simp
next
  case (Cons e es)
  then obtain w where w: "spec_event js m e w" "spec_run js (log_of es) w = (codes_of es, m')"
    by auto
  then show ?case by (cases e) (auto simp: spec_run_append)
qed

lemma run_alters: "runs (sm_step L) s es s' \<Longrightarrow> \<forall>c \<in> set (log_of es). alters (cmdType c)"
proof (induction es arbitrary: s)
  case Nil
  then show ?case by simp
next
  case (Cons e es)
  then obtain t where t: "sm_step L s e t" "runs (sm_step L) t es s'" by auto
  from t(1) Cons.IH [OF t(2)] show ?case
    by (cases rule: sm_step.cases) (auto simp: batch_safe_def batch_seen_def list_all_iff)
qed

lemma log_of_serial: "length codes = length cmds \<Longrightarrow> log_of (serial cmds codes) = cmds"
  by (induction cmds codes rule: serial.induct) auto

lemma length_spec_run: "length (fst (spec_run js cs m)) = length cs"
  by (induction cs arbitrary: m) (simp_all add: split_beta)

text \<open>The log of one run can be applied again from any state with an empty queue.\<close>

context reliable_libs begin

lemma run_logged:
  assumes "run_inv L s" and "runs (sm_step L) s es s'"
  shows "\<exists>raws. map (ParseCommand (libDecode L)) raws = map Inr (log_of es) \<and> list_all storable (log_of es) \<and>
    list_all (\<lambda>c. alters (cmdType c) \<and> shardMap s (part_rune c) \<noteq> None) (log_of es)"
  using assms
proof (induction es arbitrary: s)
  case Nil
  then show ?case by simp
next
  case (Cons e es)
  then obtain t where t: "sm_step L s e t" "runs (sm_step L) t es s'" by auto
  have dom: "shardMap t r \<noteq> None \<longleftrightarrow> shardMap s r \<noteq> None" for r
    using step_dom [OF Cons.prems(1) t(1)] by (auto simp: domIff set_eq_iff)
  from Cons.IH [OF sim.inv_step [OF Cons.prems(1) t(1)] t(2)] dom
  obtain raws where raws: "map (ParseCommand (libDecode L)) raws = map Inr (log_of es)"
      "list_all storable (log_of es)"
      "list_all (\<lambda>c. alters (cmdType c) \<and> shardMap s (part_rune c) \<noteq> None) (log_of es)" by auto
  show ?case
    using t(1)
  proof (cases rule: sm_step.cases)
    case (wrote order ups cmds ups')
    then have "map (ParseCommand (libDecode L)) (map enCmd ups @ raws) = map Inr (log_of (e # es))"
      using raws(1) by (simp add: comp_def)
    with raws wrote show ?thesis
      by (intro exI [of _ "map enCmd ups @ raws"]) (simp add: batch_safe_def batch_seen_def)
  qed (use raws in auto)
qed

lemma replay_exists:
  assumes "run_inv L s" and "runs (sm_step L) s es s'" and "run_inv L t" and "pending t = []"
    and "dom (shardMap t) = dom (shardMap s)" and "distinct order" and "set order = dom (shardMap t)"
  shows "\<exists>fs t'. runs (sm_step L) t fs t' \<and> log_of fs = log_of es"
proof -
  obtain raws where raws: "map (ParseCommand (libDecode L)) raws = map Inr (log_of es)"
      "list_all storable (log_of es)"
      "list_all (\<lambda>c. alters (cmdType c) \<and> shardMap s (part_rune c) \<noteq> None) (log_of es)"
    using run_logged [OF assms(1,2)] by blast
  obtain m where m: "db_view L t = Some m" using assms(3) by (auto simp: run_inv_def sm_inv_def)
  have "shardMap t r \<noteq> None \<longleftrightarrow> shardMap s r \<noteq> None" for r using assms(5) by (auto simp: domIff set_eq_iff)
  with raws(3) have "list_all (\<lambda>c. alters (cmdType c) \<and> shardMap t (part_rune c) \<noteq> None) (log_of es)" by simp
  from serial_through [OF assms(3,4) m assms(6,7) raws(1,2) this] log_of_serial length_spec_run
  show ?thesis by metis
qed

end

text \<open>A run that brings no commands brings nothing into the queue.\<close>

context reliable_libs begin

lemma quiet_queue:
  "run_inv L s \<Longrightarrow> runs (sm_step L) s es s' \<Longrightarrow> log_of es = [] \<Longrightarrow> set (pending s') \<subseteq> set (pending s)"
proof (induction es arbitrary: s)
  case Nil
  then show ?case by simp
next
  case (Cons e es)
  then obtain t where t: "sm_step L s e t" "runs (sm_step L) t es s'" by auto
  have sm: "sm_inv L s" using Cons.prems(1) by (simp add: run_inv_def)
  from t(1) have "set (pending t) \<subseteq> set (pending s)"
  proof (cases rule: sm_step.cases)
    case (wrote order ups cmds ups')
    with Cons.prems(3) have "cmds = []" by simp
    with Update_queue [OF sm wrote(2,4,7)] show ?thesis by auto
  next
    case (synced order)
    obtain m where "db_view L s = Some m" using Cons.prems(1) by (auto simp: run_inv_def sm_inv_def)
    from synced_empty(1) [OF Cons.prems(1) this] t(1) synced(1) show ?thesis by simp
  next
    case (read c r)
    then show ?thesis by simp
  qed
  moreover have "log_of es = []" using Cons.prems(3) by (cases e) auto
  ultimately show ?case using Cons.IH [OF sim.inv_step [OF Cons.prems(1) t(1)] t(2)] by blast
qed

lemma quiet_view:
  assumes "run_inv L s" and "db_view L s = Some m" and "runs (sm_step L) s es s'" and "log_of es = []"
  shows "db_view L s' = Some m"
  using run_refines [OF assms(1-3)] spec_history [of "libDecode L" m es] assms(4) by fastforce

end

end
