(* ===== verification/Dir.thy ===== *)
theory Dir
  imports GoLib
begin

text \<open>
  \<^verbatim>\<open>dir/dir.go\<close>: the layout of the data directory, and \<^verbatim>\<open>filepath.Clean\<close> and \<^verbatim>\<open>filepath.Join\<close> of Go's
  standard library, on which it rests.
\<close>

section \<open>filepath\<close>

definition slash :: char where
  "slash = CHR 0x2F"

text \<open>
  The elements that are left, in reverse: empty and \<^verbatim>\<open>.\<close> elements go, \<^verbatim>\<open>..\<close> takes back the element
  before it, and a \<^verbatim>\<open>..\<close> with nothing to take back stays in a relative path and goes in a rooted one.
\<close>

fun clean_elems :: "bool \<Rightarrow> string list \<Rightarrow> string list \<Rightarrow> string list" where
  "clean_elems rooted acc [] = rev acc"
| "clean_elems rooted acc (w # ws) =
    (if w = [] \<or> w = ''.'' then clean_elems rooted acc ws
     else if w = ''..'' then
       (case acc of
          [] \<Rightarrow> clean_elems rooted (if rooted then [] else [''..'']) ws
        | a # as \<Rightarrow>
            if a = ''..'' then clean_elems rooted (''..'' # acc) ws
            else clean_elems rooted as ws)
     else clean_elems rooted (w # acc) ws)"

definition Clean :: "string \<Rightarrow> string" where
  "Clean path =
    (let rooted = (path \<noteq> [] \<and> hd path = slash);
         body = join_with slash (clean_elems rooted [] (split_char slash path))
     in if rooted then slash # body else if body = [] then ''.'' else body)"

text \<open>\<^verbatim>\<open>Join\<close> drops the leading empty elements and cleans the rest, joined.\<close>

definition Join :: "string list \<Rightarrow> string" where
  "Join elems =
    (case dropWhile (\<lambda>e. e = []) elems of [] \<Rightarrow> [] | es \<Rightarrow> Clean (join_with slash es))"

section \<open>The directories\<close>

text \<open>The package variable \<^verbatim>\<open>prefix\<close> is an argument.\<close>

definition RootPath :: "string \<Rightarrow> string" where
  "RootPath prefix = prefix"

definition DataPath :: "string \<Rightarrow> string" where
  "DataPath prefix = Join [RootPath prefix, ''data'']"

definition MetaDbPath :: "string \<Rightarrow> string" where
  "MetaDbPath prefix = Join [DataPath prefix, ''meta.bolt'']"

definition RaftPath :: "string \<Rightarrow> string" where
  "RaftPath prefix = Join [RootPath prefix, ''raft'']"

definition BlockPath :: "string \<Rightarrow> string" where
  "BlockPath prefix = Join [DataPath prefix, ''block'']"

definition IndexPath :: "string \<Rightarrow> string" where
  "IndexPath prefix = Join [DataPath prefix, ''index'']"

definition SnapshotPath :: "string \<Rightarrow> string" where
  "SnapshotPath prefix = Join [RootPath prefix, ''snapshots'']"

section \<open>One element below a directory\<close>

text \<open>An element that \<open>Clean\<close> leaves alone.\<close>

definition plain_elem :: "string \<Rightarrow> bool" where
  "plain_elem w \<longleftrightarrow> w \<noteq> [] \<and> w \<noteq> ''.'' \<and> w \<noteq> ''..'' \<and> slash \<notin> set w"

lemma clean_elems_snoc:
  "plain_elem w \<Longrightarrow> clean_elems rooted acc (ws @ [w]) = clean_elems rooted acc ws @ [w]"
proof (induction ws arbitrary: acc)
  case Nil
  then show ?case by (simp add: plain_elem_def)
next
  case (Cons x ws)
  then show ?case by (cases acc) auto
qed

text \<open>What \<open>Clean\<close> makes of a directory, as a prefix of the paths below it.\<close>

definition below :: "string \<Rightarrow> string" where
  "below path =
    (let rooted = (path \<noteq> [] \<and> hd path = slash);
         es = clean_elems rooted [] (split_char slash path)
     in (if rooted then [slash] else []) @ (if es = [] then [] else join_with slash es @ [slash]))"

lemma Clean_below:
  assumes "path \<noteq> []" and "plain_elem w"
  shows "Clean (path @ slash # w) = below path @ w"
proof -
  have "split_char slash (path @ slash # w) = split_char slash path @ [w]"
    using assms(2) by (simp add: split_char_append split_char_no_sep plain_elem_def)
  then have "clean_elems r [] (split_char slash (path @ slash # w)) =
      clean_elems r [] (split_char slash path) @ [w]" for r
    using clean_elems_snoc [OF assms(2)] by simp
  then show ?thesis
    using assms by (simp add: Clean_def below_def Let_def join_with_snoc plain_elem_def)
qed

lemma Join_below:
  assumes "path \<noteq> []" and "plain_elem w"
  shows "Join [path, w] = below path @ w"
  using Clean_below [OF assms] assms by (simp add: Join_def)

lemma below_snoc:
  assumes "path \<noteq> []" and "plain_elem w"
  shows "below (path @ slash # w) = below path @ w @ [slash]"
proof -
  have "split_char slash (path @ slash # w) = split_char slash path @ [w]"
    using assms(2) by (simp add: split_char_append split_char_no_sep plain_elem_def)
  then show ?thesis
    using assms clean_elems_snoc [OF assms(2)] by (simp add: below_def Let_def join_with_snoc)
qed

lemma Join_nonempty:
  assumes "plain_elem w"
  shows "Join [path, w] \<noteq> []"
proof (cases "path = []")
  case True
  have "clean_elems False [] [w] = [w]" using clean_elems_snoc [OF assms, of False "[]" "[]"] by simp
  moreover have "hd w \<noteq> slash" using assms by (cases w) (auto simp: plain_elem_def)
  ultimately have "Clean w = w"
    using assms by (simp add: Clean_def split_char_no_sep plain_elem_def)
  with True assms show ?thesis by (simp add: Join_def plain_elem_def)
next
  case False
  then show ?thesis using Join_below [OF False assms] assms by (simp add: plain_elem_def)
qed

lemma Join_inject:
  assumes "path \<noteq> []" and "plain_elem v" and "plain_elem w"
  shows "Join [path, v] = Join [path, w] \<longleftrightarrow> v = w"
  using assms by (simp add: Join_below)

lemma plain_names [simp]:
  "plain_elem ''data''" "plain_elem ''meta.bolt''" "plain_elem ''raft''" "plain_elem ''block''"
  "plain_elem ''index''" "plain_elem ''snapshots''"
  by (simp_all add: plain_elem_def slash_def)

lemma paths_nonempty [simp]: "DataPath prefix \<noteq> []" "BlockPath prefix \<noteq> []" "IndexPath prefix \<noteq> []"
  by (simp_all add: DataPath_def BlockPath_def IndexPath_def Join_nonempty)

end
