(* ===== verification/Lifecycle.thy ===== *)
theory Lifecycle
  imports StateMachine Dir
begin

text \<open>
  How the state machine comes up and goes down: \<^verbatim>\<open>OpenShard\<close>, \<^verbatim>\<open>openOrCreateBleve\<close>, \<^verbatim>\<open>Open\<close> and
  \<^verbatim>\<open>Close\<close>.
\<close>

section \<open>Opening\<close>

text \<open>
  The file system and the two libraries as opening sees them: whether a path is missing, and the
  handles the libraries return for a path.
\<close>

record ('db, 'ix) opener =
  opMissing :: "string \<Rightarrow> bool"
  opNewIndex :: "string \<Rightarrow> gerror + 'ix"
  opOpenIndex :: "string \<Rightarrow> gerror + 'ix"
  opOpenBolt :: "string \<Rightarrow> gerror + 'db"

definition openOrCreateBleve :: "('db, 'ix) opener \<Rightarrow> string \<Rightarrow> gerror + 'ix" where
  "openOrCreateBleve P partitionPath =
    (if opMissing P partitionPath then opNewIndex P partitionPath
     else opOpenIndex P partitionPath)"

definition OpenShard ::
  "('db, 'ix) opener \<Rightarrow> string \<Rightarrow> string \<Rightarrow> gerror + ('db, 'ix) Shard" where
  "OpenShard P prefix c =
    (let blevePath = Join [IndexPath prefix, c] in
     case openOrCreateBleve P blevePath of
       Inl err \<Rightarrow> Inl err
     | Inr index \<Rightarrow>
        (let boltPath = Join [BlockPath prefix, c] in
         case opOpenBolt P boltPath of
           Inl err \<Rightarrow> Inl err
         | Inr block \<Rightarrow> Inr \<lparr>shIndex = index, shBlock = block\<rparr>))"

fun openShards ::
  "('db, 'ix) opener \<Rightarrow> string \<Rightarrow> string \<Rightarrow> ('db, 'ix) ByStateMachine \<Rightarrow>
    ('db, 'ix) ByStateMachine \<times> gerror option" where
  "openShards P prefix [] s = (s, None)"
| "openShards P prefix (c # cs) s =
    (case OpenShard P prefix [c] of
       Inl err \<Rightarrow> (s, Some err)
     | Inr shard \<Rightarrow> openShards P prefix cs (s\<lparr>shardMap := (shardMap s)(byte_of c \<mapsto> shard)\<rparr>))"

definition openShardMap ::
  "('db, 'ix) opener \<Rightarrow> string \<Rightarrow> ('db, 'ix) ByStateMachine \<Rightarrow>
    ('db, 'ix) ByStateMachine \<times> gerror option" where
  "openShardMap P prefix s = openShards P prefix alphabet s"

definition NewByStateMachine :: "('db, 'ix) ByStateMachine" where
  "NewByStateMachine = \<lparr>shardMap = Map.empty, metaDb = None, lastIndex = 0, pending = []\<rparr>"

definition openMetaDb ::
  "('db, 'ix) opener \<Rightarrow> string \<Rightarrow> ('db, 'ix) ByStateMachine \<Rightarrow>
    ('db, 'ix) ByStateMachine \<times> gerror option" where
  "openMetaDb P prefix s =
    (case opOpenBolt P (MetaDbPath prefix) of
       Inl err \<Rightarrow> (s, Some err)
     | Inr meta \<Rightarrow> (s\<lparr>metaDb := Some meta\<rparr>, None))"

definition ensureThatMetadbBucketExists ::
  "('db, 'ix) libs \<Rightarrow> ('db, 'ix) ByStateMachine \<Rightarrow>
    (('db, 'ix) ByStateMachine \<times> gerror option) outcome" where
  "ensureThatMetadbBucketExists L s =
    (case metaDb s of
       None \<Rightarrow> Panic NilDeref
     | Some meta \<Rightarrow> Done
        (case boltUpdate (libBolt L) meta (\<lambda>db. txCreateBucketIfNotExists (libBolt L) db metaBucket) of
           Inl err \<Rightarrow> (s, Some err)
         | Inr meta' \<Rightarrow> (s\<lparr>metaDb := Some meta'\<rparr>, None)))"

definition Open ::
  "('db, 'ix) libs \<Rightarrow> ('db, 'ix) opener \<Rightarrow> string \<Rightarrow> ('db, 'ix) ByStateMachine \<Rightarrow>
    (('db, 'ix) ByStateMachine \<times> u64 \<times> gerror option) outcome" where
  "Open L P prefix s =
    (case openShardMap P prefix s of
       (s1, Some err) \<Rightarrow> Done (s1, 0, Some err)
     | (s1, None) \<Rightarrow>
        (case openMetaDb P prefix s1 of
           (s2, Some err) \<Rightarrow> Done (s2, 0, Some err)
         | (s2, None) \<Rightarrow>
            and_then (ensureThatMetadbBucketExists L s2) (\<lambda>(s3, err).
              case err of
                Some x \<Rightarrow> Done (s3, 0, Some x)
              | None \<Rightarrow> getLastUpdateIndex L s3)))"

section \<open>Closing\<close>

text \<open>
  The handles are closed in turn; a shard that was never opened is a nil dereference. The errors of
  closing the shards are dropped, the one of the meta database is returned.
\<close>

fun closeShards :: "('db, 'ix) ByStateMachine \<Rightarrow> rune list \<Rightarrow> unit outcome" where
  "closeShards s [] = Done ()"
| "closeShards s (c # cs) =
    (case shardMap s c of None \<Rightarrow> Panic NilDeref | Some shard \<Rightarrow> closeShards s cs)"

definition closeShardMap :: "('db, 'ix) ByStateMachine \<Rightarrow> unit outcome" where
  "closeShardMap s = closeShards s alphabet_runes"

definition CloseSM ::
  "('db, 'ix) libs \<Rightarrow> ('db, 'ix) ByStateMachine \<Rightarrow>
    (('db, 'ix) ByStateMachine \<times> gerror option) outcome" where
  "CloseSM L s =
    (case metaDb s of
       None \<Rightarrow> Panic NilDeref
     | Some meta \<Rightarrow>
        and_then (closeShardMap s) (\<lambda>_. Done (s\<lparr>metaDb := None\<rparr>, dbClose (libBolt L) meta)))"

section \<open>What opening gives\<close>

lemma openShards_ok:
  "openShards P prefix cs s = (s', None) \<Longrightarrow>
    s' = s\<lparr>shardMap := shardMap s'\<rparr> \<and>
    (\<forall>c \<in> set cs. \<exists>sh. OpenShard P prefix [c] = Inr sh \<and> shardMap s' (byte_of c) = Some sh) \<and>
    (\<forall>r. r \<notin> byte_of ` set cs \<longrightarrow> shardMap s' r = shardMap s r)"
proof (induction cs arbitrary: s)
  case Nil
  then show ?case by simp
next
  case (Cons c cs)
  then obtain sh where sh: "OpenShard P prefix [c] = Inr sh"
      "openShards P prefix cs (s\<lparr>shardMap := (shardMap s)(byte_of c \<mapsto> sh)\<rparr>) = (s', None)"
    by (auto split: sum.splits)
  from Cons.IH [OF sh(2)] have IH:
    "s' = (s\<lparr>shardMap := (shardMap s)(byte_of c \<mapsto> sh)\<rparr>)\<lparr>shardMap := shardMap s'\<rparr>"
    "\<forall>c \<in> set cs. \<exists>sh. OpenShard P prefix [c] = Inr sh \<and> shardMap s' (byte_of c) = Some sh"
    "\<forall>r. r \<notin> byte_of ` set cs \<longrightarrow> shardMap s' r = ((shardMap s)(byte_of c \<mapsto> sh)) r"
    by auto
  have "shardMap s' (byte_of c) = Some sh"
  proof (cases "c \<in> set cs")
    case True
    with IH(2) sh(1) show ?thesis by auto
  next
    case False
    then have "byte_of c \<notin> byte_of ` set cs" by auto
    with IH(3) show ?thesis by simp
  qed
  with IH sh(1) show ?case by auto
qed

lemma set_alphabet_runes: "set alphabet_runes = byte_of ` set alphabet"
  by (simp add: alphabet_runes_def)

lemma plain_letter: "c \<in> set alphabet \<Longrightarrow> plain_elem [c]"
  by (auto simp: alphabet_def plain_elem_def slash_def)

lemma openShardMap_new:
  assumes "openShardMap P prefix NewByStateMachine = (s, None)"
  shows "dom (shardMap s) = set alphabet_runes" and "pending s = []"
    and "\<forall>c \<in> set alphabet. \<exists>sh. OpenShard P prefix [c] = Inr sh \<and> shardMap s (byte_of c) = Some sh"
proof -
  note ok = openShards_ok [OF assms [unfolded openShardMap_def]]
  then show "\<forall>c \<in> set alphabet. \<exists>sh. OpenShard P prefix [c] = Inr sh \<and> shardMap s (byte_of c) = Some sh"
    by blast
  from ok have "s = NewByStateMachine\<lparr>shardMap := shardMap s\<rparr>" by blast
  then have "pending s = pending (NewByStateMachine\<lparr>shardMap := shardMap s\<rparr>)" by (rule arg_cong)
  then show "pending s = []" by (simp add: NewByStateMachine_def)
  have "shardMap s r \<noteq> None \<longleftrightarrow> r \<in> byte_of ` set alphabet" for r
  proof (cases "r \<in> byte_of ` set alphabet")
    case True
    with ok show ?thesis by auto
  next
    case False
    with ok show ?thesis by (simp add: NewByStateMachine_def)
  qed
  then show "dom (shardMap s) = set alphabet_runes" by (auto simp: set_alphabet_runes)
qed

lemma getLastUpdateIndex_state:
  "getLastUpdateIndex L s = Done (s', i, err) \<Longrightarrow> s' = s\<lparr>lastIndex := i\<rparr>"
  by (auto simp: getLastUpdateIndex_def Let_def split: option.splits prod.splits)

section \<open>What closing needs\<close>

lemma closeShards_iff: "closeShards s cs = Done () \<longleftrightarrow> (\<forall>c \<in> set cs. shardMap s c \<noteq> None)"
  by (induction cs) (auto split: option.split)

lemma CloseSM_open:
  assumes "metaDb s = Some meta" and "set alphabet_runes \<subseteq> dom (shardMap s)"
  shows "CloseSM L s = Done (s\<lparr>metaDb := None\<rparr>, dbClose (libBolt L) meta)"
proof -
  have "closeShardMap s = Done ()"
    using assms(2) by (auto simp: closeShardMap_def closeShards_iff)
  with assms(1) show ?thesis by (simp add: CloseSM_def)
qed

end
