(* ===== verification/Example.thy ===== *)
theory Example
  imports History Lifecycle
begin

text \<open>
  A small database to evaluate the development on: the store and index in memory, a decoder that
  knows four texts, and the 36 empty shards that opening a new data directory gives.
\<close>

section \<open>Documents and libraries\<close>

definition exDoc :: "string \<Rightarrow> string \<Rightarrow> i64 \<Rightarrow> Document" where
  "exDoc p i ts = zeroDocument\<lparr>docPart := p, docId := i, docUpdated := ts\<rparr>"

definition textX7 :: string where
  "textX7 = ''{'' @ ''\"part\":\"a\",\"id\":\"x\",\"updated\":7'' @ ''}''"

definition textX8 :: string where
  "textX8 = ''{'' @ ''\"part\":\"a\",\"id\":\"x\",\"updated\":8'' @ ''}''"

definition textY7 :: string where
  "textY7 = ''{'' @ ''\"part\":\"a\",\"id\":\"y\",\"updated\":7'' @ ''}''"

definition textAB :: string where
  "textAB = ''{'' @ ''\"part\":\"ab\",\"id\":\"x\",\"updated\":7'' @ ''}''"

definition textN :: string where
  "textN = ''{'' @ ''\"part\":\"a\",\"id\":\"x\",\"updated\":-1'' @ ''}''"

lemmas text_defs = textX7_def textX8_def textY7_def textAB_def textN_def

definition exDecode :: json_decoder where
  "exDecode s =
    (if s = textX7 then Inr (exDoc ''a'' ''x'' 7)
     else if s = textX8 then Inr (exDoc ''a'' ''x'' 8)
     else if s = textY7 then Inr (exDoc ''a'' ''y'' 7)
     else if s = textAB then Inr (exDoc ''ab'' ''x'' 7)
     else if s = textN then Inr (exDoc ''a'' ''x'' (-1))
     else Inl (ErrLib ''invalid''))"

type_synonym ex_ix = "(string \<times> Document option) list"

definition exLibs :: "(mem_db, ex_ix) libs" where
  "exLibs = memLibs exDecode (\<lambda>ms. Inr ''[]'')"

lemma exLibs_simps [simp]:
  "libDecode exLibs = exDecode" "libBolt exLibs = memBolt" "libBleve exLibs = memBleve"
  by (simp_all add: exLibs_def)

lemma exDecode_texts [simp]:
  "exDecode textX7 = Inr (exDoc ''a'' ''x'' 7)" "exDecode textX8 = Inr (exDoc ''a'' ''x'' 8)"
  "exDecode textY7 = Inr (exDoc ''a'' ''y'' 7)" "exDecode textAB = Inr (exDoc ''ab'' ''x'' 7)"
  "exDecode textN = Inr (exDoc ''a'' ''x'' (-1))"
  by (simp_all add: exDecode_def text_defs)

lemma texts_nonempty [simp]: "textX7 \<noteq> []" "textX8 \<noteq> []" "textY7 \<noteq> []" "textAB \<noteq> []" "textN \<noteq> []"
  by (simp_all add: text_defs)

lemma exDoc_simps [simp]:
  "docPart (exDoc p i ts) = p" "docId (exDoc p i ts) = i" "docUpdated (exDoc p i ts) = ts"
  by (simp_all add: exDoc_def)

lemma reliable_exLibs: "reliable_libs exLibs"
  unfolding exLibs_def by (rule mem_libs.reliable_libs_axioms)

section \<open>The state of a new data directory\<close>

definition emptyShard :: "(mem_db, ex_ix) Shard" where
  "emptyShard = \<lparr>shIndex = [], shBlock = []\<rparr>"

definition exState :: "(mem_db, ex_ix) ByStateMachine" where
  "exState = \<lparr>shardMap = (\<lambda>c. if c \<in> set alphabet_runes then Some emptyShard else None),
     metaDb = Some [(metaBucket, [])], lastIndex = 0, pending = []\<rparr>"

definition exEntry :: "u64 \<Rightarrow> string \<Rightarrow> smEntry" where
  "exEntry i raw = \<lparr>enIndex = i, enCmd = raw, enValue = 0\<rparr>"

lemma exEntry_simps [simp]:
  "enIndex (exEntry i raw) = i" "enCmd (exEntry i raw) = raw" "enValue (exEntry i raw) = 0"
  by (simp_all add: exEntry_def)

lemma alphabet_runes_eq: "alphabet_runes =
    [97, 98, 99, 100, 101, 102, 103, 104, 105, 106, 107, 108, 109, 110, 111, 112, 113, 114, 115,
     116, 117, 118, 119, 120, 121, 122, 48, 49, 50, 51, 52, 53, 54, 55, 56, 57]"
  by (simp add: alphabet_runes_def alphabet_def)

lemma distinct_alphabet_runes: "distinct alphabet_runes"
  by (simp add: alphabet_runes_eq)

lemma dom_exState: "set alphabet_runes = dom (shardMap exState)"
  by (auto simp: exState_def dom_def)

lemma content_exState: "state_content exLibs exState = Map.empty"
  by (simp add: fun_eq_iff state_content_def exState_def shard_content_def emptyShard_def content_memBolt)

lemma exState_ok:
  "sm_inv exLibs exState" "db_view exLibs exState = Some Map.empty" "meta_ready exLibs exState"
  by (simp_all add: sm_inv_def db_view_def content_exState content_ok_def meta_ready_def)
    (simp_all add: exState_def)

section \<open>Commands\<close>

definition cmdCreate :: "string \<Rightarrow> Command" where
  "cmdCreate p = (newCommand (''CREATE_PART '' @ p))\<lparr>cmdType := CREATE_PART, cmdPart := p,
     cmdIsPart := True\<rparr>"

definition cmdDrop :: "string \<Rightarrow> Command" where
  "cmdDrop p = (newCommand (''DELETE_PART '' @ p))\<lparr>cmdType := DELETE_PART, cmdPart := p,
     cmdIsPart := True\<rparr>"

definition cmdPost :: "string \<Rightarrow> Document \<Rightarrow> Command" where
  "cmdPost b d = (newCommand (''POST '' @ b))\<lparr>cmdType := POST, cmdStringDoc := b, cmdBytesDoc := b,
     cmdDoc := Some d, cmdPart := docPart d, cmdId := docId d, cmdTs := docCreated d\<rparr>"

definition cmdPut7 :: "string \<Rightarrow> Document \<Rightarrow> Command" where
  "cmdPut7 b d = (newCommand (''PUT 7 '' @ b))\<lparr>cmdType := PUT, cmdStringDoc := b, cmdBytesDoc := b,
     cmdDoc := Some d, cmdPart := docPart d, cmdId := docId d, cmdTs := 7\<rparr>"

definition cmdDel7 :: "string \<Rightarrow> string \<Rightarrow> Command" where
  "cmdDel7 p i = (newCommand (''DEL '' @ p @ '' '' @ i @ '' 7''))\<lparr>cmdType := DEL, cmdPart := p,
     cmdId := i, cmdTs := 7\<rparr>"

definition cmdGet :: "string \<Rightarrow> string \<Rightarrow> Command" where
  "cmdGet p i = (newCommand (''GET '' @ p @ '' '' @ i))\<lparr>cmdType := GET, cmdPart := p, cmdId := i\<rparr>"

lemmas cmd_defs = cmdCreate_def cmdDrop_def cmdPost_def cmdPut7_def cmdDel7_def cmdGet_def
  newCommand_def

lemma braced_texts [simp]: "braced textX7" "braced textX8" "braced textY7" "braced textAB"
  by (simp_all add: braced_def text_defs)

lemma number_7: "number ''7''" "fits_int64 ''7''" "dec_val 0 ''7'' = 7"
  by (simp_all add: number_def fits_int64_def is_digit_def digit_val_def)

lemma parse_Create [simp]: "token p \<Longrightarrow> ParseCommand js (''CREATE_PART '' @ p) = Inr (cmdCreate p)"
  unfolding cmdCreate_def by (intro wire_parses wire.create) simp_all

lemma parse_Drop [simp]: "token p \<Longrightarrow> ParseCommand js (''DELETE_PART '' @ p) = Inr (cmdDrop p)"
  unfolding cmdDrop_def by (intro wire_parses wire.delete) simp_all

lemma parse_Post [simp]:
  "braced b \<Longrightarrow> js b = Inr d \<Longrightarrow> ParseCommand js (''POST '' @ b) = Inr (cmdPost b d)"
  unfolding cmdPost_def by (intro wire_parses wire.post) simp_all

lemma parse_Put7 [simp]:
  assumes "braced b" and "js b = Inr d"
  shows "ParseCommand js (''PUT 7 '' @ b) = Inr (cmdPut7 b d)"
  using wire_parses [OF wire.put [of "''PUT 7 '' @ b" "''7''" b js d]] assms number_7
  by (simp add: cmdPut7_def)

lemma parse_Del7 [simp]:
  assumes "token p" and "token i"
  shows "ParseCommand js (''DEL '' @ p @ '' '' @ i @ '' 7'') = Inr (cmdDel7 p i)"
  using wire_parses [OF wire.del [of "''DEL '' @ p @ '' '' @ i @ '' 7''" p i "''7''"]] assms number_7
  by (simp add: cmdDel7_def)

lemma parse_Get [simp]:
  "token p \<Longrightarrow> token i \<Longrightarrow> ParseCommand js (''GET '' @ p @ '' '' @ i) = Inr (cmdGet p i)"
  unfolding cmdGet_def by (intro wire_parses wire.get) simp_all

lemma tokens [simp]: "token ''a''" "token ''x''" "token ''y''" "token ''ab''"
  by (simp_all add: token_def is_space_def)

lemma runes [simp]: "getFirstRune ''a'' = 97" "getFirstRune ''ab'' = 97"
  by (simp_all add: getFirstRune_def)

section \<open>A state with a document\<close>

text \<open>Partition \<^verbatim>\<open>a\<close> exists and holds document \<^verbatim>\<open>x\<close>, with the given text.\<close>

definition shardWith :: "string \<Rightarrow> (mem_db, ex_ix) Shard" where
  "shardWith v = \<lparr>shIndex = [], shBlock = [(''a'', [(''a:x'', v)])]\<rparr>"

definition exWith :: "string \<Rightarrow> (mem_db, ex_ix) ByStateMachine" where
  "exWith v = exState\<lparr>shardMap := (shardMap exState)(97 \<mapsto> shardWith v)\<rparr>"

definition contentWith :: "string \<Rightarrow> content" where
  "contentWith v = [''a'' \<mapsto> [''a:x'' \<mapsto> v]]"

lemma exWith_simps [simp]:
  "pending (exWith v) = []" "lastIndex (exWith v) = 0" "metaDb (exWith v) = Some [(metaBucket, [])]"
  "shardMap (exWith v) = (shardMap exState)(97 \<mapsto> shardWith v)"
  by (simp_all add: exWith_def exState_def)

lemma dom_exWith: "set alphabet_runes = dom (shardMap (exWith v))"
  using dom_exState by (simp add: insert_absorb) (auto simp: alphabet_runes_eq)

lemma content_shardWith: "shard_content exLibs (shardWith v) = contentWith v"
  by (simp add: shard_content_def shardWith_def content_memBolt contentWith_def fun_eq_iff)

lemma content_exWith: "state_content exLibs (exWith v) = contentWith v"
proof
  fix p
  show "state_content exLibs (exWith v) p = contentWith v p"
  proof (cases "getFirstRune p = 97")
    case True
    then show ?thesis by (simp add: state_content_def content_shardWith)
  next
    case False
    then have "contentWith v p = None" by (auto simp: contentWith_def)
    with False content_exState show ?thesis by (simp add: state_content_def fun_eq_iff)
  qed
qed

lemma exWith_ok:
  assumes "exDecode v = Inr (exDoc ''a'' ''x'' ts)" and "v \<noteq> []"
  shows "sm_inv exLibs (exWith v)" "db_view exLibs (exWith v) = Some (contentWith v)"
    "meta_ready exLibs (exWith v)"
proof -
  have "content_ok exDecode (contentWith v)"
    using assms by (simp add: content_ok_def part_ok_def contentWith_def doc_key_def)
  then show "sm_inv exLibs (exWith v)" "db_view exLibs (exWith v) = Some (contentWith v)"
      "meta_ready exLibs (exWith v)"
    by (simp_all add: sm_inv_def db_view_def content_exWith meta_ready_def)
qed

text \<open>The document last updated at 7.\<close>

definition exStored :: "(mem_db, ex_ix) ByStateMachine" where
  "exStored = exWith textX7"

definition exContent :: content where
  "exContent = [''a'' \<mapsto> [''a:x'' \<mapsto> textX7]]"

lemma exContent_With: "contentWith textX7 = exContent"
  by (simp add: contentWith_def exContent_def)

lemma exStored_simps [simp]:
  "pending exStored = []" "lastIndex exStored = 0" "metaDb exStored = Some [(metaBucket, [])]"
  "shardMap exStored = (shardMap exState)(97 \<mapsto> shardWith textX7)"
  by (simp_all add: exStored_def)

lemma dom_exStored: "set alphabet_runes = dom (shardMap exStored)"
  unfolding exStored_def by (rule dom_exWith)

lemma content_exStored: "state_content exLibs exStored = exContent"
  unfolding exStored_def content_exWith by (rule exContent_With)

lemma exStored_ok:
  "sm_inv exLibs exStored" "db_view exLibs exStored = Some exContent" "meta_ready exLibs exStored"
  using exWith_ok [of textX7 7] by (simp_all add: exStored_def exContent_With)

lemma content_ok_exContent: "content_ok exDecode exContent"
  using exStored_ok(1) by (simp add: sm_inv_def content_exStored)

section \<open>Steps\<close>

lemma run_inv_exState: "run_inv exLibs exState"
  using exState_ok by (simp add: run_inv_def) (simp add: exState_def)

lemma ex_parsed: "map (\<lambda>en. ParseCommand (libDecode exLibs) (enCmd en))
    [exEntry 1 (''CREATE_PART '' @ ''a'')] = map Inr [cmdCreate ''a'']"
  using parse_Create [of "''a''" exDecode] by simp

lemma ex_safe: "batch_safe exState [cmdCreate ''a'']"
  by (simp add: batch_safe_def batch_seen_def one_search_def none_deleted_def exState_def findCommandInPending_def
      cmd_defs part_rune_def type_defs alphabet_runes_eq)

lemma ex_code: "spec_run exDecode [cmdCreate ''a''] Map.empty = ([200], [''a'' \<mapsto> Map.empty])"
  by (simp add: spec_code_def spec_effect_def sees_def cmd_defs apply_command_def)

text \<open>Creating a partition, and syncing before or after it.\<close>

lemma ex_wrote:
  assumes "run_inv exLibs s" and "db_view exLibs s = Some Map.empty"
    and "shardMap s 97 \<noteq> None" and "pending s = []" and "set alphabet_runes = dom (shardMap s)"
  shows "\<exists>s'. sm_step exLibs s (Wrote [cmdCreate ''a''] [200]) s'"
proof -
  have "batch_safe s [cmdCreate ''a'']" "list_all storable [cmdCreate ''a'']"
    using assms(3,4)
    by (simp_all add: batch_safe_def batch_seen_def one_search_def none_deleted_def findCommandInPending_def
        cmd_defs part_rune_def type_defs storable_def FullId_def max_key_size_def max_value_size_def)
  from reliable_libs.wrote_possible [OF reliable_exLibs assms(1,2) distinct_alphabet_runes assms(5)
      ex_parsed this]
  show ?thesis by (simp only: exLibs_simps ex_code fst_conv)
qed

lemma ex_run_late: "\<exists>s'. runs (sm_step exLibs) exState [Wrote [cmdCreate ''a''] [200], Synced] s'"
proof -
  have "shardMap exState 97 \<noteq> None" "pending exState = []"
    using dom_exState by (auto simp: alphabet_runes_eq exState_def)
  then obtain s1 where s1: "sm_step exLibs exState (Wrote [cmdCreate ''a''] [200]) s1"
    using ex_wrote [OF run_inv_exState exState_ok(2) _ _ dom_exState] by blast
  then have "run_inv exLibs s1"
    using reliable_libs.run_refines [OF reliable_exLibs run_inv_exState exState_ok(2),
        of "[Wrote [cmdCreate ''a''] [200]]" s1] by simp
  moreover have "set alphabet_runes = dom (shardMap s1)"
    using reliable_libs.step_dom [OF reliable_exLibs run_inv_exState s1] dom_exState by simp
  ultimately obtain s2 where "sm_step exLibs s1 Synced s2"
    using reliable_libs.synced_possible [OF reliable_exLibs _ distinct_alphabet_runes] by blast
  with s1 show ?thesis by auto
qed

lemma ex_run_early: "\<exists>s'. runs (sm_step exLibs) exState [Synced, Wrote [cmdCreate ''a''] [200]] s'"
proof -
  have "\<forall>e \<in> set (pending exState). storable (ueCmd e)" by (simp add: exState_def)
  from reliable_libs.Sync_flushes [OF reliable_exLibs exState_ok this distinct_alphabet_runes dom_exState]
  obtain s1 where sync: "Sync exLibs alphabet_runes exState = Done (s1, None)"
    and s1: "pending s1 = []" "db_view exLibs s1 = Some Map.empty" "sm_inv exLibs s1"
      "meta_ready exLibs s1" "dom (shardMap s1) = dom (shardMap exState)"
    by blast
  then have step: "sm_step exLibs exState Synced s1"
    using sm_step.synced [OF distinct_alphabet_runes dom_exState] by blast
  have dom: "set alphabet_runes = dom (shardMap s1)" using s1(5) dom_exState by simp
  have "97 \<in> dom (shardMap s1)" unfolding dom [symmetric] by (simp add: alphabet_runes_eq)
  moreover have "run_inv exLibs s1" using s1 by (simp add: run_inv_def)
  ultimately show ?thesis using ex_wrote [OF _ s1(2) _ s1(1) dom] step by auto
qed

text \<open>Deleting the stored document, a sync, and a read.\<close>

lemma run_inv_exStored: "run_inv exLibs exStored"
  using exStored_ok by (simp add: run_inv_def)

lemma ex_del_code: "fst (spec_run exDecode [cmdDel7 ''a'' ''x''] exContent) = [200]"
  by (simp add: spec_code_def sees_def cmd_defs exContent_def FullId_def stored_updated_def)

lemma ex_del_from:
  assumes "run_inv exLibs s" and "db_view exLibs s = Some exContent" and "pending s = []"
    and "set alphabet_runes = dom (shardMap s)"
  shows "\<exists>s'. sm_step exLibs s (Wrote [cmdDel7 ''a'' ''x''] [200]) s'"
proof -
  have parsed: "map (\<lambda>en. ParseCommand (libDecode exLibs) (enCmd en))
      [exEntry 1 (''DEL '' @ ''a'' @ '' '' @ ''x'' @ '' 7'')] = map Inr [cmdDel7 ''a'' ''x'']"
    using parse_Del7 [of "''a''" "''x''" exDecode] by simp
  have "97 \<in> dom (shardMap s)" unfolding assms(4) [symmetric] by (simp add: alphabet_runes_eq)
  with assms(3) have "batch_safe s [cmdDel7 ''a'' ''x'']" "list_all storable [cmdDel7 ''a'' ''x'']"
    by (auto simp: batch_safe_def batch_seen_def one_search_def none_deleted_def findCommandInPending_def
        cmd_defs part_rune_def type_defs storable_def FullId_def max_key_size_def max_value_size_def)
  from reliable_libs.wrote_possible [OF reliable_exLibs assms(1,2) distinct_alphabet_runes assms(4) parsed this]
  show ?thesis by (simp only: exLibs_simps ex_del_code)
qed

lemma ex_del: "\<exists>s'. sm_step exLibs exStored (Wrote [cmdDel7 ''a'' ''x''] [200]) s'"
  by (rule ex_del_from [OF run_inv_exStored exStored_ok(2) _ dom_exStored]) simp

lemma ex_run_delete: "\<exists>s' r. runs (sm_step exLibs) exStored
    (Wrote [cmdDel7 ''a'' ''x''] [200] # [Synced] @ [Read (cmdGet ''a'' ''x'') r]) s'"
proof -
  obtain s1 where s1: "sm_step exLibs exStored (Wrote [cmdDel7 ''a'' ''x''] [200]) s1"
    using ex_del by blast
  then have inv1: "run_inv exLibs s1"
    using reliable_libs.run_refines [OF reliable_exLibs run_inv_exStored exStored_ok(2),
        of "[Wrote [cmdDel7 ''a'' ''x''] [200]]" s1] by simp
  have dom1: "set alphabet_runes = dom (shardMap s1)"
    using reliable_libs.step_dom [OF reliable_exLibs run_inv_exStored s1] dom_exStored by simp
  obtain m1 where "db_view exLibs s1 = Some m1" using inv1 by (auto simp: run_inv_def sm_inv_def)
  with inv1 reliable_libs.Sync_flushes [OF reliable_exLibs, of s1 m1 alphabet_runes]
    distinct_alphabet_runes dom1
  obtain s2 where s2: "Sync exLibs alphabet_runes s1 = Done (s2, None)" "pending s2 = []"
      "sm_inv exLibs s2" "dom (shardMap s2) = dom (shardMap s1)"
    by (auto simp: run_inv_def list_all_iff)
  have "97 \<in> dom (shardMap s2)" unfolding s2(4) dom1 [symmetric] by (simp add: alphabet_runes_eq)
  then have "shardMap s2 97 \<noteq> None" by auto
  moreover have "content_ok exDecode (state_content exLibs s2)" using s2(3) by (simp add: sm_inv_def)
  ultimately have "LookupGetRequestInState exLibs s2 (cmdGet ''a'' ''x'') =
      Inr (view_answer (state_content exLibs s2) (cmdGet ''a'' ''x''))"
    by (intro in_state_answer) (simp_all add: fun_eq_iff cmd_defs)
  with s2(2) \<open>shardMap s2 97 \<noteq> None\<close>
  have "sm_step exLibs s2 (Read (cmdGet ''a'' ''x'') (view_answer (state_content exLibs s2) (cmdGet ''a'' ''x''))) s2"
    by (intro sm_step.read)
      (simp_all add: LookupGetRequest_def not_recreated_def findCommandInPending_def cmd_defs part_rune_def)
  with s1 sm_step.synced [OF distinct_alphabet_runes dom1 s2(1)] show ?thesis by auto
qed

end
