(* ===== verification/Machine.thy ===== *)
theory Machine
  imports Example
begin

text \<open>
  The properties of the replicated state machine: a batch against the contract, \<open>Sync\<close>, reads,
  runs, replicas, and the order in which Go walks through the map of shards.
\<close>

section \<open>Batches\<close>

text \<open>C1: A safe batch refines the contract, on a state with any queue that the invariant allows, over libraries
  that work. Safe means: every command parses as one that alters the database and its partition has a shard;
  no two commands meet (they are of different partitions, or of different documents by neither the creation
  nor the deletion of a partition); none finds a \<open>DEL\<close> as the newest queued command it meets; and of the
  commands that fall to one shard, either each meets something in the queue, or none meets the creation or
  deletion of a partition there. Then \<open>Update\<close> returns without error, in whatever order the shards are walked
  through, answers every entry with the code of the contract, in log order, moves the view of the
  database as the contract says, and keeps the invariant. \<open>Anomalies\<close> shows that none of it holds without.\<close>

theorem Update_refines:
  assumes "reliable_libs L" and "sm_inv L s" and "db_view L s = Some m"
    and "distinct order" and "set order = dom (shardMap s)"
    and "map (\<lambda>en. ParseCommand (libDecode L) (enCmd en)) ups = map Inr cmds"
    and "batch_safe s cmds"
  shows "\<exists>s' ups'. Update L order s ups = Done (s', ups', None) \<and>
    (map enValue ups', the (db_view L s')) = spec_run (libDecode L) cmds m \<and> sm_inv L s'"
proof -
  obtain s' ups' where run: "Update L order s ups = Done (s', ups', None)"
    using Update_gets_through [OF reliable_libs.begin_ok [OF assms(1)] assms(2,4,6)] by blast
  from Update_refines_contract [OF assms(2-7) run] run show ?thesis
    by (simp add: prod_eq_iff)
qed

theorem Update_refines_witness:
  "\<exists>s' ups'. Update exLibs alphabet_runes exState [exEntry 1 (''CREATE_PART '' @ ''a'')] =
      Done (s', ups', None) \<and>
    (map enValue ups', the (db_view exLibs s')) = spec_run exDecode [cmdCreate ''a''] Map.empty \<and>
    sm_inv exLibs s'"
  using Update_refines [OF reliable_exLibs exState_ok(1,2) distinct_alphabet_runes dom_exState
      ex_parsed ex_safe]
  by (simp only: exLibs_simps)

text \<open>C14: A batch of one \<open>PUT\<close> whose partition has a shard and whose newest queued command, if the queue has
  one that meets it, is not a \<open>DEL\<close> (to which every parsed \<open>DEL\<close> lends its zero document), is accepted
  exactly if its document is in the view with the time stamp the command names; then the view holds the
  new text, and otherwise the view does not change.\<close>

theorem Update_PUT_optimistic:
  assumes "reliable_libs L" and "sm_inv L s" and "db_view L s = Some m"
    and "distinct order" and "set order = dom (shardMap s)"
    and "ParseCommand (libDecode L) raw = Inr c" and "batch_safe s [c]" and "cmdType c = PUT"
  shows "\<exists>s' en'. Update L order s [\<lparr>enIndex = i, enCmd = raw, enValue = v\<rparr>] = Done (s', [en'], None) \<and>
    (if \<exists>old d. sees m c = (True, Some old) \<and> libDecode L old = Inr d \<and> docUpdated d = cmdTs c
     then enValue en' = 200 \<and> the (db_view L s') = m(cmdPart c \<mapsto> (the (m (cmdPart c)))(FullId c \<mapsto> cmdBytesDoc c))
     else enValue en' \<noteq> 200 \<and> db_view L s' = Some m)"
proof -
  let ?ups = "[\<lparr>enIndex = i, enCmd = raw, enValue = v\<rparr>]"
  have parsed: "map (\<lambda>en. ParseCommand (libDecode L) (enCmd en)) ?ups = map Inr [c]"
    using assms(6) by simp
  obtain s' ups' where run: "Update L order s ?ups = Done (s', ups', None)"
    using Update_gets_through [OF reliable_libs.begin_ok [OF assms(1)] assms(2,4) parsed] by blast
  note ref = Update_refines_contract(1,2) [OF assms(2-5) parsed assms(7) run]
  obtain en' where en': "ups' = [en']" using arg_cong [OF ref(1), of length] by (auto simp: length_Suc_conv split_beta)
  let ?stored = "\<exists>old d. sees m c = (True, Some old) \<and> libDecode L old = Inr d \<and> docUpdated d = cmdTs c"
  have code: "spec_code (libDecode L) c m = 200 \<longleftrightarrow> ?stored"
    using assms(8) by (auto simp: spec_code_def stored_updated_def split: prod.splits bool.splits option.splits sum.splits)
  show ?thesis
  proof (cases ?stored)
    case True
    then have "the (apply_command c m) = m(cmdPart c \<mapsto> (the (m (cmdPart c)))(FullId c \<mapsto> cmdBytesDoc c))"
      using assms(8) by (auto simp: apply_command_def type_defs sees_def Let_def split: option.splits)
    with True code run ref en' show ?thesis by (auto simp: split_beta spec_effect_def)
  next
    case False
    with False code run ref en' show ?thesis by (auto simp: split_beta spec_effect_def)
  qed
qed

theorem Update_PUT_optimistic_witness:
  "\<exists>s' en'. Update exLibs alphabet_runes exStored [\<lparr>enIndex = 1, enCmd = ''PUT 7 '' @ textX8, enValue = 0\<rparr>] =
      Done (s', [en'], None) \<and>
    enValue en' = 200 \<and> the (db_view exLibs s') = [''a'' \<mapsto> [''a:x'' \<mapsto> textX8]]"
proof -
  let ?c = "cmdPut7 textX8 (exDoc ''a'' ''x'' 8)"
  have parsed: "ParseCommand (libDecode exLibs) (''PUT 7 '' @ textX8) = Inr ?c"
    using parse_Put7 [of textX8 exDecode] by simp
  have safe: "batch_safe exStored [?c]"
    by (simp add: batch_safe_def batch_seen_def one_search_def none_deleted_def findCommandInPending_def
        cmd_defs part_rune_def type_defs)
  have put: "cmdType ?c = PUT" by (simp add: cmd_defs)
  have "sees exContent ?c = (True, Some textX7)" "m(cmdPart ?c \<mapsto> b) = m(''a'' \<mapsto> b)"
    "FullId ?c = ''a:x''" "cmdBytesDoc ?c = textX8" "cmdTs ?c = 7" for m :: content and b
    by (simp_all add: sees_def exContent_def cmd_defs FullId_def)
  moreover from this have "exContent(cmdPart ?c \<mapsto> (the (exContent (cmdPart ?c)))(''a:x'' \<mapsto> textX8)) =
      [''a'' \<mapsto> [''a:x'' \<mapsto> textX8]]"
    by (simp add: cmd_defs exContent_def)
  ultimately show ?thesis
    using Update_PUT_optimistic [OF reliable_exLibs exStored_ok(1,2) distinct_alphabet_runes
        dom_exStored parsed safe put, of 1 0] by simp
qed

section \<open>Sync\<close>

text \<open>C6: \<open>Sync\<close> over libraries that work neither panics nor fails. Afterwards the queue is empty and
  the shards hold what the view was; the index in the meta database is the largest of the queue and
  the index before, and reading it back gives that number.\<close>

theorem Sync_makes_durable:
  assumes "reliable_libs L" and "sm_inv L s" and "db_view L s = Some m" and "meta_ready L s"
    and "\<forall>e \<in> set (pending s). storable (ueCmd e)" and "distinct order"
    and "set order = dom (shardMap s)"
  shows "\<exists>s'. Sync L order s = Done (s', None) \<and> pending s' = [] \<and> state_content L s' = m \<and>
    lastIndex s' = Max (insert (lastIndex s) (ueIndex ` set (pending s))) \<and>
    stored_index L s' = Done (lastIndex s', None) \<and> sm_inv L s'"
  using reliable_libs.Sync_flushes [OF assms(1-7)] by blast

definition exQueued :: "(mem_db, ex_ix) ByStateMachine" where
  "exQueued = exStored\<lparr>lastIndex := 4, pending :=
     [\<lparr>ueEntry = None, ueCmd = cmdDel7 ''a'' ''x'', ueExistingDoc = Some (exDoc ''a'' ''x'' 7),
       uePartExists = True, ueIndex = 9, ueShardId = 97\<rparr>]\<rparr>"

lemma exQueued_simps [simp]:
  "shardMap exQueued = shardMap exStored" "metaDb exQueued = metaDb exStored" "lastIndex exQueued = 4"
  "pending exQueued = [\<lparr>ueEntry = None, ueCmd = cmdDel7 ''a'' ''x'', ueExistingDoc = Some (exDoc ''a'' ''x'' 7),
       uePartExists = True, ueIndex = 9, ueShardId = 97\<rparr>]"
  by (simp_all add: exQueued_def)

lemma view_exQueued: "db_view exLibs exQueued = Some [''a'' \<mapsto> Map.empty]"
proof -
  have "state_content exLibs exQueued = exContent"
    using content_exStored by (simp add: state_content_def fun_eq_iff)
  then show ?thesis
    by (simp add: db_view_def apply_strict_def apply_command_def type_defs cmd_defs exContent_def
        FullId_def fun_eq_iff)
qed

lemma exQueued_ok: "sm_inv exLibs exQueued" "meta_ready exLibs exQueued"
    "\<forall>e \<in> set (pending exQueued). storable (ueCmd e)"
proof -
  have "state_content exLibs exQueued = exContent"
    using content_exStored by (simp add: state_content_def fun_eq_iff)
  then show "sm_inv exLibs exQueued"
    using view_exQueued content_ok_exContent
    by (simp add: sm_inv_def queued_ok_def wf_command_def in_own_shard_def cmd_defs type_defs)
  show "meta_ready exLibs exQueued" "\<forall>e \<in> set (pending exQueued). storable (ueCmd e)"
    using exStored_ok(3)
    by (simp_all add: meta_ready_def storable_def cmd_defs FullId_def max_key_size_def max_value_size_def)
qed

theorem Sync_makes_durable_witness:
  "\<exists>s'. Sync exLibs alphabet_runes exQueued = Done (s', None) \<and> pending s' = [] \<and>
    state_content exLibs s' = [''a'' \<mapsto> Map.empty] \<and> lastIndex s' = 9"
proof -
  have "set alphabet_runes = dom (shardMap exQueued)" using dom_exStored by simp
  from Sync_makes_durable [OF reliable_exLibs exQueued_ok(1) view_exQueued exQueued_ok(2,3)
      distinct_alphabet_runes this]
  show ?thesis by auto
qed

section \<open>Reads\<close>

lemma GET_answers:
  assumes "reliable_libs L" and "sm_inv L s" and "db_view L s = Some m"
    and "ParseCommand (libDecode L) raw = Inr c" and "cmdType c = GET"
    and "shardMap s (part_rune c) \<noteq> None" and "not_recreated L s c"
  shows "Lookup L s raw = Done (Inr (view_answer m c))"
proof -
  have "txBegin (libBolt L) = (\<lambda>db. None)"
    using reliable_libs.begin_ok [OF assms(1)] by (simp add: fun_eq_iff)
  from get_reads_view [OF this assms(2,3) _ assms(7)] assms(4-6)
  show ?thesis by (simp add: Lookup_def part_rune_def)
qed

text \<open>C12: A \<open>GET\<close> answers from the view, queued commands included: the text that the view holds, or
  404. The exception is stated: the newest queued command that meets the document re-creates a
  partition whose old document the shard still holds.\<close>

theorem Lookup_GET_reads_view:
  assumes "reliable_libs L" and "sm_inv L s" and "db_view L s = Some m"
    and "ParseCommand (libDecode L) raw = Inr c" and "cmdType c = GET"
    and "shardMap s (part_rune c) \<noteq> None" and "not_recreated L s c"
  shows "Lookup L s raw = Done (Inr (view_answer m c))"
  by (rule GET_answers [OF assms])

theorem Lookup_GET_reads_view_witness:
  "Lookup exLibs exQueued (''GET '' @ ''a'' @ '' '' @ ''x'') = Done (Inr NotFound)"
proof -
  have "ParseCommand (libDecode exLibs) (''GET '' @ ''a'' @ '' '' @ ''x'') = Inr (cmdGet ''a'' ''x'')"
    using parse_Get [of "''a''" "''x''" exDecode] by simp
  moreover have "cmdType (cmdGet ''a'' ''x'') = GET" "part_rune (cmdGet ''a'' ''x'') = 97"
      "cmdPart (cmdGet ''a'' ''x'') = ''a''" "FullId (cmdGet ''a'' ''x'') = ''a:x''"
    by (simp_all add: cmd_defs part_rune_def FullId_def)
  moreover have "not_recreated exLibs exQueued (cmdGet ''a'' ''x'')"
    by (simp add: not_recreated_def findCommandInPending_def last_match_def pending_matches_def cmd_defs)
  ultimately show ?thesis
    using Lookup_GET_reads_view [OF reliable_exLibs exQueued_ok(1) view_exQueued, of _ "cmdGet ''a'' ''x''"]
    by (simp add: view_answer_def sees_def)
qed

section \<open>Runs\<close>

text \<open>C2: A run of the state machine is a run of the contract. A run is any sequence of \<open>Update\<close>s of batches that
  are safe where they are applied (see C1) and of sizes that bolt stores, of \<open>Sync\<close>s, and of \<open>GET\<close>s of
  partitions with a shard whose newest queued command is not one that creates a partition whose old document
  the shard still holds. Then every code and every answer is the one the contract gives, with the log applied to
  the content one command after the other, and the state is again one from which the next run is correct.\<close>

theorem run_refines_contract:
  assumes "reliable_libs L" and "run_inv L s" and "db_view L s = Some m"
    and "runs (sm_step L) s es s'"
  shows "run_inv L s' \<and> (\<exists>m'. db_view L s' = Some m' \<and> runs (spec_event (libDecode L)) m es m' \<and>
    spec_run (libDecode L) (log_of es) m = (codes_of es, m'))"
  using reliable_libs.run_refines [OF assms] spec_history by blast

theorem run_refines_contract_witness:
  "\<exists>s'. runs (sm_step exLibs) exState [Wrote [cmdCreate ''a''] [200], Synced] s' \<and>
    run_inv exLibs s' \<and> db_view exLibs s' = Some [''a'' \<mapsto> Map.empty]"
proof -
  obtain s' where s': "runs (sm_step exLibs) exState [Wrote [cmdCreate ''a''] [200], Synced] s'"
    using ex_run_late by blast
  from run_refines_contract [OF reliable_exLibs run_inv_exState exState_ok(2) s'] s' ex_code
  show ?thesis by auto
qed

text \<open>C16: Replicas agree, as long as their batches are safe. Two replicas whose states have the same view apply the
  same log, cut into batches differently, with syncs and reads at different places; the runs are those of C2,
  so the commands of a batch do not meet, and none finds a queued \<open>DEL\<close>. They answer every entry with
  the same code and end with the same view. Two commands that meet are so in different batches at both;
  how they are answered when one replica has them in one batch is in \<open>Anomalies\<close>.\<close>

theorem replicas_agree:
  assumes "reliable_libs L" and "run_inv L s" and "run_inv L t" and "db_view L s = db_view L t"
    and "runs (sm_step L) s es s'" and "runs (sm_step L) t fs t'" and "log_of es = log_of fs"
  shows "codes_of es = codes_of fs \<and> db_view L s' = db_view L t'"
proof -
  obtain m where m: "db_view L s = Some m" "db_view L t = Some m"
    using assms(2,4) by (auto simp: run_inv_def sm_inv_def)
  have "\<exists>m'. db_view L s' = Some m' \<and> spec_run (libDecode L) (log_of es) m = (codes_of es, m')"
    "\<exists>m'. db_view L t' = Some m' \<and> spec_run (libDecode L) (log_of fs) m = (codes_of fs, m')"
    using reliable_libs.run_refines [OF assms(1)] assms(2,3,5,6) m spec_history by blast+
  then show ?thesis using assms(7) by auto
qed

theorem replicas_agree_witness:
  "\<exists>s' t'. runs (sm_step exLibs) exState [Wrote [cmdCreate ''a''] [200], Synced] s' \<and>
    runs (sm_step exLibs) exState [Synced, Wrote [cmdCreate ''a''] [200]] t' \<and>
    db_view exLibs s' = db_view exLibs t'"
  using ex_run_late ex_run_early
    replicas_agree [OF reliable_exLibs run_inv_exState run_inv_exState refl,
      of "[Wrote [cmdCreate ''a''] [200], Synced]" _ "[Synced, Wrote [cmdCreate ''a''] [200]]"]
  by fastforce

lemma spec_quiet:
  "runs (spec_event js) m (es @ [Read g r]) m' \<Longrightarrow> log_of es = [] \<Longrightarrow> codes_of es = [] \<Longrightarrow>
    r = view_answer m g"
proof (induction es arbitrary: m)
  case Nil
  then show ?case by simp
next
  case (Cons e es)
  then show ?case by (cases e) auto
qed

lemma accepted_seen:
  assumes "spec_code js c m = 200" and "cmdType c \<in> {PUT, POST, DEL}"
    and "cmdPart g = cmdPart c" and "cmdId g = cmdId c"
  shows "view_answer (spec_effect js c m) g =
    (if cmdType c = DEL then NotFound else Success (cmdBytesDoc c))"
proof -
  have "alters (cmdType c)" using assms(2) by (auto simp: type_defs)
  with assms(1) obtain m' where m': "apply_command c m = Some m'" "spec_effect js c m = m'"
    using spec_accepted apply_strict_weak by metis
  have "FullId g = FullId c" using assms(3,4) by (simp add: FullId_def)
  with m'(1) assms(2,3) have "sees m' g = (True, if cmdType c = DEL then None else Some (cmdBytesDoc c))"
    by (auto simp: apply_command_def type_defs sees_def Let_def split: option.splits)
  with m'(2) show ?thesis by (simp add: view_answer_def)
qed

text \<open>C15: Read your write. After a document command is accepted, a \<open>GET\<close> of the document answers with
  the text just written, or 404 if it was deleted, however many syncs and reads lie between.\<close>

theorem read_your_write:
  assumes "reliable_libs L" and "run_inv L s" and "cmdType c \<in> {PUT, POST, DEL}"
    and "cmdPart g = cmdPart c" and "cmdId g = cmdId c" and "log_of es = []" and "codes_of es = []"
    and "runs (sm_step L) s (Wrote [c] [200] # es @ [Read g r]) s'"
  shows "r = (if cmdType c = DEL then NotFound else Success (cmdBytesDoc c))"
proof -
  obtain m where "db_view L s = Some m" using assms(2) by (auto simp: run_inv_def sm_inv_def)
  then obtain m' where "runs (spec_event (libDecode L)) m (Wrote [c] [200] # es @ [Read g r]) m'"
    using reliable_libs.run_refines [OF assms(1,2) _ assms(8)] by blast
  then have "spec_code (libDecode L) c m = 200"
    "runs (spec_event (libDecode L)) (spec_effect (libDecode L) c m) (es @ [Read g r]) m'"
    by auto
  with spec_quiet assms(6,7) accepted_seen [OF _ assms(3-5)] show ?thesis by metis
qed

theorem read_your_write_witness:
  "\<exists>s' r. runs (sm_step exLibs) exStored (Wrote [cmdDel7 ''a'' ''x''] [200] # [Synced] @ [Read (cmdGet ''a'' ''x'') r]) s' \<and>
    r = NotFound"
proof -
  have run: "\<exists>s' r. runs (sm_step exLibs) exStored (Wrote [cmdDel7 ''a'' ''x''] [200] # [Synced] @ [Read (cmdGet ''a'' ''x'') r]) s'"
    by (rule ex_run_delete)
  have inv: "run_inv exLibs exStored" using exStored_ok by (simp add: run_inv_def)
  have del: "cmdType (cmdDel7 ''a'' ''x'') = DEL" "cmdPart (cmdGet ''a'' ''x'') = cmdPart (cmdDel7 ''a'' ''x'')"
    "cmdId (cmdGet ''a'' ''x'') = cmdId (cmdDel7 ''a'' ''x'')"
    by (simp_all add: cmd_defs)
  from run read_your_write [OF reliable_exLibs inv _ del(2,3), of "[Synced]"] del(1) show ?thesis
    by fastforce
qed

text \<open>C7: Nothing gets stuck. From any state that satisfies the invariant of runs, with an empty queue, any log of commands
  that alter the database, whose partitions begin with a letter of the alphabet, and so have shards, and whose
  partitions, keys and texts are within the sizes that bolt stores, goes through to its end, one command at
  a time with a sync after each: every command is answered, with the code of the contract, and at the end
  the databases hold what the contract gives.\<close>

theorem log_gets_through:
  assumes "reliable_libs L" and "run_inv L s" and "pending s = []" and "db_view L s = Some m"
    and "dom (shardMap s) = set alphabet_runes"
    and "map (ParseCommand (libDecode L)) raws = map Inr cmds" and "list_all storable cmds"
    and "list_all (\<lambda>c. alters (cmdType c) \<and> part_rune c \<in> set alphabet_runes) cmds"
  shows "\<exists>s'. runs (sm_step L) s (serial cmds (fst (spec_run (libDecode L) cmds m))) s' \<and> pending s' = [] \<and>
    state_content L s' = snd (spec_run (libDecode L) cmds m) \<and> run_inv L s'"
proof -
  have "list_all (\<lambda>c. alters (cmdType c) \<and> shardMap s (part_rune c) \<noteq> None) cmds"
    using assms(5,8) by (auto simp: list_all_iff simp flip: domIff)
  from reliable_libs.serial_through [OF assms(1-4) distinct_alphabet_runes assms(5) [symmetric] assms(6,7) this]
  show ?thesis .
qed

theorem log_gets_through_witness:
  "\<exists>s'. runs (sm_step exLibs) exState [Wrote [cmdCreate ''a''] [200], Synced] s' \<and>
    state_content exLibs s' = [''a'' \<mapsto> Map.empty]"
proof -
  have "pending exState = []" by (simp add: exState_def)
  moreover have "map (ParseCommand (libDecode exLibs)) [''CREATE_PART '' @ ''a''] = map Inr [cmdCreate ''a'']"
    using parse_Create [of "''a''" exDecode] by simp
  moreover have "list_all storable [cmdCreate ''a'']"
    "list_all (\<lambda>c. alters (cmdType c) \<and> part_rune c \<in> set alphabet_runes) [cmdCreate ''a'']"
    by (simp_all add: cmd_defs storable_def FullId_def max_key_size_def max_value_size_def type_defs part_rune_def
        alphabet_runes_eq)
  ultimately have "\<exists>s'. runs (sm_step exLibs) exState
      (serial [cmdCreate ''a''] (fst (spec_run (libDecode exLibs) [cmdCreate ''a''] Map.empty))) s' \<and> pending s' = [] \<and>
      state_content exLibs s' = snd (spec_run (libDecode exLibs) [cmdCreate ''a''] Map.empty) \<and> run_inv exLibs s'"
    using log_gets_through [OF reliable_exLibs run_inv_exState _ exState_ok(2) dom_exState [symmetric]] by blast
  then show ?thesis by (simp only: exLibs_simps ex_code fst_conv snd_conv serial.simps) blast
qed

section \<open>The order of the shard map\<close>

text \<open>C17: Go does not fix the order in which \<open>Update\<close> and \<open>Sync\<close> walk through the map of shards, and
  nothing depends on it: in any other order \<open>Update\<close> gives the same codes and a state whose reads
  and whose \<open>Sync\<close>, in any order again, are the same.\<close>

theorem map_order_unobservable:
  assumes "distinct cs" and "distinct cs'" and "set cs = set cs'"
    and "\<forall>e \<in> set (pending s). in_own_shard e" and "Update L cs s ups = Done (s1, ups1, None)"
  shows "\<exists>s2. Update L cs' s ups = Done (s2, ups1, None) \<and>
    (\<forall>raw. Lookup L s1 raw = Lookup L s2 raw) \<and>
    (\<forall>r. Sync L cs s1 = Done r \<longleftrightarrow> Sync L cs' s2 = Done r)"
proof -
  obtain es where es: "parseEntries (libDecode L) 0 ups = Done es" "updateShards L cs es s ups = (s1, ups1, None)"
    using assms(5) by (auto simp: Update_def outcome_eqs)
  note parsed = parseEntries_entries [OF es(1)]
  have own: "\<forall>e \<in> set es. in_own_shard e" and dist: "distinct (map ueEntry es)"
    using parsed by (auto simp: distinct_map)
  obtain s2 where s2: "updateShards L cs' es s ups = (s2, ups1, None)" "same_queues s1 s2"
    using updateShards_order [OF assms(1-3) own assms(4) dist es(2)] by blast
  have own1: "\<forall>e \<in> set (pending s1). in_own_shard e"
    using updateShards_own [OF assms(1) own assms(4) es(2)] .
  have flip: "same_queues s2 s1" using s2(2) by (simp add: same_queues_def)
  have "Update L cs' s ups = Done (s2, ups1, None)" using es(1) s2(1) by (simp add: Update_def)
  moreover have "Lookup L s1 raw = Lookup L s2 raw" for raw
    by (rule Lookup_same_queues [OF s2(2) own1])
  moreover have "Sync L cs s1 = Done r \<longleftrightarrow> Sync L cs' s2 = Done r" for r
    using Sync_order [OF assms(1-3) s2(2)] Sync_order [OF assms(2,1) assms(3) [symmetric] flip] by blast
  ultimately show ?thesis by blast
qed

theorem map_order_unobservable_witness:
  "\<exists>s1 s2 ups1. Update exLibs alphabet_runes exState [exEntry 1 (''CREATE_PART '' @ ''a'')] = Done (s1, ups1, None) \<and>
    Update exLibs (rev alphabet_runes) exState [exEntry 1 (''CREATE_PART '' @ ''a'')] = Done (s2, ups1, None)"
proof -
  obtain s1 ups1 where run: "Update exLibs alphabet_runes exState [exEntry 1 (''CREATE_PART '' @ ''a'')] =
      Done (s1, ups1, None)"
    using Update_gets_through [OF _ exState_ok(1) distinct_alphabet_runes ex_parsed]
      reliable_libs.begin_ok [OF reliable_exLibs] by blast
  have "\<forall>e \<in> set (pending exState). in_own_shard e" by (simp add: exState_def)
  from map_order_unobservable [OF distinct_alphabet_runes _ _ this run, of "rev alphabet_runes"]
    run distinct_alphabet_runes
  show ?thesis by auto
qed

end
