(* ===== verification/Anomalies.thy ===== *)
theory Anomalies
  imports Machine
begin

text \<open>
  Where the state machine leaves its contract: each case is a batch, or a state of the queue, that
  \<open>batch_safe\<close> or \<open>not_recreated\<close> excludes, with what the code does there.
\<close>

section \<open>One entry, one shard\<close>

lemma entries_of_one: "entries_of c [e] = (if ueShardId e = c then [e] else [])"
  by (simp add: entries_of_def)

lemma concat_only:
  assumes "distinct cs" and "c \<in> set cs" and "\<forall>x \<in> set cs. x \<noteq> c \<longrightarrow> f x = []"
  shows "concat (map f cs) = f c"
  using assms
proof (induction cs)
  case Nil
  then show ?case by simp
next
  case (Cons x cs)
  show ?case
  proof (cases "x = c")
    case True
    with Cons.prems have "concat (map f cs) = []" by auto
    with True show ?thesis by simp
  next
    case False
    with Cons show ?thesis by simp
  qed
qed

text \<open>A batch that falls to one shard.\<close>

lemma updateShards_one_shard:
  assumes "distinct cs" and "\<forall>e \<in> set es. in_own_shard e \<and> ueShardId e = c" and "es \<noteq> []"
    and "\<forall>e \<in> set (pending s). in_own_shard e" and "c \<in> set cs" and "shardMap s c = Some shard"
    and "examined L shard (pending s) es = Inr ds"
  shows "updateShards L cs es s ups = (s\<lparr>pending := pending s @ accepted ds\<rparr>, fold answer ds ups, None)"
proof -
  have "entries_of c' es = (if c' = c then es else [])" for c'
    using assms(2) by (auto simp: entries_of_def filter_id_conv filter_empty_conv)
  then have dec: "shard_entries L s es c' = Inr (if c' = c then ds else [])" for c'
    using assms(3,6,7) by (auto simp: shard_entries_def split: option.split)
  then have "decided L s es c' = (if c' = c then ds else [])" for c' by (simp add: decided_def)
  then have "concat (map (decided L s es) cs) = ds" "concat (map (\<lambda>c. accepted (decided L s es c)) cs) = accepted ds"
    using concat_only [OF assms(1,5), of "decided L s es"]
      concat_only [OF assms(1,5), of "\<lambda>c. accepted (decided L s es c)"]
    by (simp_all add: accepted_def)
  with updateShards_run_self [OF assms(1) _ assms(4), of es L ups] assms(2) dec show ?thesis by auto
qed

lemma Update_one:
  assumes "distinct cs" and "\<forall>e \<in> set (pending s). in_own_shard e"
    and "ParseCommand (libDecode L) raw = Inr c" and "part_rune c \<in> set cs"
    and "shardMap s (part_rune c) = Some shard"
    and "e = \<lparr>ueEntry = Some 0, ueCmd = c, ueExistingDoc = None, uePartExists = False, ueIndex = i,
      ueShardId = part_rune c\<rparr>"
    and "examined L shard (pending s) [e] = Inr ds"
  shows "Update L cs s [\<lparr>enIndex = i, enCmd = raw, enValue = v\<rparr>] =
    Done (s\<lparr>pending := pending s @ accepted ds\<rparr>, fold answer ds [\<lparr>enIndex = i, enCmd = raw, enValue = v\<rparr>], None)"
  using updateShards_one_shard [OF assms(1) _ _ assms(2,4,5,7)] assms(3,6)
  by (simp add: Update_def in_own_shard_def part_rune_def)

lemma examined_hit:
  assumes "findCommandInPending pend (ueCmd e) \<noteq> None"
  shows "examined L shard pend [e] = Inr [attachPending pend e]"
  using assms by (auto simp: examined_def stateSearchDocs_def)

text \<open>The shard of a command that the queue knows.\<close>

lemma hit_shard:
  assumes "sm_inv L s" and "set order = dom (shardMap s)" and "findCommandInPending (pending s) c = Some x"
  shows "part_rune c \<in> set order" and "\<exists>shard. shardMap s (part_rune c) = Some shard"
    and "\<forall>e \<in> set (pending s). in_own_shard e"
proof -
  show own: "\<forall>e \<in> set (pending s). in_own_shard e"
    using assms(1) queued_okD(4) by (auto simp: sm_inv_def)
  obtain y where "y \<in> set (pending s)" "pending_matches c y"
    using assms(3) last_match_Some [of "pending_matches c" "pending s"]
    by (auto simp: findCommandInPending_def)
  with own assms(1,2) show "part_rune c \<in> set order"
    by (auto simp: pending_matches_def in_own_shard_def part_rune_def sm_inv_def image_subset_iff)
  with assms(2) show "\<exists>shard. shardMap s (part_rune c) = Some shard" by auto
qed

section \<open>A deleted document still stands in the way\<close>

text \<open>C36: While a \<open>DEL\<close> waits in the queue, a \<open>POST\<close> of the same document is refused with 409, where
  the contract, and the same log with a \<open>Sync\<close> in between, give 200: the zero document that every
  parsed \<open>DEL\<close> carries is taken for an existing one.\<close>

theorem POST_after_queued_DEL:
  assumes "distinct order" and "set order = dom (shardMap s)" and "sm_inv L s" and "db_view L s = Some m"
    and "ParseCommand (libDecode L) raw = Inr c" and "cmdType c = POST"
    and "findCommandInPending (pending s) c = Some x" and "cmdType x = DEL"
  shows "Update L order s [\<lparr>enIndex = i, enCmd = raw, enValue = v\<rparr>] =
      Done (s, [\<lparr>enIndex = i, enCmd = raw, enValue = 409\<rparr>], None) \<and>
    spec_code (libDecode L) c m = 200"
proof -
  have q: "\<forall>e \<in> set (pending s). queued_ok (libDecode L) e" using assms(3) by (simp add: sm_inv_def)
  note hit = hit_shard [OF assms(3,2,7)]
  obtain shard where shard: "shardMap s (part_rune c) = Some shard" using hit(2) by blast
  let ?e = "\<lparr>ueEntry = Some 0, ueCmd = c, ueExistingDoc = None, uePartExists = False, ueIndex = i,
      ueShardId = part_rune c\<rparr>"
  have doc: "cmdDoc x \<noteq> None" using find_queued [OF assms(7) q] wf_commandD(6) by blast
  have att: "attachPending (pending s) ?e = ?e\<lparr>uePartExists := True, ueExistingDoc := cmdDoc x\<rparr>"
    using assms(7,8) by (simp add: attachPending_def)
  have dec: "decide (attachPending (pending s) ?e) = Some (409, False)"
    unfolding att using doc assms(6) by (simp add: decide_def)
  have "examined L shard (pending s) [?e] = Inr [attachPending (pending s) ?e]"
    using assms(7) by (intro examined_hit) simp
  from Update_one [OF assms(1) hit(3) assms(5) hit(1) shard refl this, of v] dec
  have "Update L order s [\<lparr>enIndex = i, enCmd = raw, enValue = v\<rparr>] =
      Done (s, [\<lparr>enIndex = i, enCmd = raw, enValue = 409\<rparr>], None)"
    by (simp add: accepted_def answer_def setResult_def)
  moreover have "spec_code (libDecode L) c m = 200"
    using view_search [OF assms(3,4), of c] assms(6-8)
    by (simp add: spec_code_def left_by_def type_defs)
  ultimately show ?thesis by blast
qed

theorem POST_after_queued_DEL_witness:
  "Update exLibs alphabet_runes exQueued [\<lparr>enIndex = 10, enCmd = ''POST '' @ textX7, enValue = 0\<rparr>] =
      Done (exQueued, [\<lparr>enIndex = 10, enCmd = ''POST '' @ textX7, enValue = 409\<rparr>], None) \<and>
    spec_code exDecode (cmdPost textX7 (exDoc ''a'' ''x'' 7)) [''a'' \<mapsto> Map.empty] = 200"
proof -
  have "ParseCommand (libDecode exLibs) (''POST '' @ textX7) = Inr (cmdPost textX7 (exDoc ''a'' ''x'' 7))"
    using parse_Post [of textX7 exDecode] by simp
  moreover have "findCommandInPending (pending exQueued) (cmdPost textX7 (exDoc ''a'' ''x'' 7)) = Some (cmdDel7 ''a'' ''x'')"
    by (simp add: findCommandInPending_def last_match_def pending_matches_def cmd_defs)
  moreover have "cmdType (cmdPost textX7 (exDoc ''a'' ''x'' 7)) = POST" "cmdType (cmdDel7 ''a'' ''x'') = DEL"
    by (simp_all add: cmd_defs)
  moreover have "set alphabet_runes = dom (shardMap exQueued)" using dom_exStored by simp
  ultimately show ?thesis
    using POST_after_queued_DEL [OF distinct_alphabet_runes _ exQueued_ok(1) view_exQueued, of _ _ _ 10 0]
    by simp
qed

section \<open>Two entries of one batch do not see each other\<close>

text \<open>A batch of two that falls to one shard and meets nothing in the queue.\<close>

definition fresh_pair :: "('db, 'ix) ByStateMachine \<Rightarrow> Command \<Rightarrow> Command \<Rightarrow> bool" where
  "fresh_pair s c c' \<longleftrightarrow> alters (cmdType c) \<and> alters (cmdType c') \<and> cmdPart c' = cmdPart c \<and>
    findCommandInPending (pending s) c = None \<and> findCommandInPending (pending s) c' = None \<and>
    shardMap s (part_rune c) \<noteq> None"

lemma fresh_pair_seen:
  assumes "fresh_pair s c c'"
  shows "batch_seen s [c, c']"
  using assms by (simp add: fresh_pair_def batch_seen_def one_search_def none_deleted_def part_rune_def)

lemma fresh_pair_update:
  assumes "reliable_libs L" and "sm_inv L s" and "db_view L s = Some m"
    and "distinct order" and "set order = dom (shardMap s)"
    and "ParseCommand (libDecode L) raw = Inr c" and "ParseCommand (libDecode L) raw' = Inr c'"
    and "fresh_pair s c c'"
    and "spec_code (libDecode L) c m = 200" and "spec_code (libDecode L) c' m = 200"
  shows "\<exists>q ups'. Update L order s [\<lparr>enIndex = i, enCmd = raw, enValue = v\<rparr>,
        \<lparr>enIndex = j, enCmd = raw', enValue = v\<rparr>] = Done (s\<lparr>pending := pending s @ q\<rparr>, ups', None) \<and>
      map enValue ups' = [200, 200] \<and> map ueCmd q = [c, c'] \<and> (\<forall>e \<in> set q. queued_ok (libDecode L) e)"
proof -
  let ?ups = "[\<lparr>enIndex = i, enCmd = raw, enValue = v\<rparr>, \<lparr>enIndex = j, enCmd = raw', enValue = v\<rparr>]"
  have parsed: "map (\<lambda>en. ParseCommand (libDecode L) (enCmd en)) ?ups = map Inr [c, c']"
    using assms(6,7) by simp
  obtain s' ups' where run: "Update L order s ?ups = Done (s', ups', None)"
    using Update_gets_through [OF reliable_libs.begin_ok [OF assms(1)] assms(2,4) parsed] by blast
  note seen = Update_seen [OF assms(2-5) parsed fresh_pair_seen [OF assms(8)] run]
  have runes: "part_rune c' = part_rune c" "part_rune c \<in> set order"
    using assms(5,8) by (auto simp: fresh_pair_def part_rune_def)
  have "concat (map (\<lambda>r. filter (\<lambda>x. part_rune x = r \<and> spec_code (libDecode L) x m = 200) [c, c']) order) = [c, c']"
    using concat_only [OF assms(4) runes(2),
        of "\<lambda>r. filter (\<lambda>x. part_rune x = r \<and> spec_code (libDecode L) x m = 200) [c, c']"]
      runes(1) assms(9,10) by simp
  with seen run assms(9,10) show ?thesis by auto
qed

text \<open>C37: A batch with two \<open>POST\<close>s of one document, which the queue does not know, accepts both when
  it accepts the first: the answers are 200 and 200, where the contract answers 200 and 409. The
  decision looks at the queue as it was before the batch.\<close>

theorem two_POSTs_in_one_batch:
  assumes "reliable_libs L" and "sm_inv L s" and "db_view L s = Some m"
    and "distinct order" and "set order = dom (shardMap s)"
    and "ParseCommand (libDecode L) raw = Inr c" and "ParseCommand (libDecode L) raw' = Inr c'"
    and "cmdType c = POST" and "cmdType c' = POST" and "cmdId c' = cmdId c" and "fresh_pair s c c'"
    and "spec_code (libDecode L) c m = 200"
  shows "(\<exists>s' ups'. Update L order s [\<lparr>enIndex = i, enCmd = raw, enValue = v\<rparr>,
        \<lparr>enIndex = j, enCmd = raw', enValue = v\<rparr>] = Done (s', ups', None) \<and>
      map enValue ups' = [200, 200] \<and> map ueCmd (pending s') = map ueCmd (pending s) @ [c, c']) \<and>
    fst (spec_run (libDecode L) [c, c'] m) = [200, 409]"
proof -
  have part: "cmdPart c' = cmdPart c" using assms(11) by (simp add: fresh_pair_def)
  then have "FullId c' = FullId c" using assms(10) by (simp add: FullId_def)
  with part have "sees m c' = sees m c" by (simp add: sees_def split: option.split)
  then have code': "spec_code (libDecode L) c' m = 200"
    using assms(8,9,12) by (simp add: spec_code_POST split: if_splits)
  obtain m' where m': "apply_command c m = Some m'" "spec_effect (libDecode L) c m = m'"
    using spec_accepted [OF assms(12)] apply_strict_weak assms(8) by (auto simp: type_defs)
  have "sees m' c' = (True, Some (cmdBytesDoc c))"
    using m'(1) assms(8,10) part FullId_eq [of c' c]
    by (auto simp: apply_command_def sees_def type_defs Let_def split: option.splits)
  with assms(9,12) m'(2) have "fst (spec_run (libDecode L) [c, c'] m) = [200, 409]"
    by (simp add: spec_code_def)
  with fresh_pair_update [OF assms(1-7,11,12) code', of i v j] show ?thesis by fastforce
qed

theorem two_POSTs_in_one_batch_witness:
  "\<exists>s' ups'. Update exLibs alphabet_runes exStored [\<lparr>enIndex = 1, enCmd = ''POST '' @ textY7, enValue = 0\<rparr>,
        \<lparr>enIndex = 2, enCmd = ''POST '' @ textY7, enValue = 0\<rparr>] = Done (s', ups', None) \<and>
      map enValue ups' = [200, 200]"
proof -
  let ?c = "cmdPost textY7 (exDoc ''a'' ''y'' 7)"
  have parsed: "ParseCommand (libDecode exLibs) (''POST '' @ textY7) = Inr ?c"
    using parse_Post [of textY7 exDecode] by simp
  have c: "cmdType ?c = POST" "fresh_pair exStored ?c ?c" "spec_code (libDecode exLibs) ?c exContent = 200"
    by (simp_all add: cmd_defs fresh_pair_def type_defs findCommandInPending_def part_rune_def
        spec_code_def sees_def exContent_def FullId_def)
  show ?thesis
    using two_POSTs_in_one_batch [OF reliable_exLibs exStored_ok(1,2) distinct_alphabet_runes
        dom_exStored parsed parsed c(1,1) refl c(2,3), where i = 1 and v = 0 and j = 2] by metis
qed

context reliable_libs begin

lemma drop_then_post_panics:
  assumes "txBucket (libBolt L) (shBlock sh) (cmdPart (ueCmd e))" and "cmdType (ueCmd e) = DELETE_PART"
    and "cmdType (ueCmd e') = POST" and "cmdPart (ueCmd e') = cmdPart (ueCmd e)"
  shows "ApplyUpdates L sh [e, e'] = Panic NilDeref"
proof -
  let ?db = "txDeleteBucket (libBolt L) (shBlock sh) (cmdPart (ueCmd e))"
  have "\<not> txBucket (libBolt L) ?db (cmdPart (ueCmd e))"
    by (simp add: txBucket_content delete_bucket_content)
  with assms show ?thesis by (simp add: ApplyUpdates_def begin_ok applyEntry_def Let_def)
qed

end

lemma applyShards_one_panic:
  assumes "c \<in> set cs" and "\<forall>e \<in> set (pending s). ueShardId e = c" and "pending s \<noteq> []"
    and "shardMap s c = Some shard" and "ApplyUpdates L shard (pending s) = Panic x"
  shows "applyShards L cs s = Panic x"
  using assms(1)
proof (induction cs)
  case Nil
  then show ?case by simp
next
  case (Cons c' cs)
  have ent: "entries_of r (pending s) = (if r = c then pending s else [])" for r
    using assms(2) by (auto simp: entries_of_def filter_id_conv filter_empty_conv)
  show ?case
  proof (cases "c' = c")
    case True
    with assms(3-5) ent show ?thesis by simp
  next
    case False
    with Cons have "applyShards L cs s = Panic x" by auto
    with False ent show ?thesis by (simp split: option.split)
  qed
qed

text \<open>C38: A batch that deletes a partition and posts into it, with an empty queue, answers 200 to
  both, and the next \<open>Sync\<close> is a nil dereference: the bucket is gone when the document is to be put
  into it. The entries are committed, so every replica meets them again.\<close>

theorem DELETE_PART_then_POST_panics:
  assumes "reliable_libs L" and "sm_inv L s" and "db_view L s = Some m" and "pending s = []"
    and "distinct order" and "set order = dom (shardMap s)"
    and "ParseCommand (libDecode L) raw = Inr c" and "ParseCommand (libDecode L) raw' = Inr c'"
    and "cmdType c = DELETE_PART" and "cmdType c' = POST" and "fresh_pair s c c'"
    and "spec_code (libDecode L) c m = 200" and "spec_code (libDecode L) c' m = 200"
  shows "\<exists>s' ups'. Update L order s [\<lparr>enIndex = i, enCmd = raw, enValue = v\<rparr>,
        \<lparr>enIndex = j, enCmd = raw', enValue = v\<rparr>] = Done (s', ups', None) \<and>
      map enValue ups' = [200, 200] \<and> Sync L order s' = Panic NilDeref"
proof -
  obtain q ups' where run: "Update L order s [\<lparr>enIndex = i, enCmd = raw, enValue = v\<rparr>,
        \<lparr>enIndex = j, enCmd = raw', enValue = v\<rparr>] = Done (s\<lparr>pending := pending s @ q\<rparr>, ups', None)"
      "map enValue ups' = [200, 200]" "map ueCmd q = [c, c']" "\<forall>e \<in> set q. queued_ok (libDecode L) e"
    using fresh_pair_update [OF assms(1-3,5-8,11-13), of i v j] by metis
  obtain e e' where q: "q = [e, e']" "ueCmd e = c" "ueCmd e' = c'" using run(3) by (auto simp: map_eq_Cons_conv)
  have part: "cmdPart c' = cmdPart c" using assms(11) by (simp add: fresh_pair_def)
  obtain shard where shard: "shardMap s (part_rune c) = Some shard"
    using assms(11) by (auto simp: fresh_pair_def)
  have own: "ueShardId e = part_rune c" "ueShardId e' = part_rune c"
    using run(4) q part queued_okD(4) by (auto simp: in_own_shard_def part_rune_def)
  have "state_content L s = m" using assms(3,4) by (simp add: db_view_def)
  then have "content_of (libBolt L) (shBlock shard) (cmdPart c) = m (cmdPart c)"
    using shard by (auto simp: state_content_def shard_content_def part_rune_def)
  moreover have "m (cmdPart c) \<noteq> None"
    using assms(9,12) by (auto simp: spec_code_def sees_def split: option.splits)
  ultimately have "txBucket (libBolt L) (shBlock shard) (cmdPart c)"
    by (simp add: content_of_def split: if_splits)
  then have "ApplyUpdates L shard [e, e'] = Panic NilDeref"
    using q part assms(9,10) by (intro reliable_libs.drop_then_post_panics [OF assms(1)]) simp_all
  then have "applyShards L order (s\<lparr>pending := q, lastIndex := k\<rparr>) = Panic NilDeref" for k
    using own q(1) shard assms(6) by (intro applyShards_one_panic [where c = "part_rune c"]) auto
  then have "Sync L order (s\<lparr>pending := q\<rparr>) = Panic NilDeref" by (simp add: Sync_def)
  with run assms(4) show ?thesis by auto
qed

theorem DELETE_PART_then_POST_panics_witness:
  "\<exists>s' ups'. Update exLibs alphabet_runes exStored
      [\<lparr>enIndex = 1, enCmd = ''DELETE_PART '' @ ''a'', enValue = 0\<rparr>,
       \<lparr>enIndex = 2, enCmd = ''POST '' @ textY7, enValue = 0\<rparr>] = Done (s', ups', None) \<and>
    map enValue ups' = [200, 200] \<and> Sync exLibs alphabet_runes s' = Panic NilDeref"
proof -
  let ?c = "cmdDrop ''a''" and ?c' = "cmdPost textY7 (exDoc ''a'' ''y'' 7)"
  have parsed: "ParseCommand (libDecode exLibs) (''DELETE_PART '' @ ''a'') = Inr ?c"
      "ParseCommand (libDecode exLibs) (''POST '' @ textY7) = Inr ?c'"
    using parse_Drop [of "''a''" exDecode] parse_Post [of textY7 exDecode] by simp_all
  have c: "cmdType ?c = DELETE_PART" "cmdType ?c' = POST" "fresh_pair exStored ?c ?c'"
      "spec_code (libDecode exLibs) ?c exContent = 200" "spec_code (libDecode exLibs) ?c' exContent = 200"
    by (simp_all add: cmd_defs fresh_pair_def type_defs findCommandInPending_def part_rune_def
        spec_code_def sees_def exContent_def FullId_def)
  show ?thesis
    using DELETE_PART_then_POST_panics [OF reliable_exLibs exStored_ok(1,2) exStored_simps(1)
        distinct_alphabet_runes dom_exStored parsed c, of 1 0 2] by simp
qed

section \<open>The shard overrules the queue\<close>

lemma attach_create:
  "findCommandInPending pend (ueCmd e) = Some x \<Longrightarrow> cmdType x = CREATE_PART \<Longrightarrow>
    attachPending pend e = e\<lparr>uePartExists := True\<rparr>"
  by (simp add: attachPending_def)

lemma shard_overrules:
  assumes "txBegin (libBolt L) (shBlock shard) = None" and "fresh e"
    and "findCommandInPending pend (ueCmd e) = Some x" and "cmdType x = CREATE_PART"
    and "findCommandInPending pend (ueCmd f) = None"
    and "\<not> txBucket (libBolt L) (shBlock shard) (cmdPart (ueCmd e))"
    and "examined L shard pend [e, f] = Inr ds"
  shows "\<exists>g. ds = [e, g] \<and> ueEntry g = ueEntry f"
proof -
  let ?a = "e\<lparr>uePartExists := True\<rparr>"
  have att: "attachPending pend e = ?a" using assms(3,4) by (rule attach_create)
  have "findExistingLoop L (shBlock shard) [?a, attachPending pend f] = Inr ds"
    using assms(1,3,5,7) att
    by (simp add: examined_def stateSearchDocs_def FindExistingDocumentsForUpdates_def boltView_def)
  then obtain d g where ds: "ds = [d, g]" "findExistingLoop L (shBlock shard) [?a] = Inr [d]"
    using findExistingLoop_each [of L "shBlock shard" "[?a, attachPending pend f]" ds]
    by (auto simp: list_all2_Cons1)
  then have "d = e" using assms(2,6) by (cases e) (auto simp: fresh_def Let_def)
  moreover have "ueEntry g = ueEntry f"
    using arg_cong [OF examined_fields [OF assms(7)], of "map fst"] ds(1) by simp
  ultimately show ?thesis using ds(1) by blast
qed

text \<open>A partition is created and still in the queue. A \<open>POST\<close> into it is accepted when it comes
  alone, but refused with 404 when the same batch holds an entry of the shard that the queue does not
  know: then the shard is searched for all of them, and it has no such partition yet.\<close>

lemma POST_after_queued_CREATE_PART:
  assumes "reliable_libs L" and "sm_inv L s" and "distinct order" and "set order = dom (shardMap s)"
    and "ParseCommand (libDecode L) raw = Inr c" and "ParseCommand (libDecode L) raw' = Inr c'"
    and "cmdType c = POST" and "findCommandInPending (pending s) c = Some x"
    and "cmdType x = CREATE_PART" and "state_content L s (cmdPart c) = None"
    and "part_rune c' = part_rune c" and "findCommandInPending (pending s) c' = None"
  shows "(\<exists>s1 en1. Update L order s [\<lparr>enIndex = i, enCmd = raw, enValue = v\<rparr>] = Done (s1, [en1], None) \<and>
      enValue en1 = 200) \<and>
    (\<exists>s2 en2 en3. Update L order s [\<lparr>enIndex = i, enCmd = raw, enValue = v\<rparr>,
        \<lparr>enIndex = j, enCmd = raw', enValue = v\<rparr>] = Done (s2, [en2, en3], None) \<and> enValue en2 = 404)"
proof -
  note hit = hit_shard [OF assms(2,4,8)]
  obtain shard where shard: "shardMap s (part_rune c) = Some shard" using hit(2) by blast
  let ?e = "\<lparr>ueEntry = Some 0, ueCmd = c, ueExistingDoc = None, uePartExists = False, ueIndex = i,
      ueShardId = part_rune c\<rparr>"
  let ?f = "\<lparr>ueEntry = Some 1, ueCmd = c', ueExistingDoc = None, uePartExists = False, ueIndex = j,
      ueShardId = part_rune c'\<rparr>"
  have "examined L shard (pending s) [?e] = Inr [?e\<lparr>uePartExists := True\<rparr>]"
    using examined_hit [of "pending s" ?e L shard] attach_create [of "pending s" ?e x] assms(8,9) by simp
  from Update_one [OF assms(3) hit(3) assms(5) hit(1) shard refl this, of v] assms(7)
  have one: "\<exists>s1 en1. Update L order s [\<lparr>enIndex = i, enCmd = raw, enValue = v\<rparr>] = Done (s1, [en1], None) \<and>
      enValue en1 = 200"
    by (simp add: answer_def decide_def setResult_def)
  have es_own: "\<forall>e \<in> set [?e, ?f]. in_own_shard e \<and> ueShardId e = part_rune c"
    using assms(11) by (simp add: in_own_shard_def part_rune_def)
  have content: "content_ok (libDecode L) (state_content L s)" using assms(2) by (simp add: sm_inv_def)
  obtain ds where ds: "examined L shard (pending s) [?e, ?f] = Inr ds"
    using shard_entries_ok [OF reliable_libs.begin_ok [OF assms(1)] content, of "[?e, ?f]" "part_rune c"]
      es_own shard assms(11) by (auto simp: shard_entries_def entries_of_def)
  have "\<not> txBucket (libBolt L) (shBlock shard) (cmdPart c)"
    using assms(10) shard by (auto simp: state_content_def shard_content_def content_of_def part_rune_def split: if_splits)
  then obtain g where g: "ds = [?e, g]" "ueEntry g = Some 1"
    using shard_overrules [of L shard ?e "pending s" x ?f ds] reliable_libs.begin_ok [OF assms(1)]
      assms(8,9,12) ds by (auto simp: fresh_def)
  have "parseEntries (libDecode L) 0 [\<lparr>enIndex = i, enCmd = raw, enValue = v\<rparr>,
        \<lparr>enIndex = j, enCmd = raw', enValue = v\<rparr>] = Done [?e, ?f]"
    using assms(5,6) by (simp add: part_rune_def)
  with updateShards_one_shard [OF assms(3) es_own _ hit(3,1) shard ds] g assms(7)
  have "\<exists>s2 en2 en3. Update L order s [\<lparr>enIndex = i, enCmd = raw, enValue = v\<rparr>,
        \<lparr>enIndex = j, enCmd = raw', enValue = v\<rparr>] = Done (s2, [en2, en3], None) \<and> enValue en2 = 404"
    by (auto simp: Update_def answer_def decide_def setResult_def split: option.splits)
  with one show ?thesis by blast
qed

definition exCreated :: "(mem_db, ex_ix) ByStateMachine" where
  "exCreated = exStored\<lparr>pending :=
     [\<lparr>ueEntry = None, ueCmd = cmdCreate ''ab'', ueExistingDoc = None,
       uePartExists = False, ueIndex = 1, ueShardId = 97\<rparr>]\<rparr>"

lemma exCreated_simps [simp]:
  "shardMap exCreated = shardMap exStored" "pending exCreated =
     [\<lparr>ueEntry = None, ueCmd = cmdCreate ''ab'', ueExistingDoc = None,
       uePartExists = False, ueIndex = 1, ueShardId = 97\<rparr>]"
  by (simp_all add: exCreated_def)

lemma content_exCreated: "state_content exLibs exCreated = exContent"
  using content_exStored by (simp add: state_content_def fun_eq_iff)

lemma exCreated_ok: "sm_inv exLibs exCreated"
  using content_ok_exContent
  by (simp add: sm_inv_def content_exCreated queued_ok_def wf_command_def in_own_shard_def cmd_defs
      type_defs db_view_def apply_strict_def apply_command_def exContent_def)

lemma POST_after_queued_CREATE_PART_witness:
  "(\<exists>s1 en1. Update exLibs alphabet_runes exCreated [\<lparr>enIndex = 2, enCmd = ''POST '' @ textAB, enValue = 0\<rparr>] =
      Done (s1, [en1], None) \<and> enValue en1 = 200) \<and>
    (\<exists>s2 en2 en3. Update exLibs alphabet_runes exCreated [\<lparr>enIndex = 2, enCmd = ''POST '' @ textAB, enValue = 0\<rparr>,
        \<lparr>enIndex = 3, enCmd = ''POST '' @ textY7, enValue = 0\<rparr>] = Done (s2, [en2, en3], None) \<and> enValue en2 = 404)"
proof -
  let ?c = "cmdPost textAB (exDoc ''ab'' ''x'' 7)" and ?c' = "cmdPost textY7 (exDoc ''a'' ''y'' 7)"
  have parsed: "ParseCommand (libDecode exLibs) (''POST '' @ textAB) = Inr ?c"
      "ParseCommand (libDecode exLibs) (''POST '' @ textY7) = Inr ?c'"
    using parse_Post [of textAB exDecode] parse_Post [of textY7 exDecode] by simp_all
  have dom: "set alphabet_runes = dom (shardMap exCreated)" using dom_exStored by simp
  have c: "cmdType ?c = POST" "findCommandInPending (pending exCreated) ?c = Some (cmdCreate ''ab'')"
      "cmdType (cmdCreate ''ab'') = CREATE_PART" "state_content exLibs exCreated (cmdPart ?c) = None"
      "part_rune ?c' = part_rune ?c" "findCommandInPending (pending exCreated) ?c' = None"
    unfolding content_exCreated
    by (simp_all add: findCommandInPending_def last_match_def pending_matches_def cmd_defs exContent_def part_rune_def)
  show ?thesis
    using POST_after_queued_CREATE_PART [OF reliable_exLibs exCreated_ok distinct_alphabet_runes dom
        parsed c, of 2 0 3] .
qed

section \<open>Reads that miss the queue\<close>

text \<open>C20: A partition is created again after it was deleted, and the creation is still queued as the newest
  command that a \<open>GET\<close> of one of its documents meets, while the shard still holds the document of the old
  partition. The view, the database as the contract has it, does not hold the document, but the \<open>GET\<close>
  falls through to the shard and answers with what was deleted.\<close>

theorem GET_after_recreation:
  assumes "reliable_libs L" and "sm_inv L s" and "db_view L s = Some m"
    and "ParseCommand (libDecode L) raw = Inr c" and "cmdType c = GET"
    and "shardMap s (part_rune c) \<noteq> None"
    and "findCommandInPending (pending s) c = Some x" and "cmdType x = CREATE_PART"
    and "sees (state_content L s) c = (True, Some old)"
  shows "Lookup L s raw = Done (Inr (Success old)) \<and> view_answer m c = NotFound"
proof -
  have "content_ok (libDecode L) (state_content L s)" using assms(2) by (simp add: sm_inv_def)
  then have "LookupGetRequestInState L s c = Inr (view_answer (state_content L s) c)"
    using assms(6) reliable_libs.begin_ok [OF assms(1)]
    by (intro in_state_answer) (simp_all add: fun_eq_iff part_rune_def)
  then have "LookupGetRequest L s c = Inr (Success old)"
    using assms(7-9) by (simp add: LookupGetRequest_def view_answer_def)
  moreover have "view_answer m c = NotFound"
    using view_search [OF assms(2,3), of c] assms(7,8) by (simp add: view_answer_def left_by_def type_defs)
  ultimately show ?thesis using assms(4,5) by (simp add: Lookup_def)
qed

definition exRecreated :: "(mem_db, ex_ix) ByStateMachine" where
  "exRecreated = exStored\<lparr>pending :=
     [\<lparr>ueEntry = None, ueCmd = cmdDrop ''a'', ueExistingDoc = None,
       uePartExists = True, ueIndex = 1, ueShardId = 97\<rparr>,
      \<lparr>ueEntry = None, ueCmd = cmdCreate ''a'', ueExistingDoc = None,
       uePartExists = False, ueIndex = 2, ueShardId = 97\<rparr>]\<rparr>"

lemma exRecreated_simps [simp]:
  "shardMap exRecreated = shardMap exStored" "pending exRecreated =
     [\<lparr>ueEntry = None, ueCmd = cmdDrop ''a'', ueExistingDoc = None,
       uePartExists = True, ueIndex = 1, ueShardId = 97\<rparr>,
      \<lparr>ueEntry = None, ueCmd = cmdCreate ''a'', ueExistingDoc = None,
       uePartExists = False, ueIndex = 2, ueShardId = 97\<rparr>]"
  by (simp_all add: exRecreated_def)

lemma content_exRecreated: "state_content exLibs exRecreated = exContent"
  using content_exStored by (simp add: state_content_def fun_eq_iff)

lemma exRecreated_ok: "sm_inv exLibs exRecreated" "db_view exLibs exRecreated = Some [''a'' \<mapsto> Map.empty]"
proof -
  show view: "db_view exLibs exRecreated = Some [''a'' \<mapsto> Map.empty]"
    by (simp add: db_view_def content_exRecreated cmd_defs type_defs apply_strict_def apply_command_def
        exContent_def)
  then show "sm_inv exLibs exRecreated"
    using content_ok_exContent
    by (simp add: sm_inv_def content_exRecreated queued_ok_def wf_command_def in_own_shard_def cmd_defs
        type_defs)
qed

theorem GET_after_recreation_witness:
  "Lookup exLibs exRecreated (''GET '' @ ''a'' @ '' '' @ ''x'') = Done (Inr (Success textX7)) \<and>
    view_answer [''a'' \<mapsto> Map.empty] (cmdGet ''a'' ''x'') = NotFound"
proof -
  let ?c = "cmdGet ''a'' ''x''"
  have parsed: "ParseCommand (libDecode exLibs) (''GET '' @ ''a'' @ '' '' @ ''x'') = Inr ?c"
    using parse_Get [of "''a''" "''x''" exDecode] by simp
  have c: "cmdType ?c = GET" "shardMap exRecreated (part_rune ?c) \<noteq> None"
      "findCommandInPending (pending exRecreated) ?c = Some (cmdCreate ''a'')"
      "cmdType (cmdCreate ''a'') = CREATE_PART" "sees (state_content exLibs exRecreated) ?c = (True, Some textX7)"
    unfolding content_exRecreated
    by (simp_all add: findCommandInPending_def last_match_def pending_matches_def cmd_defs exContent_def
        part_rune_def sees_def FullId_def)
  show ?thesis using GET_after_recreation [OF reliable_exLibs exRecreated_ok parsed c] .
qed

text \<open>A \<open>SEARCH\<close> does not look at the queue: whatever \<open>Update\<close> accepts, the answer is what it was
  before, until the next \<open>Sync\<close>.\<close>

lemma SEARCH_misses_the_queue:
  assumes "Update L order s ups = Done (s', ups', err)"
    and "ParseCommand (libDecode L) raw = Inr c" and "cmdType c = SEARCH"
  shows "Lookup L s' raw = Lookup L s raw"
proof -
  have "shardMap s' = shardMap s"
    using assms(1) updateShards_shards [of L order _ s ups]
    by (auto simp: Update_def outcome_eqs) (metis fst_conv)
  then have "getPartitionShard s' p = getPartitionShard s p" for p by (simp add: getPartitionShard_def)
  then show ?thesis using assms(2,3) by (simp add: Lookup_def LookupSearchRequest_def)
qed

lemma SEARCH_misses_the_queue_witness:
  "\<exists>s' ups'. Update exLibs alphabet_runes exStored [exEntry 1 (''POST '' @ textY7)] = Done (s', ups', None) \<and>
    Lookup exLibs s' (''SEARCH '' @ ''a'' @ '' '' @ ''y'') = Lookup exLibs exStored (''SEARCH '' @ ''a'' @ '' '' @ ''y'')"
proof -
  have parsed: "map (\<lambda>en. ParseCommand (libDecode exLibs) (enCmd en)) [exEntry 1 (''POST '' @ textY7)] =
      map Inr [cmdPost textY7 (exDoc ''a'' ''y'' 7)]"
    using parse_Post [of textY7 exDecode] by simp
  obtain s' ups' where run: "Update exLibs alphabet_runes exStored [exEntry 1 (''POST '' @ textY7)] = Done (s', ups', None)"
    using Update_gets_through [OF _ exStored_ok(1) distinct_alphabet_runes parsed]
      reliable_libs.begin_ok [OF reliable_exLibs] by blast
  have "line_text ''y''" by (simp add: line_text_def)
  then have "ParseCommand (libDecode exLibs) (''SEARCH '' @ ''a'' @ '' '' @ ''y'') =
      Inr ((newCommand (''SEARCH '' @ ''a'' @ '' '' @ ''y''))\<lparr>cmdType := SEARCH, cmdPart := ''a'', cmdQuery := ''y''\<rparr>)"
    by (intro wire_parses wire.search) simp_all
  from SEARCH_misses_the_queue [OF run this] run show ?thesis by simp
qed

section \<open>Partitions outside the alphabet\<close>

lemma no_shard_unanswered:
  assumes "distinct cs" and "\<forall>e \<in> set es. in_own_shard e" and "\<forall>e \<in> set (pending s). in_own_shard e"
    and "map ueEntry es = map Some [0..<length ups]" and "i < length ups"
    and "ueShardId (es ! i) \<notin> set cs" and "updateShards L cs es s ups = (s', ups', None)"
  shows "ups' ! i = ups ! i"
proof -
  from updateShards_run_self [OF assms(1-3)] assms(7)
  have ok: "\<forall>c \<in> set cs. \<exists>ds. shard_entries L s es c = Inr ds"
    and ups': "ups' = fold answer (all_decided L s es cs) ups"
    by (simp_all add: all_decided_def)
  have len: "length es = length ups" using arg_cong [OF assms(4), of length] by simp
  have entry: "ueEntry (es ! j) = Some j" if "j < length ups" for j
    using arg_cong [OF assms(4), of "\<lambda>xs. xs ! j"] that len by simp
  have "ueEntry d \<noteq> Some i" if d: "d \<in> set (all_decided L s es cs)" for d
  proof
    assume i: "ueEntry d = Some i"
    from d obtain c where c: "c \<in> set cs" "d \<in> set (decided L s es c)" by (auto simp: all_decided_def)
    from bspec [OF ok c(1)] obtain ds where ds: "shard_entries L s es c = Inr ds" ..
    with c(2) have "ueShardId d = c" using shard_entries_set(2) [OF ds] by (simp add: decided_Inr)
    moreover from all_decided_source [OF ok d] obtain e where
      e: "e \<in> set es" "ueEntry e = ueEntry d" "ueShardId e = ueShardId d" by blast
    then obtain j where "j < length ups" "e = es ! j" using len by (auto simp: in_set_conv_nth)
    with entry e(2) i have "e = es ! i" by simp
    ultimately show False using assms(6) c(1) e(3) by simp
  qed
  then show ?thesis unfolding ups' by (intro fold_answer_other) blast
qed

text \<open>C39: A command whose partition begins with no letter of the alphabet falls to no shard of the map:
  an \<open>Update\<close> that reports no error has left the result of its entry as it was, so that the zero value goes
  back as the answer, and has not queued the command. This holds for every batch and every queue of entries
  in their own shards.\<close>

theorem no_shard_no_answer:
  assumes "distinct order" and "\<forall>e \<in> set (pending s). in_own_shard e"
    and "Update L order s ups = Done (s', ups', None)" and "i < length ups"
    and "ParseCommand (libDecode L) (enCmd (ups ! i)) = Inr c" and "part_rune c \<notin> set order"
  shows "ups' ! i = ups ! i \<and> (\<exists>new. pending s' = pending s @ new \<and> (\<forall>e \<in> set new. ueCmd e \<noteq> c))"
proof -
  obtain es where es: "parseEntries (libDecode L) 0 ups = Done es" "updateShards L order es s ups = (s', ups', None)"
    using assms(3) by (auto simp: Update_def outcome_eqs)
  note own = conjunct2 [OF parseEntries_entries [OF es(1)]]
  have "ueShardId (es ! i) = part_rune c"
    using parseEntries_nth [OF es(1) assms(4,5)] by (simp add: part_rune_def)
  with parseEntries_entries [OF es(1)] es(2) assms have "ups' ! i = ups ! i"
    by (intro no_shard_unanswered [OF assms(1) _ assms(2)]) simp_all
  moreover have new: "\<forall>c \<in> set order. \<exists>ds. shard_entries L s es c = Inr ds"
      "pending s' = pending s @ concat (map (\<lambda>c. accepted (decided L s es c)) order)"
    using updateShards_run_self [OF assms(1) own assms(2)] es(2) by simp_all
  have "part_rune (ueCmd e) \<in> set order" if e: "e \<in> set (accepted (decided L s es q))" "q \<in> set order" for e q
  proof -
    from bspec [OF new(1) e(2)] obtain ds where ds: "shard_entries L s es q = Inr ds" ..
    with e(1) obtain d where "d \<in> set ds" "ueCmd e = ueCmd d"
      by (auto simp: decided_Inr dest!: accepted_set)
    with shard_entries_set [OF ds, of d] own e(2) show ?thesis by (auto simp: in_own_shard_def part_rune_def)
  qed
  then have "\<forall>e \<in> set (concat (map (\<lambda>c. accepted (decided L s es c)) order)). ueCmd e \<noteq> c"
    using assms(6) by auto
  ultimately show ?thesis using new(2) by blast
qed

text \<open>The creation of a partition whose name begins with a capital letter is answered 0 and is lost.\<close>

theorem no_shard_no_answer_witness:
  "\<exists>s' ups'. Update exLibs alphabet_runes exState [exEntry 1 (''CREATE_PART '' @ ''Zed'')] = Done (s', ups', None) \<and>
    enValue (ups' ! 0) = 0 \<and> (\<forall>e \<in> set (pending s'). ueCmd e \<noteq> cmdCreate ''Zed'')"
proof -
  have tok: "token ''Zed''" by (simp add: token_def is_space_def)
  have parsed: "map (\<lambda>en. ParseCommand (libDecode exLibs) (enCmd en)) [exEntry 1 (''CREATE_PART '' @ ''Zed'')] =
      map Inr [cmdCreate ''Zed'']"
    using parse_Create [OF tok, of exDecode] by simp
  obtain s' ups' where run: "Update exLibs alphabet_runes exState [exEntry 1 (''CREATE_PART '' @ ''Zed'')] = Done (s', ups', None)"
    using Update_gets_through [OF _ exState_ok(1) distinct_alphabet_runes parsed]
      reliable_libs.begin_ok [OF reliable_exLibs] by blast
  have queue: "\<forall>e \<in> set (pending exState). in_own_shard e" by (simp add: exState_def)
  have first: "ParseCommand (libDecode exLibs) (enCmd ([exEntry 1 (''CREATE_PART '' @ ''Zed'')] ! 0)) = Inr (cmdCreate ''Zed'')"
    using parse_Create [OF tok, of exDecode] by simp
  have "part_rune (cmdCreate ''Zed'') \<notin> set alphabet_runes"
    by (simp add: part_rune_def cmd_defs getFirstRune_def alphabet_runes_eq)
  from no_shard_no_answer [OF distinct_alphabet_runes queue run _ first this] run
  show ?thesis by (auto simp: exState_def)
qed

section \<open>Documents that cannot be changed\<close>

text \<open>C40: A stored document with a negative \<open>updated\<close> is never updated or deleted: every \<open>PUT\<close> and
  every \<open>DEL\<close> that parses is answered with 409, because the protocol writes the time stamp as digits
  only.\<close>

theorem negative_updated_is_stuck:
  assumes "reliable_libs L" and "sm_inv L s" and "db_view L s = Some m"
    and "distinct order" and "set order = dom (shardMap s)"
    and "ParseCommand (libDecode L) raw = Inr c" and "cmdType c = PUT \<or> cmdType c = DEL"
    and "batch_safe s [c]" and "sees m c = (True, Some old)" and "libDecode L old = Inr d"
    and "sint (docUpdated d) < 0"
  shows "\<exists>s' en'. Update L order s [\<lparr>enIndex = i, enCmd = raw, enValue = v\<rparr>] = Done (s', [en'], None) \<and>
    enValue en' = 409 \<and> db_view L s' = Some m"
proof -
  let ?ups = "[\<lparr>enIndex = i, enCmd = raw, enValue = v\<rparr>]"
  have parsed: "map (\<lambda>en. ParseCommand (libDecode L) (enCmd en)) ?ups = map Inr [c]"
    using assms(6) by simp
  obtain s' ups' where run: "Update L order s ?ups = Done (s', ups', None)"
    using Update_gets_through [OF reliable_libs.begin_ok [OF assms(1)] assms(2,4) parsed] by blast
  note ref = Update_refines_contract(1,2) [OF assms(2-5) parsed assms(8) run]
  obtain en' where en': "ups' = [en']"
    using arg_cong [OF ref(1), of length] by (auto simp: length_Suc_conv split_beta)
  have "0 \<le> sint (cmdTs c)" using assms(6,7) wire_ts_nonneg by (simp add: ParseCommand_iff_wire)
  with assms(11) have "docUpdated d \<noteq> cmdTs c" by auto
  with assms(7,9,10) have "spec_code (libDecode L) c m = 409"
    by (auto simp: spec_code_def stored_updated_def)
  with ref run en' show ?thesis by (simp add: spec_effect_def)
qed

theorem negative_updated_is_stuck_witness:
  "\<exists>s' en'. Update exLibs alphabet_runes (exWith textN)
      [\<lparr>enIndex = 1, enCmd = ''DEL '' @ ''a'' @ '' '' @ ''x'' @ '' 7'', enValue = 0\<rparr>] = Done (s', [en'], None) \<and>
    enValue en' = 409 \<and> db_view exLibs s' = Some (contentWith textN)"
proof -
  let ?c = "cmdDel7 ''a'' ''x''"
  have ok: "sm_inv exLibs (exWith textN)" "db_view exLibs (exWith textN) = Some (contentWith textN)"
    using exWith_ok [of textN "-1"] by simp_all
  have parsed: "ParseCommand (libDecode exLibs) (''DEL '' @ ''a'' @ '' '' @ ''x'' @ '' 7'') = Inr ?c"
    using parse_Del7 [of "''a''" "''x''" exDecode] by simp
  have c: "cmdType ?c = PUT \<or> cmdType ?c = DEL" "batch_safe (exWith textN) [?c]"
      "sees (contentWith textN) ?c = (True, Some textN)"
      "libDecode exLibs textN = Inr (exDoc ''a'' ''x'' (-1))" "sint (docUpdated (exDoc ''a'' ''x'' (-1))) < 0"
    by (simp_all add: batch_safe_def batch_seen_def one_search_def none_deleted_def findCommandInPending_def
        cmd_defs part_rune_def type_defs sees_def contentWith_def FullId_def)
  show ?thesis
    using negative_updated_is_stuck [OF reliable_exLibs ok distinct_alphabet_runes dom_exWith parsed c, of 1 0] .
qed

section \<open>Keys that collide\<close>

text \<open>The key of a document, partition, colon and identifier, does not determine the two: there
  are documents of different partitions of one shard with the same key. Their buckets differ, but the
  index of the shard is shared: deleting the one queues the deletion of the other's index entry.\<close>

lemma keys_collide:
  "\<exists>raw raw' c c'. ParseCommand js raw = Inr c \<and> ParseCommand js raw' = Inr c' \<and>
    cmdType c = DEL \<and> cmdType c' = DEL \<and> cmdPart c \<noteq> cmdPart c' \<and> part_rune c = part_rune c' \<and>
    FullId c = FullId c' \<and>
    (case applyEntry L db batch (e\<lparr>ueCmd := c\<rparr>) of
       Done (Inr (_, batch')) \<Rightarrow> batch' = batch @ [BatchDelete (FullId c')]
     | _ \<Rightarrow> True)"
proof -
  have tok: "token ''a''" "token ''b:x''" "token ''a:b''" "token ''x''"
    by (simp_all add: token_def is_space_def)
  let ?c = "cmdDel7 ''a'' ''b:x''" and ?c' = "cmdDel7 ''a:b'' ''x''"
  have c: "cmdType ?c = DEL \<and> cmdType ?c' = DEL \<and> cmdPart ?c \<noteq> cmdPart ?c' \<and> part_rune ?c = part_rune ?c' \<and>
      FullId ?c = FullId ?c'"
    by (simp add: cmd_defs part_rune_def getFirstRune_def FullId_def)
  then have "case applyEntry L db batch (e\<lparr>ueCmd := ?c\<rparr>) of
       Done (Inr (_, batch')) \<Rightarrow> batch' = batch @ [BatchDelete (FullId ?c')]
     | _ \<Rightarrow> True"
    by (auto simp: applyEntry_def Let_def split: sum.split)
  with c show ?thesis
    using parse_Del7 [OF tok(1,2), of js] parse_Del7 [OF tok(3,4), of js] by blast
qed

end
