(* ===== verification/Concurrent.thy ===== *)
theory Concurrent
  imports Machine
begin

text \<open>
  Reads during writes. Dragonboat calls the \<open>Lookup\<close> of a state machine on disk while an \<open>Update\<close> or a
  \<open>Sync\<close> runs. A \<open>GET\<close> looks at the queue first and at the shard afterwards; between the two, and in the
  middle of a batch or of a sync, the machine may move. What it answers is nevertheless what the
  database held at some moment of the read.
\<close>

section \<open>The two halves of a read\<close>

definition askQueue :: "updateEntry list \<Rightarrow> Command \<Rightarrow> Response option" where
  "askQueue pend cmd =
    (case findCommandInPending pend cmd of
       Some ex \<Rightarrow>
         (if cmdType ex = DEL \<or> cmdType ex = DELETE_PART then Some NotFound
          else if cmdType ex = POST \<or> cmdType ex = PUT then Some (Success (cmdStringDoc ex))
          else None)
     | None \<Rightarrow> None)"

text \<open>The queue is read in one state, the shard in another.\<close>

definition LookupGetBetween ::
  "('db, 'ix) libs \<Rightarrow> ('db, 'ix) ByStateMachine \<Rightarrow> ('db, 'ix) ByStateMachine \<Rightarrow> Command \<Rightarrow> gerror + Response" where
  "LookupGetBetween L u u' cmd =
    (case askQueue (pending u) cmd of
       Some r \<Rightarrow> Inr r
     | None \<Rightarrow> LookupGetRequestInState L u' cmd)"

lemma undisturbed: "LookupGetBetween L s s c = LookupGetRequest L s c"
  by (auto simp: LookupGetBetween_def askQueue_def LookupGetRequest_def split: option.split)

lemma between_cong:
  assumes "findCommandInPending (pending u) c = findCommandInPending (pending x) c"
    and "shardMap u' (part_rune c) = shardMap y (part_rune c)"
  shows "LookupGetBetween L u u' c = LookupGetBetween L x y c"
proof -
  have shard: "LookupGetRequestInState L u' c = LookupGetRequestInState L y c"
    using assms(2) by (simp add: LookupGetRequestInState_def getPartitionShard_def part_rune_def)
  show ?thesis unfolding LookupGetBetween_def askQueue_def assms(1) shard by (rule refl)
qed

section \<open>The moments of a step\<close>

text \<open>
  What a read can meet while a call runs: the state before the call; the queue with some of the
  entries that an \<open>Update\<close> appends; or, in a \<open>Sync\<close>, some of the shards written, in any order, and the
  queue still full. The bolt transaction of a shard shows its writes all at once.
\<close>

inductive seen_at ::
  "('db, 'ix) libs \<Rightarrow> ('db, 'ix) ByStateMachine \<Rightarrow> sm_event \<Rightarrow> ('db, 'ix) ByStateMachine \<Rightarrow>
    ('db, 'ix) ByStateMachine \<Rightarrow> bool" for L where
  before: "sm_step L s e s' \<Longrightarrow> seen_at L s e s' s"
| queueing: "sm_step L s (Wrote cmds codes) s' \<Longrightarrow> length (pending s) \<le> k \<Longrightarrow>
    seen_at L s (Wrote cmds codes) s' (s\<lparr>pending := take k (pending s')\<rparr>)"
| applying: "distinct order \<Longrightarrow> set order = dom (shardMap s) \<Longrightarrow> Sync L order s = Done (s', None) \<Longrightarrow>
    applyShards L (take k order) (s\<lparr>lastIndex := findHighestIndexInPending s\<rparr>) = Done u \<Longrightarrow>
    seen_at L s Synced s' u"

text \<open>A read that begins at \<open>u\<close> and ends at \<open>u'\<close>, and the steps that it overlaps.\<close>

inductive overlaps ::
  "('db, 'ix) libs \<Rightarrow> ('db, 'ix) ByStateMachine \<Rightarrow> sm_event list \<Rightarrow> ('db, 'ix) ByStateMachine \<Rightarrow>
    ('db, 'ix) ByStateMachine \<Rightarrow> ('db, 'ix) ByStateMachine \<Rightarrow> bool" for L where
  within: "seen_at L s e s' u \<Longrightarrow> seen_at L s e s' u' \<Longrightarrow> overlaps L s [e] s' u u'"
| across: "seen_at L s e t u \<Longrightarrow> runs (sm_step L) t es v \<Longrightarrow> seen_at L v e' s' u' \<Longrightarrow>
    overlaps L s (e # es @ [e']) s' u u'"

inductive_cases seen_atE: "seen_at L s e s' u"
inductive_cases overlapsE: "overlaps L s es s' u u'"

lemma seen_step: "seen_at L s e s' u \<Longrightarrow> sm_step L s e s'"
  by (auto elim!: seen_atE intro: sm_step.synced)

lemma overlaps_run: "overlaps L s es s' u u' \<Longrightarrow> runs (sm_step L) s es s'"
  by (erule overlapsE) (use seen_step in \<open>fastforce simp: runs_append\<close>)+

section \<open>A moment is like a state before or after\<close>

text \<open>Two entries of one safe batch do not both match a command.\<close>

lemma unrelated_matches:
  assumes "queued_ok js d" and "queued_ok js e" and "unrelated (ueCmd d) (ueCmd e)"
    and "pending_matches c d" and "pending_matches c e"
  shows False
  using assms queued_okD(3) [THEN wf_commandD(1)]
  by (auto simp: pending_matches_def unrelated_def)

lemma one_match:
  assumes "sorted_wrt unrelated (map ueCmd q)" and "\<forall>e \<in> set q. queued_ok js e"
    and "findCommandInPending (take j q) c = Some x"
  shows "findCommandInPending q c = Some x"
proof -
  obtain e where e: "last_match (pending_matches c) (take j q) = Some e" "x = ueCmd e"
    using assms(3) by (auto simp: findCommandInPending_def)
  then have m: "pending_matches c e" "e \<in> set (take j q)" using last_match_Some by fastforce+
  have split: "sorted_wrt unrelated (map ueCmd (take j q @ drop j q))" using assms(1) by simp
  have "\<not> pending_matches c d" if "d \<in> set (drop j q)" for d
  proof
    assume "pending_matches c d"
    moreover have "unrelated (ueCmd e) (ueCmd d)"
      using split m(2) that unfolding map_append sorted_wrt_append by auto
    moreover have "queued_ok js d" "queued_ok js e"
      using assms(2) that m(2) by (auto dest: in_set_takeD in_set_dropD)
    ultimately show False using unrelated_matches m(1) by blast
  qed
  then have "last_match (pending_matches c) (drop j q) = None" by (simp add: last_match_None)
  with e(1) have "last_match (pending_matches c) (take j q @ drop j q) = Some e"
    unfolding last_match_append by simp
  with e(2) show ?thesis by (simp add: findCommandInPending_def)
qed

context reliable_libs begin

lemma wrote_queue:
  assumes "run_inv L s" and "sm_step L s (Wrote cmds codes) s'"
  obtains q where "s' = s\<lparr>pending := pending s @ q\<rparr>" and "\<forall>e \<in> set q. queued_ok (libDecode L) e"
    and "sorted_wrt unrelated (map ueCmd q)"
proof -
  obtain m where m: "sm_inv L s" "db_view L s = Some m"
    using assms(1) by (auto simp: run_inv_def sm_inv_def)
  from assms(2) obtain order ups ups' where st: "distinct order" "set order = dom (shardMap s)"
      "map (\<lambda>en. ParseCommand (libDecode L) (enCmd en)) ups = map Inr cmds" "batch_safe s cmds"
      "Update L order s ups = Done (s', ups', None)"
    unfolding sm_step_wrote by blast
  then have safe: "batch_seen s cmds" "sorted_wrt unrelated cmds" by (simp_all add: batch_safe_def)
  obtain q where q: "s' = s\<lparr>pending := pending s @ q\<rparr>" "\<forall>e \<in> set q. queued_ok (libDecode L) e"
      "map ueCmd q = concat (map (\<lambda>c. filter (\<lambda>x. part_rune x = c \<and> spec_code (libDecode L) x m = 200) cmds) order)"
    using Update_seen(2) [OF m st(1-3) safe(1) st(5)] by blast
  have "sorted_wrt unrelated (concat (map (\<lambda>c. filter (\<lambda>x. part_rune x = c)
      (filter (\<lambda>x. spec_code (libDecode L) x m = 200) cmds)) order))"
    using safe(2) part_rune_unrelated st(1) by (intro sorted_wrt_grouped sorted_wrt_filter) auto
  with q that show thesis by (simp add: conj_commute)
qed

text \<open>What the queue and a shard are at a moment, they are before the step or after it.\<close>

lemma seen_queue:
  assumes "run_inv L s" and "seen_at L s e s' u"
  shows "findCommandInPending (pending u) c = findCommandInPending (pending s) c \<or>
    findCommandInPending (pending u) c = findCommandInPending (pending s') c \<and> shardMap s' = shardMap s"
  using assms(2)
proof (cases rule: seen_at.cases)
  case before
  then show ?thesis by simp
next
  case (queueing cmds codes k)
  obtain q where q: "s' = s\<lparr>pending := pending s @ q\<rparr>" "\<forall>e \<in> set q. queued_ok (libDecode L) e"
      "sorted_wrt unrelated (map ueCmd q)"
    using wrote_queue [OF assms(1) queueing(3)] by blast
  have u: "pending u = pending s @ take (k - length (pending s)) q" using queueing(2,4) q(1) by simp
  show ?thesis
  proof (cases "findCommandInPending (take (k - length (pending s)) q) c")
    case None
    then show ?thesis using u by (simp add: findCommandInPending_def last_match_append)
  next
    case (Some x)
    with one_match [OF q(3,2) Some] u q(1) show ?thesis
      by (auto simp: findCommandInPending_def last_match_append)
  qed
next
  case (applying order k)
  then have "distinct (take k order)" by simp
  from applying(5) [unfolded applyShards_eq [OF this]] have "pending u = pending s" by simp
  then show ?thesis by simp
qed

lemma seen_shard:
  assumes "run_inv L s" and "seen_at L s e s' u"
  shows "shardMap u r = shardMap s r \<or> shardMap u r = shardMap s' r"
  using assms(2)
proof (cases rule: seen_at.cases)
  case before
  then show ?thesis by simp
next
  case (queueing cmds codes k)
  then show ?thesis by simp
next
  case (applying order k)
  have take: "distinct (take k order)" "set (take k order) \<subseteq> set order"
    using applying(2) by (simp_all add: set_take_subset)
  from applying(5) [unfolded applyShards_eq [OF take(1)]]
  have u: "shardMap u = applied_map L s (take k order)" by simp
  obtain m where "sm_inv L s" "db_view L s = Some m" using assms(1) by (auto simp: run_inv_def sm_inv_def)
  from applying(4) have "updateLastUpdateIndex L (flushed L order s) = Done (s', None)"
    by (simp add: Sync_eq [OF applying(2)])
  moreover obtain meta where "updateLastUpdateIndex L (flushed L order s) =
      Done ((flushed L order s)\<lparr>metaDb := Some meta\<rparr>, None)"
    using update_index [of "flushed L order s"] assms(1) by (auto simp: run_inv_def meta_ready_def flushed_def)
  ultimately have "shardMap s' = applied_map L s order" by (auto simp: flushed_def)
  with u take(2) show ?thesis by (auto simp: applied_map_def)
qed

end

section \<open>Between two states\<close>

text \<open>A state on the way of a run, whose view a read answers from.\<close>

definition answered_on_the_way ::
  "('db, 'ix) libs \<Rightarrow> ('db, 'ix) ByStateMachine \<Rightarrow> sm_event list \<Rightarrow> ('db, 'ix) ByStateMachine \<Rightarrow>
    Command \<Rightarrow> gerror + Response \<Rightarrow> bool" where
  "answered_on_the_way L s es s' c r \<longleftrightarrow>
    (\<exists>as bs t m. es = as @ bs \<and> runs (sm_step L) s as t \<and> runs (sm_step L) t bs s' \<and>
      db_view L t = Some m \<and> r = Inr (view_answer m c))"

lemma answered_longer:
  assumes "answered_on_the_way L x es y c r" and "runs (sm_step L) s as x" and "runs (sm_step L) y bs s'"
  shows "answered_on_the_way L s (as @ es @ bs) s' c r"
proof -
  from assms(1) obtain es1 es2 t m where es: "es = es1 @ es2" "runs (sm_step L) x es1 t" "runs (sm_step L) t es2 y"
      "db_view L t = Some m" "r = Inr (view_answer m c)"
    unfolding answered_on_the_way_def by blast
  have "runs (sm_step L) s (as @ es1) t" "runs (sm_step L) t (es2 @ bs) s'"
    using assms(2,3) es(2,3) by (auto simp: runs_append)
  moreover have "as @ es @ bs = (as @ es1) @ (es2 @ bs)" using es(1) by simp
  ultimately show ?thesis unfolding answered_on_the_way_def using es(4,5) by blast
qed

context reliable_libs begin

lemma unsynced_shards:
  "run_inv L s \<Longrightarrow> runs (sm_step L) s es s' \<Longrightarrow> Synced \<notin> set es \<Longrightarrow>
    shardMap s' = shardMap s \<and> metaDb s' = metaDb s"
proof (induction es arbitrary: s)
  case Nil
  then show ?case by simp
next
  case (Cons e es)
  then obtain t where t: "sm_step L s e t" "runs (sm_step L) t es s'" by auto
  have "shardMap t = shardMap s \<and> metaDb t = metaDb s"
  proof (cases e)
    case (Wrote cmds codes)
    with t(1) obtain q where "t = s\<lparr>pending := pending s @ q\<rparr>"
      using wrote_queue [OF Cons.prems(1)] by metis
    then show ?thesis by simp
  next
    case Synced
    with Cons.prems(3) show ?thesis by simp
  next
    case (Read d r)
    with t(1) show ?thesis by (simp add: sm_step_read)
  qed
  with Cons.IH [OF sim.inv_step [OF Cons.prems(1) t(1)] t(2)] Cons.prems(3) show ?case by simp
qed

lemma quiet_read:
  assumes "run_inv L s" and "shardMap s (part_rune c) \<noteq> None"
    and "\<And>x. findCommandInPending (pending s) c = Some x \<Longrightarrow> cmdType x \<noteq> CREATE_PART"
  shows "\<exists>m. db_view L s = Some m \<and> LookupGetBetween L s s c = Inr (view_answer m c)"
proof -
  obtain m where m: "sm_inv L s" "db_view L s = Some m" using assms(1) by (auto simp: run_inv_def sm_inv_def)
  have "not_recreated L s c" using assms(3) by (simp add: not_recreated_def split: option.split)
  moreover have "txBegin (libBolt L) = (\<lambda>db. None)" using begin_ok by (simp add: fun_eq_iff)
  ultimately have "LookupGetRequest L s c = Inr (view_answer m c)"
    using get_reads_view [OF _ m, of c] assms(2) by (simp add: part_rune_def)
  with m(2) show ?thesis by (simp add: undisturbed)
qed

lemma read_between:
  assumes "run_inv L x" and "runs (sm_step L) x es y" and "shardMap x (part_rune c) \<noteq> None"
    and "\<And>d. findCommandInPending (pending x) c = Some d \<Longrightarrow> cmdType d \<noteq> CREATE_PART"
  shows "answered_on_the_way L x es y c (LookupGetBetween L x y c)"
proof (cases "LookupGetBetween L x y c = LookupGetBetween L x x c")
  case True
  moreover obtain m where "db_view L x = Some m" "LookupGetBetween L x x c = Inr (view_answer m c)"
    using quiet_read [OF assms(1,3,4)] by blast
  ultimately show ?thesis using assms(2) unfolding answered_on_the_way_def by fastforce
next
  case False
  then have ask: "askQueue (pending x) c = None" by (auto simp: LookupGetBetween_def split: option.splits)
  have "Synced \<in> set es"
    using False between_cong [of x c x y x L] unsynced_shards [OF assms(1,2)] by metis
  then obtain as bs where es: "es = as @ Synced # bs" "Synced \<notin> set bs" by (blast dest: split_list_last)
  with assms(2) obtain t0 t where t: "runs (sm_step L) x as t0" "sm_step L t0 Synced t" "runs (sm_step L) t bs y"
    by (auto simp: runs_append)
  have inv0: "run_inv L t0" by (rule run_inv_runs [OF assms(1) t(1)])
  obtain m0 where m0: "db_view L t0 = Some m0" using inv0 by (auto simp: run_inv_def sm_inv_def)
  note t1 = synced_empty [OF inv0 m0 t(2)]
  have shards: "shardMap y = shardMap t" using unsynced_shards [OF t1(4) t(3) es(2)] by blast
  have "dom (shardMap t) = dom (shardMap x)"
    using run_dom [OF assms(1) t(1)] step_dom [OF inv0 t(2)] by simp
  then have "shardMap t (part_rune c) \<noteq> None" using assms(3) by (auto simp: domIff set_eq_iff)
  from quiet_read [OF t1(4) this] t1(1,3) have "LookupGetBetween L t t c = Inr (view_answer m0 c)"
    by (simp add: findCommandInPending_def)
  moreover have "LookupGetBetween L x y c = LookupGetBetween L t t c"
    using ask t1(1) shards
    by (simp add: LookupGetBetween_def askQueue_def findCommandInPending_def LookupGetRequestInState_def
        getPartitionShard_def)
  ultimately show ?thesis
    unfolding answered_on_the_way_def using es(1) t m0 by (metis runs.simps(2))
qed

lemma read_at_moments:
  assumes "run_inv L s" and "overlaps L s es s' u u'" and "shardMap s (part_rune c) \<noteq> None"
    and "\<And>d. findCommandInPending (pending u) c = Some d \<Longrightarrow> cmdType d \<noteq> CREATE_PART"
  shows "answered_on_the_way L s es s' c (LookupGetBetween L u u' c)"
proof -
  have stretch: "answered_on_the_way L s (as @ mid @ bs) s' c (LookupGetBetween L u u' c)"
    if "runs (sm_step L) s as x" and "runs (sm_step L) x mid y" and "runs (sm_step L) y bs s'"
      and queue: "findCommandInPending (pending u) c = findCommandInPending (pending x) c"
      and shard: "shardMap u' (part_rune c) = shardMap y (part_rune c)"
    for as mid bs x y
  proof -
    have "shardMap x (part_rune c) \<noteq> None"
      using run_dom [OF assms(1) that(1)] assms(3) by (auto simp: domIff set_eq_iff)
    from read_between [OF run_inv_runs [OF assms(1) that(1)] that(2) this] assms(4) queue
    have "answered_on_the_way L x mid y c (LookupGetBetween L x y c)" by simp
    from answered_longer [OF this that(1,3)] show ?thesis
      by (simp add: between_cong [OF queue shard])
  qed
  from assms(2) show ?thesis
  proof cases
    case (within e)
    have st: "runs (sm_step L) s [e] s'" using seen_step [OF within(2)] by simp
    from seen_queue [OF assms(1) within(2), of c] seen_shard [OF assms(1) within(3), of "part_rune c"]
      stretch [of "[]" s "[]" s "[e]"] stretch [of "[]" s "[e]" s' "[]"] stretch [of "[e]" s' "[]" s' "[]"] st
    show ?thesis unfolding within(1) by auto
  next
    case (across e t es1 v e')
    have e: "runs (sm_step L) s [e] t" and e': "runs (sm_step L) v [e'] s'"
      using seen_step [OF across(2)] seen_step [OF across(4)] by simp_all
    have v: "run_inv L v"
      by (rule run_inv_runs [OF run_inv_runs [OF assms(1) e] across(3)])
    have "runs (sm_step L) s (e # es1) v" "runs (sm_step L) t (es1 @ [e']) s'" "runs (sm_step L) s es s'"
      using e e' across(1,3) by (auto simp: runs_append)
    with seen_queue [OF assms(1) across(2), of c] seen_shard [OF v across(4), of "part_rune c"] e e' across(1,3)
      stretch [of "[]" s "e # es1" v "[e']"] stretch [of "[]" s es s' "[]"]
      stretch [of "[e]" t es1 v "[e']"] stretch [of "[e]" t "es1 @ [e']" s' "[]"]
    show ?thesis by auto
  qed
qed

end

section \<open>Every read is atomic\<close>

text \<open>C13: Reads during writes. A \<open>GET\<close> reads the queue at one moment and the shard at a later one, and the
  moments may lie in the middle of batches and syncs, with any number of calls between them; the batches
  are safe (see C1), and reading the queue is taken to be atomic. Over libraries that work,
  unless the newest command of the queue it reads that meets the document is the creation of its partition,
  the \<open>GET\<close> answers what the view of some state on the way held: the read takes effect at one point
  between its beginning and its end.\<close>

theorem GET_during_writes:
  assumes "reliable_libs L" and "run_inv L s" and "overlaps L s es s' u u'"
    and "shardMap s (part_rune c) \<noteq> None"
    and "\<And>d. findCommandInPending (pending u) c = Some d \<Longrightarrow> cmdType d \<noteq> CREATE_PART"
  shows "\<exists>as bs t m. es = as @ bs \<and> runs (sm_step L) s as t \<and> runs (sm_step L) t bs s' \<and>
    db_view L t = Some m \<and> LookupGetBetween L u u' c = Inr (view_answer m c)"
  using reliable_libs.read_at_moments [OF assms] unfolding answered_on_the_way_def .

text \<open>A read that began before a deletion was queued and reads the shard while the deletion is flushed.\<close>

theorem GET_during_writes_witness:
  "\<exists>s' u'. overlaps exLibs exStored [Wrote [cmdDel7 ''a'' ''x''] [200], Synced] s' exStored u' \<and>
    LookupGetBetween exLibs exStored u' (cmdGet ''a'' ''x'') \<in> {Inr (Success textX7), Inr NotFound}"
proof -
  let ?d = "cmdDel7 ''a'' ''x''" and ?g = "cmdGet ''a'' ''x''"
  obtain s1 where s1: "sm_step exLibs exStored (Wrote [?d] [200]) s1" using ex_del by blast
  have inv: "run_inv exLibs s1"
    by (rule reliable_libs.run_inv_runs [OF reliable_exLibs run_inv_exStored, of "[Wrote [?d] [200]]"])
      (simp add: s1)
  have dom: "set alphabet_runes = dom (shardMap s1)"
    using reliable_libs.step_dom [OF reliable_exLibs run_inv_exStored s1] dom_exStored by simp
  obtain m1 where m1: "sm_inv exLibs s1" "db_view exLibs s1 = Some m1" using inv by (auto simp: run_inv_def sm_inv_def)
  with inv reliable_libs.Sync_flushes [OF reliable_exLibs, of s1 m1 alphabet_runes] distinct_alphabet_runes dom
  obtain s' where s': "Sync exLibs alphabet_runes s1 = Done (s', None)" by (auto simp: run_inv_def list_all_iff)
  then obtain u' where u': "applyShards exLibs alphabet_runes (s1\<lparr>lastIndex := findHighestIndexInPending s1\<rparr>) = Done u'"
    by (auto simp: Sync_def outcome_eqs)
  have "seen_at exLibs s1 Synced s' u'"
    using seen_at.applying [OF distinct_alphabet_runes dom s', of "length alphabet_runes"] u' by simp
  from overlaps.across [OF seen_at.before [OF s1] _ this, of "[]"]
  have over: "overlaps exLibs exStored [Wrote [?d] [200], Synced] s' exStored u'" by simp
  have g: "shardMap exStored (part_rune ?g) \<noteq> None" "findCommandInPending (pending exStored) ?g = None"
    by (simp_all add: part_rune_def cmd_defs findCommandInPending_def)
  from GET_during_writes [OF reliable_exLibs run_inv_exStored over g(1)] g(2)
  obtain as bs t m where way: "[Wrote [?d] [200], Synced] = as @ bs" "runs (sm_step exLibs) exStored as t"
      "db_view exLibs t = Some m" "LookupGetBetween exLibs exStored u' ?g = Inr (view_answer m ?g)"
    by auto
  have "spec_run exDecode (log_of as) exContent = (codes_of as, m)"
    using reliable_libs.run_refines [OF reliable_exLibs run_inv_exStored exStored_ok(2) way(2)] way(3)
      spec_history by fastforce
  moreover have "log_of as = [] \<or> log_of as = [?d]"
    using way(1) by (auto simp: Cons_eq_append_conv append_eq_Cons_conv)
  moreover have "view_answer exContent ?g = Success textX7"
    by (simp add: view_answer_def sees_def cmd_defs FullId_def exContent_def)
  moreover have "view_answer (spec_effect exDecode ?d exContent) ?g = NotFound"
    using accepted_seen [of exDecode ?d exContent ?g] ex_del_code by (simp add: cmd_defs)
  ultimately have "LookupGetBetween exLibs exStored u' ?g \<in> {Inr (Success textX7), Inr NotFound}"
    using way(4) by auto
  with over show ?thesis by blast
qed

end
