(* ===== verification/Storage.thy ===== *)
theory Storage
  imports Example
begin

text \<open>
  The properties of the parts below the state machine: the protocol, a shard, the layout of the data
  directory, opening and closing.
\<close>

section \<open>The protocol\<close>

text \<open>C22: \<open>ParseCommand\<close> accepts exactly the texts of the wire grammar, and gives each the command it
  stands for; whatever the decoder of documents is.\<close>

theorem ParseCommand_is_the_grammar: "ParseCommand js raw = Inr c \<longleftrightarrow> wire js raw c"
  by (rule ParseCommand_iff_wire)

text \<open>The table of formats is built without a panic: every pattern of the source compiles, and
  to the expressions written out in the model.\<close>

lemma formats_initialise: "initCommandFormats js = Done (CommandFormats js)"
  by (rule initCommandFormats_eq)

text \<open>The order of the table does not matter: any table with the same formats parses every text
  alike.\<close>

lemma format_order_irrelevant:
  assumes "set fs = set (CommandFormats js)"
  shows "parseWith fs raw = ParseCommand js raw"
  unfolding ParseCommand_def by (rule cf.parseWith_order [OF assms])

text \<open>C23: A parsed command is well formed: a command of documents carries the bytes, the document
  they decode to, and the partition and identifier of that document; every other command carries the
  zero document, not nil; a command of partitions has no identifier; and it keeps the text it was
  parsed from.\<close>

theorem parsed_command_wf:
  assumes "ParseCommand js raw = Inr c"
  shows "wf_command js c \<and> cmdRaw c = raw"
  using assms wire_wf by (simp add: ParseCommand_iff_wire)

theorem parsed_command_wf_witness:
  "wf_command exDecode (cmdPost textX7 (exDoc ''a'' ''x'' 7)) \<and>
    cmdRaw (cmdPost textX7 (exDoc ''a'' ''x'' 7)) = ''POST '' @ textX7"
  by (rule parsed_command_wf [OF parse_Post]) simp_all

text \<open>The messages of the repository's own test do not parse: a \<open>DEL\<close> without a time stamp and a
  \<open>PUT\<close> without one are format errors, where \<^verbatim>\<open>main_test.go\<close> expects commands.\<close>

lemma test_messages_rejected:
  "ParseCommand js ''DEL omanom 1234'' = Inl (ErrFormat ''DEL'') \<and>
   ParseCommand js (''PUT '' @ ''{'' @ b) = Inl (ErrFormat ''PUT'')"
proof
  have "ParseCommand js (''DEL '' @ ''omanom 1234'') = Inl (ErrFormat ''DEL'')"
    unfolding parse_DEL by (simp add: is_space_def is_digit_def)
  then show "ParseCommand js ''DEL omanom 1234'' = Inl (ErrFormat ''DEL'')" by simp
  show "ParseCommand js (''PUT '' @ ''{'' @ b) = Inl (ErrFormat ''PUT'')"
    unfolding parse_PUT by (simp add: is_digit_def)
qed

section \<open>A shard\<close>

text \<open>C24: \<open>ApplyUpdates\<close>, over any store that keeps the laws of bolt. If it returns without error, the
  content is what the commands, one after the other, make of the old one, and the index has taken exactly
  the batch of those commands: the written documents under their keys, the deleted ones and those of deleted
  partitions out. If it returns an error, the content is the old one; the index is the old one too, unless
  the transaction could be carried out and only its commit failed: then the index has taken the batch. If
  it panics, it is with a nil dereference, and the commands cannot be carried out on the content.\<close>

theorem ApplyUpdates_atomic:
  assumes "shard_laws L"
  shows "case ApplyUpdates L sh es of
      Done (sh', None) \<Rightarrow> apply_commands (map ueCmd es) (shard_content L sh) = Some (shard_content L sh') \<and>
        (\<exists>ops. index_commands (map ueCmd es) (shard_content L sh) ops \<and>
          ixBatch (libBleve L) (shIndex sh) ops = Inr (shIndex sh'))
    | Done (sh', Some err) \<Rightarrow> shard_content L sh' = shard_content L sh \<and>
        (sh' = sh \<or> (\<exists>ops db'. index_commands (map ueCmd es) (shard_content L sh) ops \<and>
          ixBatch (libBleve L) (shIndex sh) ops = Inr (shIndex sh') \<and>
          apply_commands (map ueCmd es) (shard_content L sh) = Some (content_of (libBolt L) db') \<and>
          txCommit (libBolt L) db' = Inl err))
    | Panic x \<Rightarrow> x = NilDeref \<and> apply_commands (map ueCmd es) (shard_content L sh) = None"
proof (cases "ApplyUpdates L sh es")
  case (Done r)
  obtain sh' err where r: "r = (sh', err)" by (cases r)
  show ?thesis
  proof (cases err)
    case None
    with Done r show ?thesis
      using shard_laws.ApplyUpdates_content [OF assms, of sh es] shard_laws.ApplyUpdates_index [OF assms, of sh es]
      by simp
  next
    case (Some e)
    with Done r show ?thesis
      using shard_laws.ApplyUpdates_error [OF assms, of sh es sh' e] by (auto simp: shard_content_def)
  qed
next
  case (Panic x)
  then have "applyLoop L (shBlock sh) [] es = Panic x"
    by (cases "applyLoop L (shBlock sh) [] es") (auto simp: ApplyUpdates_def split: option.splits)
  from shard_laws.applyLoop_panic [OF assms this] Panic show ?thesis by (simp add: shard_content_def)
qed

definition exDelEntry :: updateEntry where
  "exDelEntry = \<lparr>ueEntry = None, ueCmd = cmdDel7 ''a'' ''x'', ueExistingDoc = None,
     uePartExists = True, ueIndex = 1, ueShardId = 97\<rparr>"

theorem ApplyUpdates_atomic_witness:
  "\<exists>sh'. ApplyUpdates exLibs (shardWith textX7) [exDelEntry] = Done (sh', None) \<and>
    shard_content exLibs sh' = [''a'' \<mapsto> Map.empty] \<and>
    ixBatch memBleve (shIndex (shardWith textX7)) [BatchDelete ''a:x''] = Inr (shIndex sh')"
proof -
  have laws: "shard_laws exLibs" using reliable_exLibs by (rule reliable_libs.axioms(1))
  have cmd: "map ueCmd [exDelEntry] = [cmdDel7 ''a'' ''x'']" by (simp add: exDelEntry_def)
  have run: "apply_commands [cmdDel7 ''a'' ''x''] (contentWith textX7) = Some [''a'' \<mapsto> Map.empty]"
    by (simp add: apply_command_def cmd_defs type_defs contentWith_def FullId_def)
  have storable: "storable (cmdDel7 ''a'' ''x'')"
    by (simp add: storable_def cmd_defs FullId_def max_key_size_def max_value_size_def)
  obtain sh' where sh': "ApplyUpdates exLibs (shardWith textX7) [exDelEntry] = Done (sh', None)"
    using reliable_libs.ApplyUpdates_ok [OF reliable_exLibs, of "[exDelEntry]" "shardWith textX7"] storable
    unfolding cmd content_shardWith run by (auto simp: exDelEntry_def)
  have "index_commands [cmdDel7 ''a'' ''x''] m ops \<longleftrightarrow> ops = [BatchDelete ''a:x''] \<and>
      apply_command (cmdDel7 ''a'' ''x'') m \<noteq> None" for m ops
    by (auto simp: index_command_def cmd_defs FullId_def)
  with ApplyUpdates_atomic [OF laws, where sh = "shardWith textX7" and es = "[exDelEntry]"] sh'
  show ?thesis unfolding cmd content_shardWith run by (auto simp: exLibs_def)
qed

text \<open>A commit that fails after the batch went through leaves the index ahead of the documents.\<close>

lemma index_ahead_of_documents:
  assumes "txBegin (libBolt L) (shBlock sh) = None" and "applyLoop L (shBlock sh) [] es = Done (Inr (db', ops))"
    and "ixBatch (libBleve L) (shIndex sh) ops = Inr ix'" and "txCommit (libBolt L) db' = Inl err"
  shows "ApplyUpdates L sh es = Done (sh\<lparr>shIndex := ix'\<rparr>, Some err)"
  using assms by (simp add: ApplyUpdates_def)

text \<open>C25: \<open>Search\<close> returns stored documents of the partition only, whatever the index answers: every
  match is the decoded text of a document that the partition holds, its part field names the
  partition, and its score is that of a hit.\<close>

theorem Search_stored:
  assumes "Search L sh p q = Inr ms" and "m \<in> set ms"
    and "content_ok (libDecode L) (shard_content L sh)"
  shows "\<exists>b key v hits. shard_content L sh p = Some b \<and> b key = Some v \<and> libDecode L v = Inr (smDoc m) \<and>
    docPart (smDoc m) = p \<and> key = doc_key p (docId (smDoc m)) \<and>
    ixSearch (libBleve L) (shIndex sh) (''+part:'' @ p @ '' '' @ q) = Inr hits \<and> (key, smScore m) \<in> set hits"
proof -
  let ?query = "''+part:'' @ p @ '' '' @ q"
  obtain hits where hits: "ixSearch (libBleve L) (shIndex sh) ?query = Inr hits"
    using assms(1) by (auto simp: Search_def split: sum.splits)
  show ?thesis
  proof (cases "txBucket (libBolt L) (shBlock sh) p")
    case False
    with assms(1,2) hits show ?thesis
      by (auto simp: Search_def boltView_def split: option.splits)
  next
    case True
    with assms(1) hits have "searchLoop L (shBlock sh) p hits = Inr ms"
      by (auto simp: Search_def boltView_def split: option.splits)
    from stored_match [OF this assms(2)] obtain key v where
      kv: "(key, smScore m) \<in> set hits" "bktGet (libBolt L) (shBlock sh) p key = Some v"
        "libDecode L v = Inr (smDoc m)" by blast
    have b: "shard_content L sh p = Some (bktGet (libBolt L) (shBlock sh) p)"
      using True by (simp add: shard_content_def content_of_def)
    with assms(3) kv(2,3) have "docPart (smDoc m) = p \<and> key = doc_key p (docId (smDoc m))"
      by (fastforce simp: content_ok_def part_ok_def)
    with b kv hits show ?thesis by blast
  qed
qed

theorem Search_stored_witness:
  "\<exists>ms m. Search exLibs \<lparr>shIndex = [(''a:x'', None)], shBlock = shBlock (shardWith textX7)\<rparr> ''a'' ''q'' = Inr ms \<and>
    m \<in> set ms \<and> docPart (smDoc m) = ''a''"
proof -
  let ?sh = "\<lparr>shIndex = [(''a:x'', None)], shBlock = shBlock (shardWith textX7)\<rparr>"
  let ?m = "\<lparr>smScore = 0, smDoc = exDoc ''a'' ''x'' 7\<rparr>"
  have run: "Search exLibs ?sh ''a'' ''q'' = Inr [?m]"
    by (simp add: Search_def boltView_def memBleve_def shardWith_def)
  have "shard_content exLibs ?sh = exContent"
    using content_shardWith [of textX7] by (simp add: shard_content_def exContent_With)
  then have "content_ok (libDecode exLibs) (shard_content exLibs ?sh)"
    using content_ok_exContent by simp
  from Search_stored [OF run _ this, of ?m] run show ?thesis by auto
qed

section \<open>Opening and closing\<close>

text \<open>The 36 shards live at 36 different paths, their indexes at 36 others, whatever the prefix
  of the data directory is; and each path is the directory followed by the letter.\<close>

lemma shard_paths_distinct:
  "inj_on (\<lambda>c. Join [BlockPath prefix, [c]]) (set alphabet) \<and>
   inj_on (\<lambda>c. Join [IndexPath prefix, [c]]) (set alphabet) \<and> card (set alphabet) = 36 \<and>
   BlockPath prefix \<noteq> IndexPath prefix"
proof -
  have "inj_on (\<lambda>c. Join [path, [c]]) (set alphabet)" if "path \<noteq> []" for path
  proof (rule inj_onI)
    fix c d assume c: "c \<in> set alphabet" and d: "d \<in> set alphabet" and eq: "Join [path, [c]] = Join [path, [d]]"
    from Join_inject [OF that plain_letter [OF c] plain_letter [OF d]] eq show "c = d" by simp
  qed
  moreover have "card (set alphabet) = 36"
  proof -
    have "distinct alphabet" "length alphabet = 36" by (simp_all add: alphabet_def)
    then show ?thesis using distinct_card by metis
  qed
  moreover have "BlockPath prefix \<noteq> IndexPath prefix"
    unfolding BlockPath_def IndexPath_def by (simp add: Join_inject)
  ultimately show ?thesis by simp
qed

text \<open>C26: \<open>Open\<close> of a new state machine that returns without error has opened all 36 shards, each at
  its own path, and the meta database with its bucket; the index it returns is the stored one; the
  queue is empty. If what the shards hold is well formed, the state is one from which every run is
  correct.\<close>

theorem Open_ready:
  assumes "reliable_libs L" and "Open L P prefix NewByStateMachine = Done (s, i, None)"
  shows "dom (shardMap s) = set alphabet_runes \<and> pending s = [] \<and> meta_ready L s \<and> lastIndex s = i \<and>
    stored_index L s = Done (i, None) \<and>
    (\<forall>c \<in> set alphabet. \<exists>sh. OpenShard P prefix [c] = Inr sh \<and> shardMap s (byte_of c) = Some sh) \<and>
    (content_ok (libDecode L) (state_content L s) \<longrightarrow> run_inv L s)"
proof -
  obtain s1 where s1: "openShardMap P prefix NewByStateMachine = (s1, None)"
    using assms(2) by (auto simp: Open_def split: prod.splits option.splits)
  with assms(2) obtain meta where s2: "openMetaDb P prefix s1 = (s1\<lparr>metaDb := Some meta\<rparr>, None)"
    by (auto simp: Open_def openMetaDb_def split: prod.splits option.splits sum.splits)
  obtain meta' where meta': "boltUpdate (libBolt L) meta
        (\<lambda>db. txCreateBucketIfNotExists (libBolt L) db metaBucket) = Inr meta'"
      and get: "getLastUpdateIndex L (s1\<lparr>metaDb := Some meta'\<rparr>) = Done (s, i, None)"
    using assms(2) s1 s2
    by (auto simp: Open_def ensureThatMetadbBucketExists_def outcome_eqs split: sum.splits)
  have s: "s = s1\<lparr>metaDb := Some meta', lastIndex := i\<rparr>"
    using getLastUpdateIndex_state [OF get] by simp
  obtain db where db: "txCreateBucketIfNotExists (libBolt L) meta metaBucket = Inr db"
      "txCommit (libBolt L) db = Inr meta'"
    using meta' by (auto simp: boltUpdate_def split: option.splits sum.splits)
  have laws: "bolt_laws (libBolt L)"
    using reliable_libs.axioms(1) [OF assms(1)] by (rule shard_laws.bolt)
  have "content_of (libBolt L) meta' metaBucket \<noteq> None"
    using bolt_laws.commit_content [OF laws db(2)] bolt_laws.create_content [OF laws db(1)] by simp
  then have ready: "meta_ready L s" by (simp add: s meta_ready_def content_of_def split: if_splits)
  have "stored_index L s = Done (i, None)"
    using get by (auto simp: stored_index_def getLastUpdateIndex_def s Let_def)
  moreover have "shardMap s = shardMap s1" "pending s = pending s1" "lastIndex s = i" by (simp_all add: s)
  moreover have "content_ok (libDecode L) (state_content L s) \<longrightarrow> run_inv L s"
    using ready openShardMap_new(2) [OF s1] by (simp add: run_inv_def sm_inv_def db_view_def s)
  ultimately show ?thesis using openShardMap_new [OF s1] ready by simp
qed

definition exOpener :: "(mem_db, ex_ix) opener" where
  "exOpener = \<lparr>opMissing = (\<lambda>p. True), opNewIndex = (\<lambda>p. Inr []), opOpenIndex = (\<lambda>p. Inr []),
     opOpenBolt = (\<lambda>p. Inr [])\<rparr>"

lemma exOpen_shard: "OpenShard exOpener prefix c = Inr emptyShard"
  by (simp add: OpenShard_def openOrCreateBleve_def exOpener_def emptyShard_def)

lemma exOpen_shards:
  "openShards exOpener prefix cs s =
    (s\<lparr>shardMap := (\<lambda>r. if r \<in> byte_of ` set cs then Some emptyShard else shardMap s r)\<rparr>, None)"
  by (induction cs arbitrary: s) (auto simp: exOpen_shard fun_eq_iff)

lemma exOpen: "Open exLibs exOpener prefix NewByStateMachine = Done (exState, 0, None)"
proof -
  have "openShardMap exOpener prefix NewByStateMachine =
      (NewByStateMachine\<lparr>shardMap := shardMap exState\<rparr>, None)"
    by (auto simp: openShardMap_def exOpen_shards exState_def set_alphabet_runes NewByStateMachine_def fun_eq_iff)
  then show ?thesis
    by (simp add: Open_def openMetaDb_def ensureThatMetadbBucketExists_def boltUpdate_def
        getLastUpdateIndex_def exOpener_def exState_def NewByStateMachine_def metaBucket_def)
qed

theorem Open_ready_witness:
  "Open exLibs exOpener ''bydb'' NewByStateMachine = Done (exState, 0, None) \<and>
    dom (shardMap exState) = set alphabet_runes \<and> run_inv exLibs exState"
  using Open_ready [OF reliable_exLibs exOpen] exOpen content_exState
  by (simp add: content_ok_def)

text \<open>\<open>Close\<close> of a state machine that was opened returns the error of closing the meta database
  and drops its handle; a second \<open>Close\<close>, and any read of the index after the first, is a nil
  dereference.\<close>

lemma Close_once:
  assumes "metaDb s = Some meta" and "dom (shardMap s) = set alphabet_runes"
  shows "\<exists>s'. CloseSM L s = Done (s', dbClose (libBolt L) meta) \<and> CloseSM L s' = Panic NilDeref \<and>
    getLastUpdateIndex L s' = Panic NilDeref"
  using CloseSM_open [OF assms(1), of L] assms(2)
  by (simp add: CloseSM_def getLastUpdateIndex_def)

end
