(* ===== verification/Client.thy ===== *)
theory Client
  imports Example
begin

text \<open>
  \<^verbatim>\<open>client.go\<close>: the prompt checks a line against the command list that the server sent before it
  sends the line.
\<close>

section \<open>The check\<close>

record CommandEntry =
  cePrefix :: string
  cePattern :: string

text \<open>
  \<^verbatim>\<open>strings.ToLower(input) == "exit"\<close>. Besides the ASCII letters one rune lowers to a letter of the
  word: U+0130, two bytes, to \<^verbatim>\<open>i\<close>.
\<close>

definition lowers_to_exit :: "string \<Rightarrow> bool" where
  "lowers_to_exit s \<longleftrightarrow>
    (\<exists>e \<in> {CHR ''e'', CHR ''E''}. \<exists>x \<in> {CHR ''x'', CHR ''X''}. \<exists>t \<in> {CHR ''t'', CHR ''T''}.
     \<exists>i \<in> {''i'', ''I'', [CHR 0xC4, CHR 0xB0]}. s = e # x # i @ [t])"

fun validateWith :: "CommandEntry list \<Rightarrow> string \<Rightarrow> gerror option outcome" where
  "validateWith [] input = Done (Some (ErrMsg ''no matching command found''))"
| "validateWith (cmd # cmds) input =
    (if hd (split_char CHR '' '' input) = cePrefix cmd then
       (case rx_compile (cePattern cmd) of
          None \<Rightarrow> Panic (ErrMsg (cePattern cmd))
        | Some r \<Rightarrow>
            if \<not> match_string r input
            then Done (Some (ErrMsg (''invalid format for command '' @ cePrefix cmd)))
            else Done None)
     else validateWith cmds input)"

definition validate :: "CommandEntry list \<Rightarrow> string \<Rightarrow> gerror option outcome" where
  "validate cmds input = (if lowers_to_exit input then Done None else validateWith cmds input)"

text \<open>
  What the prompt does with a line that the check has let through: the loop ends on \<^verbatim>\<open>exit\<close> and sends
  every other line.
\<close>

definition sends :: "CommandEntry list \<Rightarrow> string \<Rightarrow> bool" where
  "sends cmds input \<longleftrightarrow> validate cmds input = Done None \<and> \<not> lowers_to_exit input"

text \<open>
  The list the server sends in its greeting: \<^verbatim>\<open>json.Marshal(command.CommandFormats)\<close>, of which the
  client reads the prefixes and the patterns.
\<close>

definition commandList :: "json_decoder \<Rightarrow> CommandEntry list" where
  "commandList js = map (\<lambda>f. \<lparr>cePrefix = Prefix f, cePattern = Pattern f\<rparr>) (CommandFormats js)"

section \<open>Client and server agree\<close>

lemma patterns_compile:
  "f \<in> set (CommandFormats js) \<Longrightarrow> rx_compile (Pattern f) = Some (regexPattern f)"
  by (auto simp: CommandFormats_def fmt_defs pat_defs rx_compile_def esc_def backslash_def
      rx_class_of_def rx_repeat_def is_digit_def)

lemma validateWith_formats:
  assumes "set fs \<subseteq> set (CommandFormats js)"
  shows "validateWith (map (\<lambda>f. \<lparr>cePrefix = Prefix f, cePattern = Pattern f\<rparr>) fs) input = Done None \<longleftrightarrow>
    (\<exists>f \<in> set fs. hd (split_char CHR '' '' input) = Prefix f \<and> match_string (regexPattern f) input)"
  using assms
proof (induction fs)
  case Nil
  then show ?case by simp
next
  case (Cons f fs)
  have inj: "inj_on Prefix (set (CommandFormats js))"
    using cf.prefixes_distinct [of js] by (simp add: distinct_map)
  show ?case
  proof (cases "hd (split_char CHR '' '' input) = Prefix f")
    case True
    have "g = f" if "g \<in> set fs" "Prefix f = Prefix g" for g
      using that Cons.prems inj by (auto dest: inj_onD)
    with True Cons.prems show ?thesis by (auto simp: patterns_compile)
  next
    case False
    with Cons show ?thesis by simp
  qed
qed

text \<open>A pattern begins with its prefix and a blank, so what it matches the format claims.\<close>

lemma match_lit: "match_string (litItems w @ r) s \<Longrightarrow> \<exists>t. s = w @ t"
proof (induction w arbitrary: s)
  case Nil
  then show ?case by simp
next
  case (Cons c w)
  then show ?case by (cases s) (auto simp: match_string_def split: if_splits option.splits)
qed

lemma format_claims:
  assumes "f \<in> set (CommandFormats js)" and "match_string (regexPattern f) s"
  shows "Test f s"
proof -
  obtain r where r: "regexPattern f = litItems (Prefix f @ '' '') @ r"
    using assms(1) by (auto simp: CommandFormats_def fmt_defs)
  from match_lit [OF assms(2) [unfolded r]] show ?thesis by (auto simp: cf.Test_iff)
qed

lemma client_sends_iff:
  "sends (commandList js) input \<longleftrightarrow> \<not> lowers_to_exit input \<and>
    (\<exists>f \<in> set (CommandFormats js). Test f input \<and> match_string (regexPattern f) input)"
proof -
  have "hd (split_char CHR '' '' input) = Prefix f \<and> match_string (regexPattern f) input \<longleftrightarrow>
      Test f input \<and> match_string (regexPattern f) input" if "f \<in> set (CommandFormats js)" for f
    using cf.first_word_Test [OF that, of input] format_claims [OF that, of input] by blast
  then show ?thesis
    using validateWith_formats [of "CommandFormats js" js input]
    by (auto simp: sends_def validate_def commandList_def)
qed

lemma client_sends_commands:
  assumes "ParseCommand js input = Inr c"
  shows "sends (commandList js) input"
proof -
  from parses_claimed [OF assms] obtain f where f: "f \<in> set (CommandFormats js)" "Test f input"
    using cf.Test_iff by blast
  then have "Run f input = Inr c"
    using assms cf.parseWith_selected [of "CommandFormats js" js f input] by (simp add: ParseCommand_def)
  then have "match_string (regexPattern f) input" by (simp add: Run_def split: if_splits)
  moreover have "\<not> lowers_to_exit input"
  proof
    assume "lowers_to_exit input"
    then obtain ch w where "input = ch # w" "ch = CHR ''e'' \<or> ch = CHR ''E''"
      by (auto simp: lowers_to_exit_def)
    moreover from f(2) have "\<exists>t. input = Prefix f @ CHR '' '' # t" by (simp add: cf.Test_iff)
    moreover have "Prefix f \<in> {''GET'', ''DEL'', ''PUT'', ''POST'', ''SEARCH'', ''CREATE_PART'',
        ''DELETE_PART'', ''JOIN_NODE'', ''REMOVE_NODE''}"
      using f(1) by (auto simp: CommandFormats_def fmt_defs)
    ultimately show False by auto
  qed
  ultimately show ?thesis using client_sends_iff f by blast
qed

text \<open>C33: The client sends a line exactly if some format of the server claims it and its pattern
  matches; no line makes the check panic. So every line that the server's parser accepts is
  sent, none of them being taken for \<^verbatim>\<open>exit\<close>.\<close>

theorem client_checks_like_server:
  "(sends (commandList js) input \<longleftrightarrow> \<not> lowers_to_exit input \<and>
      (\<exists>f \<in> set (CommandFormats js). Test f input \<and> match_string (regexPattern f) input)) \<and>
   (ParseCommand js input = Inr c \<longrightarrow> sends (commandList js) input)"
  using client_sends_iff client_sends_commands by blast

theorem client_checks_like_server_witness:
  "sends (commandList exDecode) (''GET '' @ ''a'' @ '' '' @ ''x'')"
  using client_checks_like_server [of exDecode "''GET '' @ ''a'' @ '' '' @ ''x''" "cmdGet ''a'' ''x''"]
    parse_Get [OF tokens(1,2), of exDecode] by blast

end
