(* ===== verification/Api.thy ===== *)
theory Api
  imports Machine Client
begin

text \<open>
  \<^verbatim>\<open>api/api.go\<close>: one request, from its text to the answer. Dragonboat's node host is a parameter: a
  record of the calls the API makes on it, over a state of the cluster that proposals and membership
  changes move on.
\<close>

section \<open>The node host\<close>

text \<open>The members of a shard, in the order in which Go walks through the map.\<close>

record membership =
  mbConfigChangeID :: u64
  mbNodes :: "(u64 \<times> string) list"

record 'w raft =
  rfID :: string
  rfPropose :: "'w \<Rightarrow> u64 \<Rightarrow> string \<Rightarrow> 'w \<times> (gerror + u64)"
  rfRead :: "'w \<Rightarrow> u64 \<Rightarrow> string \<Rightarrow> gerror + Response"
  rfMembership :: "'w \<Rightarrow> u64 \<Rightarrow> gerror + membership"
  rfAddReplica :: "'w \<Rightarrow> u64 \<Rightarrow> u64 \<Rightarrow> string \<Rightarrow> u64 \<Rightarrow> 'w \<times> gerror option"
  rfDeleteReplica :: "'w \<Rightarrow> u64 \<Rightarrow> u64 \<Rightarrow> u64 \<Rightarrow> 'w \<times> gerror option"

section \<open>Requests\<close>

record pbResponse =
  pbCode :: u64
  pbDocument :: string
  pbDuration :: i64

definition getHttpResponseString :: "u64 \<Rightarrow> string" where
  "getHttpResponseString code =
    (if code = 200 then ''ok''
     else if code = 404 then ''not found''
     else if code = 405 then ''unknown command''
     else if code = 409 then ''conflict''
     else ''unknown code'')"

text \<open>\<open>marshal\<close> stands for \<^verbatim>\<open>json.Marshal\<close> of the command table.\<close>

definition Hello ::
  "json_decoder \<Rightarrow> (CommandEntry list \<Rightarrow> gerror + string) \<Rightarrow> 'w raft \<Rightarrow> string \<times> string \<times> gerror option" where
  "Hello js marshal R =
    (let msg = ''server '' @ rfID R @ '' active'' in
     case marshal (commandList js) of
       Inl err \<Rightarrow> (msg, [], Some err)
     | Inr cmdList \<Rightarrow> (msg, cmdList, None))"

text \<open>The loop over the members.\<close>

definition maxNodeId :: "membership \<Rightarrow> u64" where
  "maxNodeId m = fold (\<lambda>(idx, _) maxId. if maxId < idx then idx else maxId) (mbNodes m) 0"

text \<open>
  \<open>elapsed\<close> is what the clock measured. A request whose text does not parse is answered before the
  clock is read again.
\<close>

definition Crud ::
  "json_decoder \<Rightarrow> 'w raft \<Rightarrow> u64 \<Rightarrow> i64 \<Rightarrow> 'w \<Rightarrow> string \<Rightarrow> 'w \<times> (gerror + pbResponse)" where
  "Crud js R shardId elapsed w raw =
    (case ParseCommand js raw of
       Inl err \<Rightarrow> (w, Inr \<lparr>pbCode = 400, pbDocument = ''bad request format'', pbDuration = 0\<rparr>)
     | Inr cmd \<Rightarrow>
        if cmdType cmd \<in> {PUT, POST, DEL, CREATE_PART, DELETE_PART} then
          (case rfPropose R w shardId raw of
             (w', Inl err) \<Rightarrow> (w', Inl err)
           | (w', Inr v) \<Rightarrow>
               (w', Inr \<lparr>pbCode = v, pbDocument = getHttpResponseString v, pbDuration = elapsed\<rparr>))
        else if cmdType cmd = GET \<or> cmdType cmd = SEARCH then
          (case rfRead R w shardId raw of
             Inl err \<Rightarrow> (w, Inl err)
           | Inr res \<Rightarrow> (w, Inr \<lparr>pbCode = rspCode res, pbDocument = rspBody res, pbDuration = elapsed\<rparr>))
        else if cmdType cmd = JOIN_NODE then
          (case rfMembership R w shardId of
             Inl err \<Rightarrow> (w, Inl err)
           | Inr m \<Rightarrow>
              (case rfAddReplica R w shardId (maxNodeId m + 1) (cmdId cmd) (mbConfigChangeID m) of
                 (w', Some err) \<Rightarrow> (w', Inl err)
               | (w', None) \<Rightarrow> (w', Inr \<lparr>pbCode = 200, pbDocument = ''ok'', pbDuration = elapsed\<rparr>)))
        else if cmdType cmd = REMOVE_NODE then
          (case rfMembership R w shardId of
             Inl err \<Rightarrow> (w, Inl err)
           | Inr m \<Rightarrow>
              (case parse_uint64 (cmdId cmd) of
                 (_, Some err) \<Rightarrow> (w, Inl err)
               | (nodeId, None) \<Rightarrow>
                  (case rfDeleteReplica R w shardId nodeId (mbConfigChangeID m) of
                     (w', Some err) \<Rightarrow> (w', Inl err)
                   | (w', None) \<Rightarrow> (w', Inr \<lparr>pbCode = 200, pbDocument = ''ok'', pbDuration = elapsed\<rparr>))))
        else (w, Inr \<lparr>pbCode = 405, pbDocument = ''unknown command'', pbDuration = elapsed\<rparr>))"

section \<open>Over the state machine\<close>

text \<open>
  What Dragonboat documents of its calls, for a state of the cluster whose state machine is \<open>st w\<close>: a
  proposal that is committed is applied by \<open>Update\<close> and answered with the result of its entry, and the
  state machine may be synced and read before it is asked again; a read is answered by \<open>Lookup\<close>.
\<close>

locale raft_over_sm =
  fixes R :: "'w raft" and L :: "('db, 'ix) libs" and st :: "'w \<Rightarrow> ('db, 'ix) ByStateMachine"
    and order :: "'w \<Rightarrow> rune list" and next_index :: "'w \<Rightarrow> u64" and ready :: "'w \<Rightarrow> bool"
  assumes propose: "ready w \<Longrightarrow> Update L (order w) (st w) [\<lparr>enIndex = next_index w, enCmd = raw, enValue = 0\<rparr>] =
        Done (s', [en], None) \<Longrightarrow>
      \<exists>w' es. rfPropose R w sid raw = (w', Inr (enValue en)) \<and> log_of es = [] \<and>
        runs (sm_step L) s' es (st w') \<and> ready w'"
    and read: "ready w \<Longrightarrow> Lookup L (st w) raw = Done r \<Longrightarrow> rfRead R w sid raw = r"
    and order: "ready w \<Longrightarrow> distinct (order w) \<and> set (order w) = dom (shardMap (st w))"
begin

lemma Crud_alters:
  assumes "reliable_libs L" and "run_inv L (st w)" and "db_view L (st w) = Some m"
    and "ParseCommand (libDecode L) raw = Inr c" and "batch_safe (st w) [c]" and "storable c" and "ready w"
  shows "\<exists>w'. Crud (libDecode L) R sid t w raw =
      (w', Inr \<lparr>pbCode = spec_code (libDecode L) c m,
        pbDocument = getHttpResponseString (spec_code (libDecode L) c m), pbDuration = t\<rparr>) \<and>
    db_view L (st w') = Some (spec_effect (libDecode L) c m) \<and> run_inv L (st w') \<and> ready w' \<and>
    dom (shardMap (st w')) = dom (shardMap (st w)) \<and>
    ueCmd ` set (pending (st w')) \<subseteq> insert c (ueCmd ` set (pending (st w)))"
proof -
  let ?ups = "[\<lparr>enIndex = next_index w, enCmd = raw, enValue = 0\<rparr>]"
  have inv: "sm_inv L (st w)" using assms(2) by (simp add: run_inv_def)
  have parsed: "map (\<lambda>en. ParseCommand (libDecode L) (enCmd en)) ?ups = map Inr [c]"
    using assms(4) by simp
  have ord: "distinct (order w)" "set (order w) = dom (shardMap (st w))" using order [OF assms(7)] by blast+
  obtain s' ups' where run: "Update L (order w) (st w) ?ups = Done (s', ups', None)"
    using Update_gets_through [OF reliable_libs.begin_ok [OF assms(1)] inv ord(1) parsed] by blast
  note ref = Update_refines_contract [OF inv assms(3) ord parsed assms(5) run]
  obtain en where en: "ups' = [en]"
    using arg_cong [OF ref(1), of length] by (auto simp: length_Suc_conv split_beta)
  have "sm_step L (st w) (Wrote [c] (map enValue ups')) s'"
    using assms(6) by (intro sm_step.wrote [OF ord parsed assms(5) _ run]) simp
  then have inv': "run_inv L s'"
    using reliable_libs.run_inv_runs [OF assms(1,2), of "[Wrote [c] (map enValue ups')]" s'] by simp
  obtain w' es where w': "rfPropose R w sid raw = (w', Inr (enValue en))" "log_of es = []"
      "runs (sm_step L) s' es (st w')" "ready w'"
    using propose [OF assms(7) run [unfolded en]] by blast
  have view: "db_view L s' = Some (spec_effect (libDecode L) c m)" using ref(2) by (simp add: split_beta)
  note quiet = reliable_libs.quiet_view [OF assms(1) inv' view w'(3,2)]
    reliable_libs.run_inv_runs [OF assms(1) inv' w'(3)] reliable_libs.run_dom [OF assms(1) inv' w'(3)]
    reliable_libs.quiet_queue [OF assms(1) inv' w'(3,2)]
  obtain q where "s' = (st w)\<lparr>pending := pending (st w) @ q\<rparr>" "ueCmd ` set q \<subseteq> {c}"
    using Update_queue [OF inv ord(1) parsed run] by auto
  then have "ueCmd ` set (pending s') \<subseteq> insert c (ueCmd ` set (pending (st w)))"
    by (simp add: image_Un) blast
  then have "ueCmd ` set (pending (st w')) \<subseteq> insert c (ueCmd ` set (pending (st w)))"
    using quiet(4) by blast
  moreover have "cmdType c \<in> {PUT, POST, DEL, CREATE_PART, DELETE_PART}"
    using assms(5) by (auto simp: batch_safe_def batch_seen_def type_defs)
  ultimately show ?thesis using assms(4) w'(1,4) ref(1,4) en quiet(1-3) by (simp add: Crud_def split_beta)
qed

lemma Crud_reads:
  assumes "reliable_libs L" and "sm_inv L (st w)" and "db_view L (st w) = Some m"
    and "ParseCommand (libDecode L) raw = Inr c" and "cmdType c = GET"
    and "shardMap (st w) (part_rune c) \<noteq> None" and "not_recreated L (st w) c" and "ready w"
  shows "Crud (libDecode L) R sid t w raw =
    (w, Inr \<lparr>pbCode = rspCode (view_answer m c), pbDocument = rspBody (view_answer m c), pbDuration = t\<rparr>)"
proof -
  have "txBegin (libBolt L) = (\<lambda>db. None)"
    using reliable_libs.begin_ok [OF assms(1)] by (simp add: fun_eq_iff)
  from get_reads_view [OF this assms(2,3) _ assms(7)] assms(4-6)
  have "Lookup L (st w) raw = Done (Inr (view_answer m c))" by (simp add: Lookup_def part_rune_def)
  from read [OF assms(8) this, of sid] assms(4,5) show ?thesis by (simp add: Crud_def)
qed

end

text \<open>A cluster of one replica that applies every proposal at once.\<close>

definition localRaft :: "('db, 'ix) libs \<Rightarrow> ('db, 'ix) ByStateMachine raft" where
  "localRaft L =
    \<lparr>rfID = ''local'',
     rfPropose = (\<lambda>s sid raw.
       case Update L alphabet_runes s [\<lparr>enIndex = lastIndex s + 1, enCmd = raw, enValue = 0\<rparr>] of
         Done (s', [en], None) \<Rightarrow> (s', Inr (enValue en))
       | _ \<Rightarrow> (s, Inl (ErrLib ''not applied''))),
     rfRead = (\<lambda>s sid raw. case Lookup L s raw of Done r \<Rightarrow> r | Panic e \<Rightarrow> Inl e),
     rfMembership = (\<lambda>s sid. Inr \<lparr>mbConfigChangeID = 0, mbNodes = [(1, ''local'')]\<rparr>),
     rfAddReplica = (\<lambda>s sid i a cc. (s, Some (ErrLib ''single''))),
     rfDeleteReplica = (\<lambda>s sid i cc. (s, Some (ErrLib ''single'')))\<rparr>"

interpretation local_raft: raft_over_sm "localRaft L" L "\<lambda>s. s" "\<lambda>s. alphabet_runes"
    "\<lambda>s. lastIndex s + 1" "\<lambda>s. dom (shardMap s) = set alphabet_runes" for L
proof
  fix w s' en raw sid
  assume ready: "dom (shardMap w) = set alphabet_runes"
    and run: "Update L alphabet_runes w [\<lparr>enIndex = lastIndex w + 1, enCmd = raw, enValue = 0\<rparr>] = Done (s', [en], None)"
  obtain es where "updateShards L alphabet_runes es w
      [\<lparr>enIndex = lastIndex w + 1, enCmd = raw, enValue = 0\<rparr>] = (s', [en], None)"
    using run by (auto simp: Update_def outcome_eqs)
  then have "shardMap s' = shardMap w"
    using updateShards_shards [of L alphabet_runes es w "[\<lparr>enIndex = lastIndex w + 1, enCmd = raw, enValue = 0\<rparr>]"]
    by simp
  with ready run show "\<exists>w' es. rfPropose (localRaft L) w sid raw = (w', Inr (enValue en)) \<and> log_of es = [] \<and>
      runs (sm_step L) s' es w' \<and> dom (shardMap w') = set alphabet_runes"
    by (intro exI [of _ s'] exI [of _ "[]"]) (simp add: localRaft_def)
next
  fix w raw r sid
  assume "Lookup L w raw = Done r"
  then show "rfRead (localRaft L) w sid raw = r" by (simp add: localRaft_def)
next
  fix w :: "('a, 'b) ByStateMachine"
  assume "dom (shardMap w) = set alphabet_runes"
  then show "distinct alphabet_runes \<and> set alphabet_runes = dom (shardMap w)"
    using distinct_alphabet_runes by simp
qed

section \<open>Properties\<close>

text \<open>C18: Two kinds of requests end to end, over any node host that does what Dragonboat documents. One that parses
  as a command that alters the database, of a partition with a shard, of a size that bolt stores, and whose newest
  queued command is not a \<open>DEL\<close>, is answered with the code of the contract and its text, and the view moves
  as the contract says. A \<open>GET\<close> of a partition with a shard is answered from the view, unless its newest queued
  command creates the partition while the shard still holds an older document there.\<close>

theorem Crud_serves_contract:
  assumes "raft_over_sm R L st order nxt ready" and "reliable_libs L" and "ready w"
    and "run_inv L (st w)" and "db_view L (st w) = Some m"
    and "ParseCommand (libDecode L) raw = Inr c" and "batch_safe (st w) [c]" and "storable c"
    and "ParseCommand (libDecode L) rawg = Inr g" and "cmdType g = GET"
    and "shardMap (st w) (part_rune g) \<noteq> None" and "not_recreated L (st w) g"
  shows "(\<exists>w'. Crud (libDecode L) R sid t w raw =
      (w', Inr \<lparr>pbCode = spec_code (libDecode L) c m,
        pbDocument = getHttpResponseString (spec_code (libDecode L) c m), pbDuration = t\<rparr>) \<and>
    db_view L (st w') = Some (spec_effect (libDecode L) c m) \<and> run_inv L (st w') \<and> ready w') \<and>
    Crud (libDecode L) R sid t w rawg =
      (w, Inr \<lparr>pbCode = rspCode (view_answer m g), pbDocument = rspBody (view_answer m g), pbDuration = t\<rparr>)"
proof -
  have "sm_inv L (st w)" using assms(4) by (simp add: run_inv_def)
  from raft_over_sm.Crud_alters [OF assms(1,2,4-8,3), of sid t]
    raft_over_sm.Crud_reads [OF assms(1,2) this assms(5,9-12,3), of sid t]
  show ?thesis by blast
qed

theorem Crud_serves_contract_witness:
  "(\<exists>s'. Crud exDecode (localRaft exLibs) 128 5 exStored (''DEL '' @ ''a'' @ '' '' @ ''x'' @ '' 7'') =
      (s', Inr \<lparr>pbCode = 200, pbDocument = ''ok'', pbDuration = 5\<rparr>) \<and>
    db_view exLibs s' = Some [''a'' \<mapsto> Map.empty]) \<and>
    Crud exDecode (localRaft exLibs) 128 5 exStored (''GET '' @ ''a'' @ '' '' @ ''x'') =
      (exStored, Inr \<lparr>pbCode = 200, pbDocument = textX7, pbDuration = 5\<rparr>)"
proof -
  let ?c = "cmdDel7 ''a'' ''x''" and ?g = "cmdGet ''a'' ''x''"
  have parsed: "ParseCommand (libDecode exLibs) (''DEL '' @ ''a'' @ '' '' @ ''x'' @ '' 7'') = Inr ?c"
      "ParseCommand (libDecode exLibs) (''GET '' @ ''a'' @ '' '' @ ''x'') = Inr ?g"
    using parse_Del7 [OF tokens(1,2), of exDecode] parse_Get [OF tokens(1,2), of exDecode] by simp_all
  have c: "batch_safe exStored [?c]" "cmdType ?g = GET" "shardMap exStored (part_rune ?g) \<noteq> None"
      "not_recreated exLibs exStored ?g" "storable ?c"
    by (simp_all add: batch_safe_def batch_seen_def one_search_def none_deleted_def findCommandInPending_def
        cmd_defs part_rune_def type_defs not_recreated_def
        storable_def FullId_def max_key_size_def max_value_size_def)
  have code: "spec_code exDecode ?c exContent = 200"
    using ex_del_code by (simp add: split_beta)
  have seen: "view_answer exContent ?g = Success textX7"
    by (simp add: view_answer_def sees_def exContent_def cmd_defs FullId_def)
  have eff: "spec_effect exDecode ?c exContent = [''a'' \<mapsto> Map.empty]"
    using code by (simp add: spec_effect_def apply_command_def cmd_defs type_defs exContent_def FullId_def)
  show ?thesis
    using Crud_serves_contract [OF local_raft.raft_over_sm_axioms reliable_exLibs dom_exStored [symmetric]
        run_inv_exStored exStored_ok(2) parsed(1) c(1,5) parsed(2) c(2-4), of 128 5]
    by (auto simp: code eff seen getHttpResponseString_def)
qed

lemma maxNodeId_Max: "maxNodeId m = Max (insert 0 (fst ` set (mbNodes m)))"
proof -
  have "(\<lambda>(idx, _) maxId. if maxId < idx then idx else maxId) = (\<lambda>n :: u64 \<times> string. max (fst n))"
    by (auto simp: fun_eq_iff max_def)
  then have "maxNodeId m = fold (\<lambda>n. max (fst n)) (mbNodes m) 0" by (simp only: maxNodeId_def)
  also have "\<dots> = fold max (map fst (mbNodes m)) 0" by (simp add: fold_map comp_def)
  finally show ?thesis by (simp add: fold_max_set)
qed

text \<open>C21: A node that joins gets an identifier no member has, one above the largest, unless the largest
  is the largest 64-bit number: then the sum wraps and the identifier is 0. The order in which Go
  walks through the members does not matter.\<close>

theorem JOIN_NODE_fresh:
  assumes "ParseCommand js raw = Inr c" and "cmdType c = JOIN_NODE" and "rfMembership R w sid = Inr m"
  shows "\<exists>i. fst (Crud js R sid t w raw) = fst (rfAddReplica R w sid i (cmdId c) (mbConfigChangeID m)) \<and>
    (if maxNodeId m = - 1 then i = 0 else i \<notin> fst ` set (mbNodes m) \<and> (\<forall>n \<in> set (mbNodes m). fst n < i))"
proof -
  have fst: "fst (Crud js R sid t w raw) =
      fst (rfAddReplica R w sid (maxNodeId m + 1) (cmdId c) (mbConfigChangeID m))"
    using assms by (simp add: Crud_def split: prod.split option.split)
  have le: "fst n \<le> maxNodeId m" if "n \<in> set (mbNodes m)" for n
    unfolding maxNodeId_Max using that by (intro Max_ge) auto
  show ?thesis
  proof (cases "maxNodeId m = - 1")
    case True
    then have "maxNodeId m + 1 = 0" by simp
    with fst True show ?thesis by auto
  next
    case False
    then have "1 + maxNodeId m \<noteq> 0" by (metis add.commute eq_neg_iff_add_eq_0)
    then have "unat (1 + maxNodeId m) = Suc (unat (maxNodeId m))" by (rule unatSuc)
    then have "maxNodeId m < maxNodeId m + 1" by (simp add: word_less_nat_alt add.commute)
    with le have "fst n < maxNodeId m + 1" if "n \<in> set (mbNodes m)" for n
      using that by (meson le_less_trans)
    with fst False show ?thesis by fastforce
  qed
qed

theorem JOIN_NODE_fresh_witness:
  "\<exists>i. fst (Crud exDecode (localRaft exLibs) 128 5 exStored (''JOIN_NODE '' @ ''ab'')) =
      fst (rfAddReplica (localRaft exLibs) exStored 128 i ''ab'' 0) \<and> 1 < i"
proof -
  let ?c = "(newCommand (''JOIN_NODE '' @ ''ab''))\<lparr>cmdType := JOIN_NODE, cmdId := ''ab''\<rparr>"
  have "ParseCommand exDecode (''JOIN_NODE '' @ ''ab'') = Inr ?c"
    by (intro wire_parses wire.join) simp_all
  moreover have "rfMembership (localRaft exLibs) exStored 128 =
      Inr \<lparr>mbConfigChangeID = 0, mbNodes = [(1, ''local'')]\<rparr>"
    by (simp add: localRaft_def)
  ultimately show ?thesis
    using JOIN_NODE_fresh [of exDecode "''JOIN_NODE '' @ ''ab''" ?c "localRaft exLibs" exStored 128 _ 5]
    by (auto simp: maxNodeId_def split: if_splits)
qed

end
