(* ===== verification/Zipper.thy ===== *)
theory Zipper
  imports Dir
begin

text \<open>
  \<^verbatim>\<open>zipper/zipper.go\<close>: packing a directory into an archive and unpacking it, over a file system that
  maps cleaned paths to nodes. The tar and gzip formats stay outside: an archive is the list of its
  headers, each with its data.
\<close>

section \<open>The file system\<close>

text \<open>
  A directory, a regular file with its mode and bytes, a file of another kind that has a tar header
  (a link, a device), or a socket, for which \<^verbatim>\<open>tar.FileInfoHeader\<close> returns an error.
\<close>

datatype fnode = FDir | FFile nat string | FOther | FSocket

type_synonym fsys = "string \<rightharpoonup> fnode"

text \<open>The directory a path lies in, if the path names one.\<close>

definition parent_dir :: "string \<Rightarrow> string option" where
  "parent_dir p =
    (case dropWhile (\<lambda>c. c \<noteq> slash) (rev p) of
       [] \<Rightarrow> None
     | _ # q \<Rightarrow> if q = [] then None else Some (rev q))"

lemma parent_dir_shorter: "parent_dir p = Some q \<Longrightarrow> length q < length p"
proof -
  assume "parent_dir p = Some q"
  then obtain c r where "dropWhile (\<lambda>c. c \<noteq> slash) (rev p) = c # r" "q = rev r"
    by (auto simp: parent_dir_def split: list.splits if_splits)
  moreover have "length (dropWhile (\<lambda>c. c \<noteq> slash) (rev p)) \<le> length p"
    using length_dropWhile_le [of _ "rev p"] by simp
  ultimately show ?thesis by simp
qed

text \<open>\<^verbatim>\<open>os.MkdirAll\<close>: nothing to do for a directory, an error for a file; else the parent first.\<close>

function mkdirAll :: "fsys \<Rightarrow> string \<Rightarrow> gerror + fsys" where
  "mkdirAll fs p =
    (case fs p of
       Some FDir \<Rightarrow> Inr fs
     | Some _ \<Rightarrow> Inl (ErrLib ''not a directory'')
     | None \<Rightarrow>
        (case parent_dir p of
           None \<Rightarrow> Inr (fs(p \<mapsto> FDir))
         | Some q \<Rightarrow>
            (case mkdirAll fs q of
               Inl err \<Rightarrow> Inl err
             | Inr fs' \<Rightarrow> Inr (fs'(p \<mapsto> FDir)))))"
  by pat_completeness auto
termination
  by (relation "measure (\<lambda>(fs, p). length p)") (auto dest: parent_dir_shorter)

declare mkdirAll.simps [simp del]

text \<open>
  \<^verbatim>\<open>os.OpenFile(p, os.O_CREATE|os.O_RDWR, mode)\<close> and \<^verbatim>\<open>io.Copy\<close> to it: a missing file is created, and
  one that is there is written over from its beginning and not truncated.
\<close>

definition writeFile :: "fsys \<Rightarrow> string \<Rightarrow> nat \<Rightarrow> string \<Rightarrow> gerror + fsys" where
  "writeFile fs p mode bytes =
    (if (case parent_dir p of None \<Rightarrow> False | Some q \<Rightarrow> fs q \<noteq> Some FDir)
     then Inl (ErrLib ''no such directory'')
     else case fs p of
         None \<Rightarrow> Inr (fs(p \<mapsto> FFile mode bytes))
       | Some (FFile m old) \<Rightarrow> Inr (fs(p \<mapsto> FFile m (bytes @ drop (length bytes) old)))
       | Some _ \<Rightarrow> Inl (ErrLib ''not a file''))"

section \<open>Archives\<close>

datatype typeflag = TypeDir | TypeReg | TypeOther

record tarHeader =
  thName :: string
  thType :: typeflag
  thMode :: nat
  thData :: string

definition headerName :: "string \<Rightarrow> string \<Rightarrow> string" where
  "headerName src file = trim_prefix (replace_all src [] file) [slash]"

text \<open>
  What \<^verbatim>\<open>filepath.Walk\<close> hands to its function: an error, or a node and the error of opening and copying
  its file, if there is one; the bytes of the node are then those that were copied.
\<close>

datatype visit = WalkError gerror | Visit fnode "gerror option"

definition tarEntry :: "string \<Rightarrow> string \<times> visit \<Rightarrow> tarHeader list \<times> gerror option" where
  "tarEntry src w =
    (case w of (file, v) \<Rightarrow>
      (case v of
         WalkError err \<Rightarrow> ([], Some err)
       | Visit FDir _ \<Rightarrow> ([\<lparr>thName = headerName src file, thType = TypeDir, thMode = 0, thData = []\<rparr>], None)
       | Visit (FFile m bytes) err \<Rightarrow>
           ([\<lparr>thName = headerName src file, thType = TypeReg, thMode = m, thData = bytes\<rparr>], err)
       | Visit FOther _ \<Rightarrow> ([\<lparr>thName = headerName src file, thType = TypeOther, thMode = 0, thData = []\<rparr>], None)
       | Visit FSocket _ \<Rightarrow> ([], Some (ErrLib ''archive/tar: sockets not supported''))))"

text \<open>The walk stops at the first error; what was written before it stays written.\<close>

fun tarWalk :: "string \<Rightarrow> (string \<times> visit) list \<Rightarrow> tarHeader list \<times> gerror option" where
  "tarWalk src [] = ([], None)"
| "tarWalk src (w # ws) =
    (case tarEntry src w of
       (h, Some err) \<Rightarrow> (h, Some err)
     | (h, None) \<Rightarrow> (case tarWalk src ws of (hs, err) \<Rightarrow> (h @ hs, err)))"

lemma tarWalk_ok_iff:
  "snd (tarWalk src ws) = None \<longleftrightarrow> (\<forall>w \<in> set ws. snd (tarEntry src w) = None)"
  by (induction ws) (auto split: prod.split option.split)

text \<open>\<open>walk\<close> is what \<^verbatim>\<open>filepath.Walk\<close> visits, in its order.\<close>

definition Tar :: "fsys \<Rightarrow> string \<Rightarrow> (string \<times> visit) list \<Rightarrow> tarHeader list \<times> gerror option" where
  "Tar fs src walk =
    (if fs (Clean src) = None then ([], Some (ErrMsg ''Unable to tar files'')) else tarWalk src walk)"

fun Untar :: "string \<Rightarrow> tarHeader list \<Rightarrow> fsys \<Rightarrow> fsys \<times> gerror option" where
  "Untar dst [] fs = (fs, None)"
| "Untar dst (h # hs) fs =
    (let target = Join [dst, thName h] in
     case thType h of
       TypeDir \<Rightarrow>
        (if fs target \<noteq> None then Untar dst hs fs
         else case mkdirAll fs target of
             Inl err \<Rightarrow> (fs, Some err)
           | Inr fs' \<Rightarrow> Untar dst hs fs')
     | TypeReg \<Rightarrow>
        (case writeFile fs target (thMode h) (thData h) of
           Inl err \<Rightarrow> (fs, Some err)
         | Inr fs' \<Rightarrow> Untar dst hs fs')
     | TypeOther \<Rightarrow> Untar dst hs fs)"

section \<open>Paths below a directory\<close>

lemma parent_dir_slash: "slash \<notin> set w \<Longrightarrow> q \<noteq> [] \<Longrightarrow> parent_dir (q @ slash # w) = Some q"
proof -
  assume w: "slash \<notin> set w" and q: "q \<noteq> []"
  have "dropWhile (\<lambda>c. c \<noteq> slash) (rev w @ slash # rev q) = slash # rev q"
    using w by (subst dropWhile_append2) auto
  with q show ?thesis by (simp add: parent_dir_def)
qed

lemma split_join: "es \<noteq> [] \<Longrightarrow> \<forall>e \<in> set es. d \<notin> set e \<Longrightarrow> split_char d (join_with d es) = es"
proof (induction es)
  case Nil
  then show ?case by simp
next
  case (Cons e es)
  show ?case
  proof (cases es)
    case Nil
    with Cons.prems show ?thesis by (simp add: split_char_no_sep)
  next
    case (Cons f fs)
    with \<open>\<forall>x \<in> set (e # es). d \<notin> set x\<close> Cons.IH show ?thesis by (simp add: split_char_sep)
  qed
qed

lemma clean_elems_plain:
  "\<forall>w \<in> set ws. plain_elem w \<Longrightarrow> clean_elems rooted acc (vs @ ws) = clean_elems rooted acc vs @ ws"
proof (induction ws rule: rev_induct)
  case Nil
  then show ?case by simp
next
  case (snoc w ws)
  then have w: "plain_elem w" and ws: "\<forall>w \<in> set ws. plain_elem w" by simp_all
  have "clean_elems rooted acc ((vs @ ws) @ [w]) = clean_elems rooted acc (vs @ ws) @ [w]"
    by (rule clean_elems_snoc [OF w])
  also have "\<dots> = clean_elems rooted acc vs @ ws @ [w]" using snoc.IH [OF ws] by simp
  finally show ?case by simp
qed

lemma join_with_append:
  "xs \<noteq> [] \<Longrightarrow> ys \<noteq> [] \<Longrightarrow> join_with d (xs @ ys) = join_with d xs @ d # join_with d ys"
proof (induction xs)
  case Nil
  then show ?case by simp
next
  case (Cons x xs)
  then show ?case by (cases xs; cases ys) auto
qed

definition rel_path :: "string list \<Rightarrow> bool" where
  "rel_path es \<longleftrightarrow> es \<noteq> [] \<and> (\<forall>e \<in> set es. plain_elem e)"

lemma rel_path_split: "rel_path es \<Longrightarrow> split_char slash (join_with slash es) = es"
  by (rule split_join) (simp_all add: rel_path_def plain_elem_def)

lemma rel_path_nonempty: "rel_path es \<Longrightarrow> join_with slash es \<noteq> []"
proof
  assume rel: "rel_path es" and "join_with slash es = []"
  then have "es = [[]]" using rel_path_split [OF rel] by simp
  with rel show False by (simp add: rel_path_def plain_elem_def)
qed

lemma Join_rel:
  assumes "dst \<noteq> []" and "rel_path es"
  shows "Join [dst, join_with slash es] = below dst @ join_with slash es"
proof -
  have "split_char slash (dst @ slash # join_with slash es) = split_char slash dst @ es"
    using rel_path_split [OF assms(2)] by (simp add: split_char_append)
  moreover have "clean_elems r [] (split_char slash dst @ es) = clean_elems r [] (split_char slash dst) @ es" for r
    using assms(2) by (intro clean_elems_plain) (simp add: rel_path_def)
  ultimately have "Clean (dst @ slash # join_with slash es) = below dst @ join_with slash es"
    using assms rel_path_nonempty [OF assms(2)]
    by (simp add: Clean_def below_def Let_def join_with_append rel_path_def)
  with assms show ?thesis by (simp add: Join_def)
qed

section \<open>Packing and unpacking a tree\<close>

text \<open>A tree below a directory: nodes at paths of plain elements, and the walk through it.\<close>

type_synonym tree = "(string list \<times> fnode) list"

definition at :: "string \<Rightarrow> string list \<Rightarrow> string" where
  "at d es = d @ slash # join_with slash es"

definition tree_walk :: "string \<Rightarrow> tree \<Rightarrow> (string \<times> visit) list" where
  "tree_walk src ts = (src, Visit FDir None) # map (\<lambda>(es, n). (at src es, Visit n None)) ts"

text \<open>Every node after the directory it lies in, and none twice.\<close>

fun parents_first :: "string list set \<Rightarrow> tree \<Rightarrow> bool" where
  "parents_first dirs [] \<longleftrightarrow> True"
| "parents_first dirs ((es, n) # ts) \<longleftrightarrow>
    rel_path es \<and> (butlast es = [] \<or> butlast es \<in> dirs) \<and> es \<notin> fst ` set ts \<and>
    parents_first (if n = FDir then insert es dirs else dirs) ts"

text \<open>
  The source path does not occur again inside the paths below it: \<^verbatim>\<open>Tar\<close> deletes every occurrence.
\<close>

definition src_once :: "string \<Rightarrow> tree \<Rightarrow> bool" where
  "src_once src ts \<longleftrightarrow> src \<noteq> [] \<and>
    (\<forall>(es, n) \<in> set ts. replace_all src [] (slash # join_with slash es) = slash # join_with slash es)"

lemma replace_all_prefix:
  "src \<noteq> [] \<Longrightarrow> replace_all src [] (src @ s) = replace_all src [] s"
  by (cases src) (simp_all add: has_prefix_iff)

lemma headerName_at:
  assumes "src_once src ts" and "(es, n) \<in> set ts"
  shows "headerName src (at src es) = join_with slash es"
  using assms by (auto simp: headerName_def at_def src_once_def replace_all_prefix trim_prefix_def has_prefix_def)

lemma headerName_root: "src \<noteq> [] \<Longrightarrow> headerName src src = []"
  using replace_all_prefix [of src "[]"] by (simp add: headerName_def trim_prefix_def has_prefix_def)

fun header_of :: "string list \<times> fnode \<Rightarrow> tarHeader" where
  "header_of (es, FDir) = \<lparr>thName = join_with slash es, thType = TypeDir, thMode = 0, thData = []\<rparr>"
| "header_of (es, FFile m bytes) =
    \<lparr>thName = join_with slash es, thType = TypeReg, thMode = m, thData = bytes\<rparr>"
| "header_of (es, n) = \<lparr>thName = join_with slash es, thType = TypeOther, thMode = 0, thData = []\<rparr>"

lemma tarWalk_tree:
  assumes "src_once src ts" and "set ts' \<subseteq> set ts" and "\<forall>(es, n) \<in> set ts'. n \<noteq> FSocket"
  shows "tarWalk src (map (\<lambda>(es, n). (at src es, Visit n None)) ts') = (map header_of ts', None)"
  using assms(2,3)
proof (induction ts')
  case Nil
  then show ?case by simp
next
  case (Cons t ts')
  obtain es n where t: "t = (es, n)" by (cases t)
  with Cons.prems have "headerName src (at src es) = join_with slash es" "n \<noteq> FSocket"
    using headerName_at [OF assms(1), of es n] by auto
  then have "tarEntry src (at src es, Visit n None) = ([header_of t], None)"
    by (cases n) (simp_all add: t tarEntry_def)
  with Cons t show ?case by simp
qed

text \<open>The directory to unpack into, as a cleaned path that is there.\<close>

definition unpack_dir :: "string \<Rightarrow> string \<Rightarrow> fsys \<Rightarrow> bool" where
  "unpack_dir dst d fs \<longleftrightarrow> dst \<noteq> [] \<and> d \<noteq> [] \<and> below dst = d @ [slash] \<and> Join [dst, []] = d \<and>
    fs d = Some FDir"

lemma at_parent:
  assumes "rel_path es" and "d \<noteq> []"
  shows "parent_dir (at d es) = Some (if butlast es = [] then d else at d (butlast es))"
proof -
  obtain vs w where es: "es = vs @ [w]" using assms(1) by (cases es rule: rev_cases) (simp_all add: rel_path_def)
  then have w: "slash \<notin> set w" using assms(1) by (simp add: rel_path_def plain_elem_def)
  show ?thesis
  proof (cases "vs = []")
    case True
    with es parent_dir_slash [OF w assms(2)] show ?thesis by (simp add: at_def)
  next
    case False
    with es have "at d es = at d vs @ slash # w" by (simp add: at_def join_with_append)
    with es False parent_dir_slash [OF w, of "at d vs"] show ?thesis by (simp add: at_def)
  qed
qed

lemma at_inject:
  assumes "rel_path es" and "rel_path fs"
  shows "at d es = at d fs \<longleftrightarrow> es = fs"
proof
  assume "at d es = at d fs"
  then have "split_char slash (join_with slash es) = split_char slash (join_with slash fs)"
    by (simp add: at_def)
  then show "es = fs" unfolding rel_path_split [OF assms(1)] rel_path_split [OF assms(2)] .
qed simp

text \<open>Room for a node, and the node in its place.\<close>

definition room :: "string \<Rightarrow> fsys \<Rightarrow> string list \<times> fnode \<Rightarrow> bool" where
  "room d fs t =
    (case t of (es, n) \<Rightarrow>
      (case n of
         FDir \<Rightarrow> fs (at d es) = None \<or> fs (at d es) = Some FDir
       | FFile m bytes \<Rightarrow>
          (case fs (at d es) of
             None \<Rightarrow> True
           | Some (FFile m' old) \<Rightarrow> length old \<le> length bytes
           | Some _ \<Rightarrow> False)
       | _ \<Rightarrow> True))"

definition placed :: "string \<Rightarrow> fsys \<Rightarrow> string list \<times> fnode \<Rightarrow> bool" where
  "placed d fs t =
    (case t of (es, n) \<Rightarrow>
      (case n of
         FDir \<Rightarrow> fs (at d es) = Some FDir
       | FFile m bytes \<Rightarrow> (\<exists>m'. fs (at d es) = Some (FFile m' bytes))
       | _ \<Rightarrow> True))"

lemma room_cong: "fs (at d (fst t)) = fs' (at d (fst t)) \<Longrightarrow> room d fs t = room d fs' t"
  by (cases t) (simp add: room_def)

lemma parents_first_rel: "parents_first dirs ts \<Longrightarrow> (es, n) \<in> set ts \<Longrightarrow> rel_path es"
  by (induction dirs ts rule: parents_first.induct) (auto split: if_splits)

text \<open>One header: the node is placed and nothing else changes.\<close>

lemma Untar_one:
  assumes "unpack_dir dst d fs" and "rel_path es" and "room d fs (es, n)" and "n \<noteq> FSocket"
    and "butlast es = [] \<or> fs (at d (butlast es)) = Some FDir"
  shows "\<exists>fs'. Untar dst (header_of (es, n) # hs) fs = Untar dst hs fs' \<and> placed d fs' (es, n) \<and>
    (\<forall>p. p \<noteq> at d es \<longrightarrow> fs' p = fs p)"
proof -
  have target: "Join [dst, join_with slash es] = at d es"
    using Join_rel [of dst es] assms(1,2) by (simp add: unpack_dir_def at_def)
  have parent: "\<exists>q. parent_dir (at d es) = Some q \<and> fs q = Some FDir"
    using at_parent [OF assms(2)] assms(1,5) by (auto simp: unpack_dir_def)
  show ?thesis
  proof (cases n)
    case FDir
    show ?thesis
    proof (cases "fs (at d es)")
      case None
      from parent obtain q where "parent_dir (at d es) = Some q" "fs q = Some FDir" by blast
      then have "mkdirAll fs (at d es) = Inr (fs(at d es \<mapsto> FDir))"
        using None mkdirAll.simps [of fs "at d es"] mkdirAll.simps [of fs q] by simp
      with FDir None target show ?thesis by (intro exI [of _ "fs(at d es \<mapsto> FDir)"]) (simp add: placed_def)
    next
      case (Some x)
      with FDir assms(3) target show ?thesis by (intro exI [of _ fs]) (simp add: placed_def room_def)
    qed
  next
    case (FFile m bytes)
    then obtain m' where "writeFile fs (at d es) m bytes = Inr (fs(at d es \<mapsto> FFile m' bytes))"
      using parent assms(3) by (fastforce simp: writeFile_def room_def split: option.splits fnode.splits)
    with FFile target show ?thesis
      by (intro exI [of _ "fs(at d es \<mapsto> FFile m' bytes)"]) (simp add: placed_def)
  next
    case FOther
    with target show ?thesis by (intro exI [of _ fs]) (simp add: placed_def)
  next
    case FSocket
    with assms(4) show ?thesis by simp
  qed
qed

lemma Untar_tree:
  assumes "parents_first dirs ts" and "unpack_dir dst d fs" and "\<forall>(es, n) \<in> set ts. n \<noteq> FSocket"
    and "\<forall>es \<in> dirs. fs (at d es) = Some FDir" and "\<forall>t \<in> set ts. room d fs t"
    and "d \<notin> at d ` fst ` set ts" and "\<forall>(es, n) \<in> set ts. \<forall>es' \<in> dirs. at d es \<noteq> at d es'"
  shows "\<exists>fs'. Untar dst (map header_of ts) fs = (fs', None) \<and> (\<forall>t \<in> set ts. placed d fs' t) \<and>
    (\<forall>p. p \<notin> at d ` fst ` set ts \<longrightarrow> fs' p = fs p)"
  using assms
proof (induction ts arbitrary: dirs fs)
  case Nil
  then show ?case by simp
next
  case (Cons t ts)
  obtain es n where t: "t = (es, n)" by (cases t)
  let ?dirs = "if n = FDir then insert es dirs else dirs"
  from Cons.prems(1) t have pf: "rel_path es" "butlast es = [] \<or> butlast es \<in> dirs"
      "es \<notin> fst ` set ts" "parents_first ?dirs ts" by auto
  have "butlast es = [] \<or> fs (at d (butlast es)) = Some FDir" using pf(2) Cons.prems(4) by blast
  then obtain fs1 where fs1: "Untar dst (header_of t # map header_of ts) fs = Untar dst (map header_of ts) fs1"
      "placed d fs1 (es, n)" "\<forall>p. p \<noteq> at d es \<longrightarrow> fs1 p = fs p"
    using Untar_one [OF Cons.prems(2) pf(1), of n "map header_of ts"] Cons.prems(3,5) t by auto
  have others: "at d es' \<noteq> at d es" if "(es', n') \<in> set ts" for es' n'
  proof
    assume "at d es' = at d es"
    then have "es' = es" using at_inject parents_first_rel [OF pf(4) that] pf(1) by blast
    with pf(3) that show False by force
  qed
  have "d \<noteq> at d es" using Cons.prems(6) t by auto
  then have dir1: "unpack_dir dst d fs1" using Cons.prems(2) fs1(3) by (simp add: unpack_dir_def)
  have dirs1: "\<forall>es \<in> ?dirs. fs1 (at d es) = Some FDir"
    using Cons.prems(4,7) fs1(2,3) t by (auto simp: placed_def split: if_splits)
  have room1: "\<forall>t \<in> set ts. room d fs1 t"
  proof
    fix t' assume t': "t' \<in> set ts"
    then have "at d (fst t') \<noteq> at d es" using others [of "fst t'" "snd t'"] by simp
    then have "fs1 (at d (fst t')) = fs (at d (fst t'))" using fs1(3) by blast
    with t' Cons.prems(5) show "room d fs1 t'" using room_cong [of fs1 d t' fs] by simp
  qed
  have new1: "\<forall>(es', n') \<in> set ts. \<forall>es'' \<in> ?dirs. at d es' \<noteq> at d es''"
    using Cons.prems(7) others by (auto split: if_splits)
  have "\<exists>fs'. Untar dst (map header_of ts) fs1 = (fs', None) \<and> (\<forall>t \<in> set ts. placed d fs' t) \<and>
    (\<forall>p. p \<notin> at d ` fst ` set ts \<longrightarrow> fs' p = fs1 p)"
    using Cons.prems(3,6) by (intro Cons.IH [OF pf(4) dir1 _ dirs1 room1 _ new1]) auto
  then obtain fs' where fs': "Untar dst (map header_of ts) fs1 = (fs', None)" "\<forall>t \<in> set ts. placed d fs' t"
      "\<forall>p. p \<notin> at d ` fst ` set ts \<longrightarrow> fs' p = fs1 p" by blast
  have "at d es \<notin> at d ` fst ` set ts" using others by force
  then have "fs' (at d es) = fs1 (at d es)" using fs'(3) by blast
  with fs1(2) t have "placed d fs' t" by (simp add: placed_def)
  moreover have "fs' p = fs p" if "p \<notin> at d ` fst ` set (t # ts)" for p
    using that fs'(3) fs1(3) t by auto
  ultimately show ?case using fs1(1) fs'(1,2) by auto
qed

lemma archive_restores:
  assumes "src_once src ts" and "parents_first {} ts" and "\<forall>(es, n) \<in> set ts. n \<noteq> FSocket"
    and "fs0 (Clean src) \<noteq> None" and "unpack_dir dst d fs" and "\<forall>t \<in> set ts. room d fs t"
  shows "\<exists>hs fs'. Tar fs0 src (tree_walk src ts) = (hs, None) \<and> Untar dst hs fs = (fs', None) \<and>
    (\<forall>t \<in> set ts. placed d fs' t) \<and> (\<forall>p. p \<notin> at d ` fst ` set ts \<longrightarrow> fs' p = fs p)"
proof -
  let ?root = "\<lparr>thName = [], thType = TypeDir, thMode = 0, thData = []\<rparr>"
  have src: "src \<noteq> []" using assms(1) by (simp add: src_once_def)
  have "tarWalk src (map (\<lambda>(es, n). (at src es, Visit n None)) ts) = (map header_of ts, None)"
    by (rule tarWalk_tree [OF assms(1) order_refl assms(3)])
  then have "tarWalk src (tree_walk src ts) = (?root # map header_of ts, None)"
    using headerName_root [OF src] by (simp add: tree_walk_def tarEntry_def)
  then have tar: "Tar fs0 src (tree_walk src ts) = (?root # map header_of ts, None)"
    using assms(4) by (simp add: Tar_def)
  have "d \<notin> at d ` fst ` set ts" by (auto simp: at_def)
  then obtain fs' where fs': "Untar dst (map header_of ts) fs = (fs', None)" "\<forall>t \<in> set ts. placed d fs' t"
      "\<forall>p. p \<notin> at d ` fst ` set ts \<longrightarrow> fs' p = fs p"
    using Untar_tree [OF assms(2,5,3) _ assms(6)] by auto
  have "Untar dst (?root # map header_of ts) fs = (fs', None)"
    using fs'(1) assms(5) by (simp add: unpack_dir_def)
  with tar fs'(2,3) show ?thesis by blast
qed

text \<open>C27: Round trip. Packing a tree and unpacking the archive into a directory that is there, with
  no longer file and no other kind of node in the way, succeeds: every directory of the tree is
  there, every regular file has the bytes it had, and nothing outside the tree has changed. The
  source path must not occur inside the paths below it, since every occurrence is deleted from the
  names.\<close>

theorem Untar_Tar:
  assumes "src_once src ts" and "parents_first {} ts" and "\<forall>(es, n) \<in> set ts. n \<noteq> FSocket"
    and "fs0 (Clean src) \<noteq> None" and "unpack_dir dst d fs" and "\<forall>t \<in> set ts. room d fs t"
  shows "\<exists>hs fs'. Tar fs0 src (tree_walk src ts) = (hs, None) \<and> Untar dst hs fs = (fs', None) \<and>
    (\<forall>t \<in> set ts. placed d fs' t) \<and> (\<forall>p. p \<notin> at d ` fst ` set ts \<longrightarrow> fs' p = fs p)"
  using assms by (rule archive_restores)

definition exTree :: tree where
  "exTree = [([''a''], FDir), ([''a'', ''f''], FFile 384 ''xyz'')]"

lemma exTree_ok: "src_once ''data'' exTree" "parents_first {} exTree" "\<forall>(es, n) \<in> set exTree. n \<noteq> FSocket"
  by (simp_all add: exTree_def src_once_def rel_path_def plain_elem_def slash_def has_prefix_def)

lemma ex_unpack: "unpack_dir ''new'' ''new'' [''new'' \<mapsto> FDir]"
  by (simp add: unpack_dir_def below_def Join_def Clean_def slash_def Let_def)

theorem Untar_Tar_witness:
  "\<exists>hs fs'. Tar [''data'' \<mapsto> FDir] ''data'' (tree_walk ''data'' exTree) = (hs, None) \<and>
    Untar ''new'' hs [''new'' \<mapsto> FDir] = (fs', None) \<and> (\<exists>m. fs' (at ''new'' [''a'', ''f'']) = Some (FFile m ''xyz''))"
proof -
  have "[''data'' \<mapsto> FDir] (Clean ''data'') \<noteq> None" by (simp add: Clean_def slash_def Let_def)
  moreover have "\<forall>t \<in> set exTree. room ''new'' [''new'' \<mapsto> FDir] t"
    by (simp add: exTree_def room_def at_def slash_def)
  ultimately obtain hs fs' where
    run: "Tar [''data'' \<mapsto> FDir] ''data'' (tree_walk ''data'' exTree) = (hs, None)"
      "Untar ''new'' hs [''new'' \<mapsto> FDir] = (fs', None)"
    and "\<forall>t \<in> set exTree. placed ''new'' fs' t"
    using Untar_Tar [OF exTree_ok _ ex_unpack] by metis
  then have "placed ''new'' fs' ([''a'', ''f''], FFile 384 ''xyz'')" by (simp add: exTree_def)
  with run show ?thesis by (auto simp: placed_def)
qed

text \<open>Unpacking over a longer file does not restore it: the file keeps the end of its old bytes,
  because it is opened without truncation.\<close>

lemma Untar_keeps_old_tail:
  assumes "parent_dir (Join [dst, thName h]) = Some q" and "fs q = Some FDir"
    and "fs (Join [dst, thName h]) = Some (FFile m old)" and "thType h = TypeReg"
    and "length (thData h) < length old"
  shows "\<exists>fs'. Untar dst [h] fs = (fs', None) \<and>
    fs' (Join [dst, thName h]) = Some (FFile m (thData h @ drop (length (thData h)) old)) \<and>
    thData h @ drop (length (thData h)) old \<noteq> thData h"
  using assms by (simp add: writeFile_def Let_def)

lemma Untar_keeps_old_tail_witness:
  "\<exists>fs'. Untar ''new'' [\<lparr>thName = ''f'', thType = TypeReg, thMode = 384, thData = ''xy''\<rparr>]
      [''new'' \<mapsto> FDir, ''new/f'' \<mapsto> FFile 384 ''abcd''] = (fs', None) \<and>
    fs' ''new/f'' = Some (FFile 384 ''xycd'')"
proof -
  have join: "Join [''new'', ''f''] = ''new/f''" by (simp add: Join_def Clean_def slash_def Let_def)
  have "parent_dir ''new/f'' = Some ''new''" by (simp add: parent_dir_def slash_def)
  with Untar_keeps_old_tail [of "''new''" "\<lparr>thName = ''f'', thType = TypeReg, thMode = 384, thData = ''xy''\<rparr>"
      "''new''" "[''new'' \<mapsto> FDir, ''new/f'' \<mapsto> FFile 384 ''abcd'']" 384 "''abcd''"]
  show ?thesis by (simp add: join)
qed

end
