(* ===== verification/Snapshot.thy ===== *)
theory Snapshot
  imports Zipper Flush Example
begin

text \<open>
  The snapshots of \<^verbatim>\<open>statemachine.go\<close>: packing the data directory into a file named after the stored
  index, streaming that file, and unpacking a stream into the data directory.
\<close>

section \<open>Operations\<close>

text \<open>
  \<open>encode\<close> and \<open>decode\<close> stand for the tar and gzip formats; \<open>decode\<close> gives the headers that can be
  read and the error that ends the stream, if it does not end well. The file is opened before the
  data directory is looked for, so a failed \<open>Tar\<close> leaves an empty one behind.
\<close>

definition PrepareSnapshot ::
  "('db, 'ix) libs \<Rightarrow> (tarHeader list \<Rightarrow> string) \<Rightarrow> string \<Rightarrow> (string \<times> visit) list \<Rightarrow> fsys \<Rightarrow>
    ('db, 'ix) ByStateMachine \<Rightarrow>
    (('db, 'ix) ByStateMachine \<times> fsys \<times> string option \<times> gerror option) outcome" where
  "PrepareSnapshot L encode prefix walk fs s =
    map_outcome (\<lambda>(s', lastUpdate, laErr).
      case laErr of
        Some err \<Rightarrow> (s', fs, None, Some err)
      | None \<Rightarrow>
         (let targetPath = Join [SnapshotPath prefix, fmt_u64 lastUpdate @ ''.tgz''];
              (hs, tarballErr) = Tar fs (DataPath prefix) walk;
              written = (if fs (Clean (DataPath prefix)) = None then [] else encode hs)
          in case writeFile fs targetPath 384 written of
               Inl fileErr \<Rightarrow> (s', fs, None, Some fileErr)
             | Inr fs' \<Rightarrow> (s', fs', Some targetPath, tarballErr)))
      (getLastUpdateIndex L s)"

definition SaveSnapshot :: "fsys \<Rightarrow> string \<Rightarrow> gerror + string" where
  "SaveSnapshot fs path =
    (case fs path of
       Some (FFile m bytes) \<Rightarrow> Inr bytes
     | Some FDir \<Rightarrow> Inl (ErrLib ''is a directory'')
     | _ \<Rightarrow> Inl (ErrLib ''no such file''))"

text \<open>
  The files are written below open databases: \<open>remap\<close> stands for what the open handles see of the
  file system after that.
\<close>

definition RecoverFromSnapshot ::
  "('db, 'ix) libs \<Rightarrow> (string \<Rightarrow> tarHeader list \<times> gerror option) \<Rightarrow>
    (fsys \<Rightarrow> ('db, 'ix) ByStateMachine \<Rightarrow> ('db, 'ix) ByStateMachine) \<Rightarrow> string \<Rightarrow> string \<Rightarrow> fsys \<Rightarrow>
    ('db, 'ix) ByStateMachine \<Rightarrow> (('db, 'ix) ByStateMachine \<times> fsys \<times> gerror option) outcome" where
  "RecoverFromSnapshot L decode remap prefix stream fs s =
    (let (hs, streamErr) = decode stream;
         (fs', untarErr) = Untar (DataPath prefix) hs fs;
         s1 = remap fs' s
     in case (case untarErr of Some err \<Rightarrow> Some err | None \<Rightarrow> streamErr) of
          Some err \<Rightarrow> Done (s1, fs', Some err)
        | None \<Rightarrow>
            map_outcome (\<lambda>(s2, lastUpdate, lastUpdateErr). (s2\<lparr>lastIndex := lastUpdate\<rparr>, fs', lastUpdateErr))
              (getLastUpdateIndex L s1))"

section \<open>A snapshot restores the files\<close>

text \<open>\<^verbatim>\<open>filepath.Walk\<close> over a tree packs to the root and the headers of the nodes.\<close>

lemma PrepareSnapshot_file:
  assumes "stored_index L s = Done (i, None)" and "Tar fs (DataPath prefix) walk = (hs, None)"
    and "path = Join [SnapshotPath prefix, fmt_u64 i @ ''.tgz'']" and "parent_dir path = Some q"
    and "fs q = Some FDir" and "fs path = None \<and> old = [] \<or> fs path = Some (FFile m old)"
  shows "\<exists>m'. PrepareSnapshot L encode prefix walk fs s =
    Done (s\<lparr>lastIndex := i\<rparr>,
      fs(path \<mapsto> FFile m' (encode hs @ drop (length (encode hs)) old)), Some path, None)"
proof -
  have there: "fs (Clean (DataPath prefix)) \<noteq> None" using assms(2) by (auto simp: Tar_def split: if_splits)
  obtain m' where "writeFile fs path 384 (encode hs) =
      Inr (fs(path \<mapsto> FFile m' (encode hs @ drop (length (encode hs)) old)))"
    using assms(4-6) by (auto simp: writeFile_def)
  with there show ?thesis
    using assms(2,3) stored_index_state [OF assms(1)]
    by (intro exI [of _ m']) (auto simp: PrepareSnapshot_def Let_def)
qed

lemma RecoverFromSnapshot_ok:
  assumes "decode stream = (hs, None)" and "Untar (DataPath prefix) hs fs = (fs', None)"
  shows "RecoverFromSnapshot L decode remap prefix stream fs s =
    map_outcome (\<lambda>(s', i, err). (s', fs', err)) (getLastUpdateIndex L (remap fs' s))"
  using assms
  by (cases "getLastUpdateIndex L (remap fs' s)")
    (auto simp: RecoverFromSnapshot_def dest: getLastUpdateIndex_state)

text \<open>C28: A node prepares a snapshot and sends it, another recovers from it. When the formats read
  back what they wrote, the snapshot's file is new, and nothing longer is in the way at the other
  node, both succeed: the file is named after the stored index, every directory and every file of
  the first node's data directory is restored below the second node's, nothing outside of it
  changes, and the second node goes on from the index that its databases then hold.\<close>

theorem snapshot_roundtrip:
  assumes "\<And>hs. decode (encode hs) = (hs, None)"
    and "src_once (DataPath prefix) ts" and "parents_first {} ts" and "\<forall>(es, n) \<in> set ts. n \<noteq> FSocket"
    and "fs (Clean (DataPath prefix)) \<noteq> None"
    and "stored_index L s = Done (i, None)" and "path = Join [SnapshotPath prefix, fmt_u64 i @ ''.tgz'']"
    and "parent_dir path = Some q" and "fs q = Some FDir" and "fs path = None"
    and "unpack_dir (DataPath prefix') d fs2" and "\<forall>t \<in> set ts. room d fs2 t"
  shows "\<exists>fs' stream fs2'.
    PrepareSnapshot L encode prefix (tree_walk (DataPath prefix) ts) fs s =
      Done (s\<lparr>lastIndex := i\<rparr>, fs', Some path, None) \<and>
    SaveSnapshot fs' path = Inr stream \<and>
    RecoverFromSnapshot L decode remap prefix' stream fs2 s2 =
      map_outcome (\<lambda>(s3, j, err). (s3, fs2', err)) (getLastUpdateIndex L (remap fs2' s2)) \<and>
    (\<forall>t \<in> set ts. placed d fs2' t) \<and> (\<forall>p. p \<notin> at d ` fst ` set ts \<longrightarrow> fs2' p = fs2 p)"
proof -
  obtain hs fs2' where
    tar: "Tar fs (DataPath prefix) (tree_walk (DataPath prefix) ts) = (hs, None)"
    and untar: "Untar (DataPath prefix') hs fs2 = (fs2', None)"
    and placed: "\<forall>t \<in> set ts. placed d fs2' t" "\<forall>p. p \<notin> at d ` fst ` set ts \<longrightarrow> fs2' p = fs2 p"
    using archive_restores [of "DataPath prefix" ts fs "DataPath prefix'" d fs2] assms(2-5,11,12) by blast
  obtain m where prep: "PrepareSnapshot L encode prefix (tree_walk (DataPath prefix) ts) fs s =
      Done (s\<lparr>lastIndex := i\<rparr>, fs(path \<mapsto> FFile m (encode hs)), Some path, None)"
    using PrepareSnapshot_file [OF assms(6) tar assms(7-9), of "[]" 0 encode] assms(10) by auto
  have "SaveSnapshot (fs(path \<mapsto> FFile m (encode hs))) path = Inr (encode hs)"
    by (simp add: SaveSnapshot_def)
  with prep placed RecoverFromSnapshot_ok [of decode "encode hs", OF assms(1) untar, of L remap s2]
  show ?thesis by blast
qed

section \<open>A codec to try the round trip on\<close>

definition exNum :: "nat \<Rightarrow> string" where
  "exNum n = replicate n CHR ''1'' @ '',''"

definition takeNum :: "string \<Rightarrow> nat \<times> string" where
  "takeNum s = (length (takeWhile (\<lambda>c. c = CHR ''1'') s), tl (dropWhile (\<lambda>c. c = CHR ''1'') s))"

definition exStr :: "string \<Rightarrow> string" where
  "exStr s = exNum (length s) @ s"

definition takeStr :: "string \<Rightarrow> string \<times> string" where
  "takeStr s = (case takeNum s of (n, r) \<Rightarrow> (take n r, drop n r))"

fun exType :: "typeflag \<Rightarrow> nat" where
  "exType TypeDir = 0" | "exType TypeReg = 1" | "exType TypeOther = 2"

definition takeType :: "nat \<Rightarrow> typeflag" where
  "takeType n = (if n = 0 then TypeDir else if n = 1 then TypeReg else TypeOther)"

definition exHeader :: "tarHeader \<Rightarrow> string" where
  "exHeader h = exStr (thName h) @ exNum (exType (thType h)) @ exNum (thMode h) @ exStr (thData h)"

definition takeHeader :: "string \<Rightarrow> tarHeader \<times> string" where
  "takeHeader s =
    (case takeStr s of (name, s1) \<Rightarrow> case takeNum s1 of (t, s2) \<Rightarrow> case takeNum s2 of (m, s3) \<Rightarrow>
     case takeStr s3 of (bytes, s4) \<Rightarrow>
      (\<lparr>thName = name, thType = takeType t, thMode = m, thData = bytes\<rparr>, s4))"

fun takeHeaders :: "nat \<Rightarrow> string \<Rightarrow> tarHeader list" where
  "takeHeaders 0 s = []"
| "takeHeaders (Suc n) s = (case takeHeader s of (h, r) \<Rightarrow> h # takeHeaders n r)"

definition exPack :: "tarHeader list \<Rightarrow> string" where
  "exPack hs = exNum (length hs) @ concat (map exHeader hs)"

definition exUnpack :: "string \<Rightarrow> tarHeader list \<times> gerror option" where
  "exUnpack s = (case takeNum s of (n, r) \<Rightarrow> (takeHeaders n r, None))"

lemma takeNum [simp]: "takeNum (exNum n @ r) = (n, r)"
  by (simp add: takeNum_def exNum_def takeWhile_append2 dropWhile_append2 takeWhile_append dropWhile_append)

lemma takeStr [simp]: "takeStr (exStr s @ r) = (s, r)"
  by (simp add: takeStr_def exStr_def)

lemma takeType [simp]: "takeType (exType t) = t"
  by (cases t) (simp_all add: takeType_def)

lemma takeHeader [simp]: "takeHeader (exHeader h @ r) = (h, r)"
  by (simp add: takeHeader_def exHeader_def)

lemma takeHeaders [simp]: "takeHeaders (length hs) (concat (map exHeader hs)) = hs"
  by (induction hs) simp_all

lemma exUnpack_exPack: "exUnpack (exPack hs) = (hs, None)"
  by (simp add: exUnpack_def exPack_def)

lemma ex_paths:
  "DataPath ''n'' = ''n/data''" "SnapshotPath ''n'' = ''n/snapshots''" "DataPath ''m'' = ''m/data''"
  "Join [''n/snapshots'', ''0.tgz''] = ''n/snapshots/0.tgz''"
  by (simp_all add: DataPath_def SnapshotPath_def RootPath_def Join_def Clean_def slash_def Let_def)

definition exSender :: fsys where
  "exSender = [''n/data'' \<mapsto> FDir, ''n/snapshots'' \<mapsto> FDir]"

definition exReceiver :: fsys where
  "exReceiver = [''m/data'' \<mapsto> FDir]"

theorem snapshot_roundtrip_witness:
  "\<exists>fs' stream fs2' m.
    PrepareSnapshot exLibs exPack ''n'' (tree_walk ''n/data'' exTree) exSender exStored =
      Done (exStored, fs', Some ''n/snapshots/0.tgz'', None) \<and>
    SaveSnapshot fs' ''n/snapshots/0.tgz'' = Inr stream \<and>
    RecoverFromSnapshot exLibs exUnpack (\<lambda>fs s. s) ''m'' stream exReceiver exState =
      Done (exState, fs2', None) \<and>
    fs2' (at ''m/data'' [''a'', ''f'']) = Some (FFile m ''xyz'')"
proof -
  have src: "src_once (DataPath ''n'') exTree"
    by (simp add: ex_paths exTree_def src_once_def slash_def has_prefix_def)
  have i: "stored_index exLibs exStored = Done (0, None)" "stored_index exLibs exState = Done (0, None)"
    by (simp_all add: stored_index_def getLastUpdateIndex_def exStored_def exState_def)
  have path: "''n/snapshots/0.tgz'' = Join [SnapshotPath ''n'', fmt_u64 0 @ ''.tgz'']"
    using ex_paths(4) by (simp add: ex_paths(2) fmt_u64_def show_nat.simps digit_char_def char_of_def bit_0)
  have there: "exSender (Clean (DataPath ''n'')) \<noteq> None" "exSender ''n/snapshots'' = Some FDir"
      "exSender ''n/snapshots/0.tgz'' = None"
    by (simp_all add: ex_paths exSender_def Clean_def slash_def Let_def)
  have parent: "parent_dir ''n/snapshots/0.tgz'' = Some ''n/snapshots''"
    by (simp add: parent_dir_def slash_def)
  have unpack: "unpack_dir (DataPath ''m'') ''m/data'' exReceiver"
    by (simp add: ex_paths unpack_dir_def exReceiver_def below_def Join_def Clean_def slash_def Let_def)
  have room: "\<forall>t \<in> set exTree. room ''m/data'' exReceiver t"
    by (simp add: exTree_def room_def at_def slash_def exReceiver_def)
  have get: "getLastUpdateIndex exLibs exState = Done (exState, 0, None)"
    using stored_index_state [OF i(2)] by (simp add: exState_def)
  have same: "exStored\<lparr>lastIndex := 0\<rparr> = exStored" by (simp add: exStored_def exWith_def exState_def)
  obtain fs' stream fs2' where
    "PrepareSnapshot exLibs exPack ''n'' (tree_walk (DataPath ''n'') exTree) exSender exStored =
      Done (exStored\<lparr>lastIndex := 0\<rparr>, fs', Some ''n/snapshots/0.tgz'', None)"
    "SaveSnapshot fs' ''n/snapshots/0.tgz'' = Inr stream"
    "RecoverFromSnapshot exLibs exUnpack (\<lambda>fs s. s) ''m'' stream exReceiver exState =
      map_outcome (\<lambda>(s3, j, err). (s3, fs2', err)) (getLastUpdateIndex exLibs exState)"
    "\<forall>t \<in> set exTree. placed ''m/data'' fs2' t"
    using snapshot_roundtrip [OF exUnpack_exPack src exTree_ok(2,3) there(1) i(1) path parent there(2,3)
        unpack room, of "\<lambda>fs s. s" exState] by blast
  moreover from this(4) have "placed ''m/data'' fs2' ([''a'', ''f''], FFile 384 ''xyz'')"
    by (simp add: exTree_def)
  ultimately show ?thesis unfolding same by (auto simp: get ex_paths placed_def)
qed

end
