(* ===== verification/Restart.thy ===== *)
theory Restart
  imports Example
begin

text \<open>
  Stopping and starting again: what \<open>Open\<close> makes of the databases that an earlier run of the state
  machine left in the data directory.
\<close>

section \<open>The data directory\<close>

text \<open>
  The directory holds the databases of \<open>s\<close>: at every path the opener finds the database that \<open>s\<close> has
  there, and no index has to be created.
\<close>

definition on_disk ::
  "('db, 'ix) opener \<Rightarrow> string \<Rightarrow> ('db, 'ix) ByStateMachine \<Rightarrow> bool" where
  "on_disk P prefix s \<longleftrightarrow>
    dom (shardMap s) = set alphabet_runes \<and>
    (\<forall>c \<in> set alphabet. \<forall>sh. shardMap s (byte_of c) = Some sh \<longrightarrow>
      opOpenBolt P (Join [BlockPath prefix, [c]]) = Inr (shBlock sh) \<and>
      \<not> opMissing P (Join [IndexPath prefix, [c]]) \<and>
      opOpenIndex P (Join [IndexPath prefix, [c]]) = Inr (shIndex sh)) \<and>
    (\<exists>meta. metaDb s = Some meta \<and> opOpenBolt P (MetaDbPath prefix) = Inr meta)"

lemma openShards_all:
  assumes "\<forall>c \<in> set cs. \<exists>sh. OpenShard P prefix [c] = Inr sh"
  shows "\<exists>s'. openShards P prefix cs s = (s', None)"
  using assms by (induction cs arbitrary: s) auto

lemma on_disk_shards:
  assumes "on_disk P prefix s"
  shows "\<exists>s1. openShardMap P prefix NewByStateMachine = (s1, None) \<and> shardMap s1 = shardMap s \<and>
    pending s1 = []"
proof -
  have found: "\<exists>sh. shardMap s (byte_of c) = Some sh \<and> OpenShard P prefix [c] = Inr sh"
    if c: "c \<in> set alphabet" for c
  proof -
    have "byte_of c \<in> dom (shardMap s)" using assms c by (simp add: on_disk_def set_alphabet_runes)
    then obtain sh where sh: "shardMap s (byte_of c) = Some sh" by auto
    with assms c have "OpenShard P prefix [c] = Inr sh"
      by (simp add: on_disk_def OpenShard_def openOrCreateBleve_def)
    with sh show ?thesis by blast
  qed
  then obtain s1 where s1: "openShardMap P prefix NewByStateMachine = (s1, None)"
    using openShards_all [of alphabet P prefix NewByStateMachine] by (auto simp: openShardMap_def)
  note new = openShardMap_new [OF s1]
  have "shardMap s1 r = shardMap s r" for r
  proof (cases "r \<in> set alphabet_runes")
    case True
    then obtain c where c: "c \<in> set alphabet" "r = byte_of c" by (auto simp: set_alphabet_runes)
    from bspec [OF new(3) c(1)] obtain sh where "OpenShard P prefix [c] = Inr sh"
      "shardMap s1 (byte_of c) = Some sh" by blast
    with found [OF c(1)] c(2) show ?thesis by auto
  next
    case False
    then have "r \<notin> dom (shardMap s1)" "r \<notin> dom (shardMap s)"
      using new(1) assms by (simp_all add: on_disk_def)
    then show ?thesis by (simp add: domIff)
  qed
  then have "shardMap s1 = shardMap s" ..
  with s1 new(2) show ?thesis by blast
qed

section \<open>Opening it\<close>

context reliable_libs begin

text \<open>Creating the bucket of the meta database again changes nothing in it.\<close>

lemma ensure_again:
  assumes "metaDb s = Some meta" and "txBucket (libBolt L) meta metaBucket"
  shows "\<exists>meta'. ensureThatMetadbBucketExists L s = Done (s\<lparr>metaDb := Some meta'\<rparr>, None) \<and>
    content_of (libBolt L) meta' = content_of (libBolt L) meta"
proof -
  obtain db where db: "txCreateBucketIfNotExists (libBolt L) meta metaBucket = Inr db"
    using create_ok [of metaBucket meta] by (auto simp: metaBucket_def max_key_size_def)
  obtain meta' where meta': "txCommit (libBolt L) db = Inr meta'" using commit_ok by blast
  have "content_of (libBolt L) meta' = content_of (libBolt L) meta"
    using commit_content [OF meta'] create_content [OF db] assms(2)
    by (auto simp: content_of_def fun_eq_iff)
  moreover have "ensureThatMetadbBucketExists L s = Done (s\<lparr>metaDb := Some meta'\<rparr>, None)"
    using assms(1) db meta' begin_ok by (simp add: ensureThatMetadbBucketExists_def boltUpdate_def)
  ultimately show ?thesis by blast
qed

lemma stored_index_content:
  assumes "metaDb s = Some meta" and "metaDb t = Some meta'"
    and "content_of (libBolt L) meta = content_of (libBolt L) meta'"
  shows "stored_index L s = stored_index L t" and "meta_ready L s = meta_ready L t"
proof -
  have bucket: "txBucket (libBolt L) meta metaBucket = txBucket (libBolt L) meta' metaBucket"
    using assms(3) txBucket_content by simp
  moreover have "bktGet (libBolt L) meta metaBucket = bktGet (libBolt L) meta' metaBucket"
    if "txBucket (libBolt L) meta metaBucket"
    using that bucket assms(3) bktGet_content by simp
  ultimately show "stored_index L s = stored_index L t"
    using assms(1,2) begin_ok
    by (cases "txBucket (libBolt L) meta metaBucket")
      (simp_all add: stored_index_def getLastUpdateIndex_def split: prod.split)
  show "meta_ready L s = meta_ready L t" using bucket assms(1,2) by (simp add: meta_ready_def)
qed

lemma Open_again:
  assumes "on_disk P prefix s" and "meta_ready L s" and "stored_index L s = Done (i, None)"
  shows "\<exists>s'. Open L P prefix NewByStateMachine = Done (s', i, None) \<and> shardMap s' = shardMap s \<and>
    pending s' = [] \<and> lastIndex s' = i \<and> meta_ready L s' \<and> stored_index L s' = Done (i, None)"
proof -
  obtain s1 where s1: "openShardMap P prefix NewByStateMachine = (s1, None)" "shardMap s1 = shardMap s"
      "pending s1 = []"
    using on_disk_shards [OF assms(1)] by blast
  obtain meta where meta: "metaDb s = Some meta" "opOpenBolt P (MetaDbPath prefix) = Inr meta"
    using assms(1) by (auto simp: on_disk_def)
  have bucket: "txBucket (libBolt L) meta metaBucket" using assms(2) meta(1) by (simp add: meta_ready_def)
  let ?s2 = "s1\<lparr>metaDb := Some meta\<rparr>"
  have s2: "openMetaDb P prefix s1 = (?s2, None)" using meta(2) by (simp add: openMetaDb_def)
  obtain meta' where meta': "ensureThatMetadbBucketExists L ?s2 = Done (?s2\<lparr>metaDb := Some meta'\<rparr>, None)"
      "content_of (libBolt L) meta' = content_of (libBolt L) meta"
    using ensure_again [of ?s2 meta] bucket by auto
  let ?s3 = "?s2\<lparr>metaDb := Some meta'\<rparr>"
  have idx: "stored_index L ?s3 = Done (i, None)" and ready: "meta_ready L ?s3"
    using stored_index_content [of ?s3 meta' s meta] meta(1) meta'(2) assms(2,3) by simp_all
  let ?s4 = "?s3\<lparr>lastIndex := i\<rparr>"
  have "getLastUpdateIndex L ?s3 = Done (?s4, i, None)" by (rule stored_index_state [OF idx])
  then have "Open L P prefix NewByStateMachine = Done (?s4, i, None)"
    using s1(1) s2 meta'(1) by (simp add: Open_def)
  moreover have "stored_index L ?s4 = Done (i, None)" "meta_ready L ?s4"
    using stored_index_content [of ?s4 meta' ?s3 meta'] idx ready by simp_all
  ultimately show ?thesis using s1(2,3) by (intro exI [of _ ?s4]) simp
qed

lemma Open_again_run_inv:
  assumes "run_inv L s" and "pending s = []" and "shardMap s' = shardMap s" and "pending s' = []"
    and "meta_ready L s'"
  shows "run_inv L s'" and "db_view L s' = db_view L s"
proof -
  have "state_content L s' = state_content L s" using assms(3) by (simp add: state_content_def fun_eq_iff)
  then show "db_view L s' = db_view L s" using assms(2,4) by (simp add: db_view_def)
  then show "run_inv L s'"
    using assms \<open>state_content L s' = state_content L s\<close> by (simp add: run_inv_def sm_inv_def)
qed

end

section \<open>The directory of a state\<close>

definition diskOf :: "string \<Rightarrow> ('db, 'ix) ByStateMachine \<Rightarrow> ('db, 'ix) opener" where
  "diskOf prefix s =
    (let missing = ErrLib ''no such file'';
         shardAt = (\<lambda>dir p. case find (\<lambda>c. Join [dir, [c]] = p) alphabet of
            None \<Rightarrow> None
          | Some c \<Rightarrow> shardMap s (byte_of c))
     in \<lparr>opMissing = (\<lambda>p. shardAt (IndexPath prefix) p = None), opNewIndex = (\<lambda>p. Inl missing),
       opOpenIndex = (\<lambda>p. case shardAt (IndexPath prefix) p of None \<Rightarrow> Inl missing | Some sh \<Rightarrow> Inr (shIndex sh)),
       opOpenBolt = (\<lambda>p.
         if p = MetaDbPath prefix then (case metaDb s of None \<Rightarrow> Inl missing | Some meta \<Rightarrow> Inr meta)
         else case shardAt (BlockPath prefix) p of None \<Rightarrow> Inl missing | Some sh \<Rightarrow> Inr (shBlock sh))\<rparr>)"

lemma find_letter:
  assumes "path \<noteq> []" and "c \<in> set alphabet"
  shows "find (\<lambda>d. Join [path, [d]] = Join [path, [c]]) alphabet = Some c"
proof -
  have "d = c" if "d \<in> set alphabet" "Join [path, [d]] = Join [path, [c]]" for d
    using Join_inject [OF assms(1) plain_letter [OF that(1)] plain_letter [OF assms(2)]] that(2) by simp
  moreover obtain d where "find (\<lambda>d. Join [path, [d]] = Join [path, [c]]) alphabet = Some d"
    using assms(2) by (cases "find (\<lambda>d. Join [path, [d]] = Join [path, [c]]) alphabet") (auto simp: find_None_iff)
  moreover from this have "d \<in> set alphabet" "Join [path, [d]] = Join [path, [c]]"
    by (auto simp: find_Some_iff)
  ultimately show ?thesis by simp
qed

text \<open>The meta database lies beside the directory of the blocks and not in it.\<close>

lemma ex_meta_apart: "Join [BlockPath ''n'', [c]] \<noteq> MetaDbPath ''n''" if "c \<in> set alphabet" for c
proof -
  have "DataPath ''n'' = ''n/data''"
    by (simp add: DataPath_def RootPath_def Join_def Clean_def slash_def Let_def)
  then have "BlockPath ''n'' = ''n/data/block''" "MetaDbPath ''n'' = ''n/data/meta.bolt''"
    by (simp_all add: BlockPath_def MetaDbPath_def Join_def Clean_def slash_def Let_def)
  moreover have "below ''n/data/block'' = ''n/data/block/''" by (simp add: below_def slash_def Let_def)
  ultimately show ?thesis using Join_below [of "''n/data/block''" "[c]"] plain_letter [OF that] by simp
qed

lemma on_diskOf:
  assumes "dom (shardMap s) = set alphabet_runes" and "metaDb s \<noteq> None"
  shows "on_disk (diskOf ''n'' s) ''n'' s"
  using assms ex_meta_apart by (auto simp: on_disk_def diskOf_def Let_def find_letter)

lemma ex_reopen: "Open exLibs (diskOf ''n'' exState) ''n'' NewByStateMachine = Done (exState, 0, None)"
proof -
  have "metaDb exState \<noteq> None" by (simp add: exState_def)
  from on_disk_shards [OF on_diskOf [OF dom_exState [symmetric] this]] obtain s1 where
    s1: "openShardMap (diskOf ''n'' exState) ''n'' NewByStateMachine = (s1, None)" "shardMap s1 = shardMap exState"
    by blast
  then have "s1 = NewByStateMachine\<lparr>shardMap := shardMap exState\<rparr>"
    using openShards_ok [OF s1(1) [unfolded openShardMap_def]] by simp
  with s1(1) show ?thesis
    by (simp add: Open_def openMetaDb_def ensureThatMetadbBucketExists_def boltUpdate_def
        getLastUpdateIndex_def diskOf_def exState_def NewByStateMachine_def Let_def metaBucket_def)
qed

lemma ex_stored_index: "stored_index exLibs exStored = Done (0, None)"
  by (simp add: stored_index_def getLastUpdateIndex_def)

end
