(* ===== verification/Config.thy ===== *)
theory Config
  imports Dir
begin

text \<open>
  \<^verbatim>\<open>config/config.go\<close> and the decisions of \<^verbatim>\<open>main\<close> in \<^verbatim>\<open>server.go\<close>: which node this is, which address
  it has, and how it starts.
\<close>

section \<open>Configuration\<close>

record raftConfig =
  cfShardId :: u64
  cfSnapshotEntries :: u64
  cfCompactionOverhead :: u64
  cfElectionRTT :: u64
  cfHeartbeatRTT :: u64
  cfRTTMillisecond :: u64

record Config =
  cfReplicaId :: u64
  cfAddress :: string
  cfGrpcAddress :: string
  cfInitialNodes :: "string list"
  cfRaft :: raftConfig

text \<open>\<^verbatim>\<open>uint64(len(s.InitialNodes))\<close>; the comparison is of unsigned words.\<close>

definition IsInitNode :: "Config \<Rightarrow> bool" where
  "IsInitNode s \<longleftrightarrow> cfReplicaId s \<le> of_nat (length (cfInitialNodes s))"

fun nodeMapFrom :: "nat \<Rightarrow> string list \<Rightarrow> (u64 \<rightharpoonup> string) \<Rightarrow> (u64 \<rightharpoonup> string)" where
  "nodeMapFrom idx [] ret = ret"
| "nodeMapFrom idx (host # hosts) ret = nodeMapFrom (Suc idx) hosts (ret(of_nat (idx + 1) \<mapsto> host))"

definition InitialNodeMap :: "Config \<Rightarrow> (u64 \<rightharpoonup> string)" where
  "InitialNodeMap s = nodeMapFrom 0 (cfInitialNodes s) Map.empty"

text \<open>
  The index is \<^verbatim>\<open>int(s.ReplicaId-1)\<close>: the subtraction wraps, the conversion reads the word as signed,
  and an index outside the slice panics.
\<close>

definition NodeAddress :: "Config \<Rightarrow> string outcome" where
  "NodeAddress s =
    (if IsInitNode s then
       (let i = sint (cfReplicaId s - 1) in
        if 0 \<le> i \<and> i < int (length (cfInitialNodes s)) then Done (cfInitialNodes s ! nat i)
        else Panic IndexOutOfRange)
     else Done (cfAddress s))"

section \<open>Loading\<close>

definition defaultConfigFile :: string where
  "defaultConfigFile = ''test-run-config.yml''"

definition defaultConfig :: Config where
  "defaultConfig =
    \<lparr>cfReplicaId = 0, cfAddress = [], cfGrpcAddress = ''localhost:64001'', cfInitialNodes = [],
     cfRaft = \<lparr>cfShardId = 128, cfSnapshotEntries = 1000, cfCompactionOverhead = 200,
       cfElectionRTT = 10, cfHeartbeatRTT = 1, cfRTTMillisecond = 200\<rparr>\<rparr>"

text \<open>The flags given on the command line; parsing them writes those that are given.\<close>

record flags =
  flConfig :: "string option"
  flReplicaId :: "u64 option"
  flAddr :: "string option"
  flGaddr :: "string option"

definition flagOr :: "'a \<Rightarrow> 'a option \<Rightarrow> 'a" where
  "flagOr d f = (case f of None \<Rightarrow> d | Some v \<Rightarrow> v)"

definition parseFlags :: "flags \<Rightarrow> string \<times> Config \<Rightarrow> string \<times> Config" where
  "parseFlags fl = (\<lambda>(file, cnf).
    (flagOr file (flConfig fl),
     cnf\<lparr>cfReplicaId := flagOr (cfReplicaId cnf) (flReplicaId fl),
         cfAddress := flagOr (cfAddress cnf) (flAddr fl),
         cfGrpcAddress := flagOr (cfGrpcAddress cnf) (flGaddr fl)\<rparr>))"

text \<open>
  \<open>readFile\<close> and \<open>unmarshal\<close> stand for \<^verbatim>\<open>os.ReadFile\<close> and \<^verbatim>\<open>yaml.Unmarshal\<close>, which decodes into the
  configuration that is there already.
\<close>

definition LoadConfig ::
  "(string \<Rightarrow> gerror + string) \<Rightarrow> (string \<Rightarrow> Config \<Rightarrow> gerror + Config) \<Rightarrow> flags \<Rightarrow> gerror + Config" where
  "LoadConfig readFile unmarshal fl =
    (let (configFile, cnf) = parseFlags fl (defaultConfigFile, defaultConfig) in
     case readFile configFile of
       Inl err \<Rightarrow> Inl err
     | Inr rawConfig \<Rightarrow>
        (case unmarshal rawConfig cnf of
           Inl err \<Rightarrow> Inl err
         | Inr cnf' \<Rightarrow> Inr (snd (parseFlags fl (configFile, cnf')))))"

section \<open>Starting the server\<close>

text \<open>What \<^verbatim>\<open>main\<close> hands to Dragonboat and to the API.\<close>

record startPlan =
  spPrefix :: string
  spInitialMembers :: "u64 \<rightharpoonup> string"
  spJoin :: bool
  spNodeAddr :: string
  spReplicaID :: u64
  spShardID :: u64
  spApiShardId :: u64
  spGrpcAddr :: string
  spElectionRTT :: u64
  spHeartbeatRTT :: u64
  spCheckQuorum :: bool
  spSnapshotEntries :: u64
  spCompactionOverhead :: u64
  spWALDir :: string
  spNodeHostDir :: string
  spRTTMillisecond :: u64

text \<open>\<^verbatim>\<open>NewApi\<close> of \<^verbatim>\<open>api.go\<close> fixes the shard that the API talks to.\<close>

definition NewApi_shardId :: u64 where
  "NewApi_shardId = 128"

definition serverMain :: "Config \<Rightarrow> bool \<Rightarrow> startPlan outcome" where
  "serverMain cnf isFirstRun =
    (let isInitNode = IsInitNode cnf;
         joins = (isFirstRun \<and> \<not> isInitNode);
         initialMembers = (if isFirstRun \<and> \<not> joins then InitialNodeMap cnf else Map.empty);
         prefix = ''test-run/node-'' @ fmt_u64 (cfReplicaId cnf);
         datadir = RaftPath prefix
     in and_then (NodeAddress cnf) (\<lambda>nodeAddr.
       if nodeAddr = [] then Panic (ErrMsg ''unable to determine node address'')
       else if cfGrpcAddress cnf = [] then Panic (ErrMsg ''unable to determine grpc address'')
       else Done
        \<lparr>spPrefix = prefix, spInitialMembers = initialMembers,
         spJoin = joins, spNodeAddr = nodeAddr, spReplicaID = cfReplicaId cnf,
         spShardID = cfShardId (cfRaft cnf), spApiShardId = NewApi_shardId,
         spGrpcAddr = cfGrpcAddress cnf,
         spElectionRTT = cfElectionRTT (cfRaft cnf), spHeartbeatRTT = cfHeartbeatRTT (cfRaft cnf),
         spCheckQuorum = True, spSnapshotEntries = cfSnapshotEntries (cfRaft cnf),
         spCompactionOverhead = cfCompactionOverhead (cfRaft cnf), spWALDir = datadir, spNodeHostDir = datadir,
         spRTTMillisecond = cfRTTMillisecond (cfRaft cnf)\<rparr>))"

section \<open>Lemmas\<close>

lemma unat_of_nat_small: "n < 2 ^ 63 \<Longrightarrow> unat (of_nat n :: u64) = n"
  by (simp add: unat_of_nat take_bit_nat_eq_self)

lemma sint_small: "unat (w::u64) < 2 ^ 63 \<Longrightarrow> sint w = int (unat w)"
proof -
  assume "unat w < 2 ^ 63"
  then have "uint w < 2 ^ 63" by (simp add: nat_less_iff flip: nat_uint_eq)
  moreover have "- (2 ^ 63) \<le> uint w" by (rule order_trans [OF _ uint_ge_0]) simp
  ultimately show ?thesis by (simp add: sint_uint signed_take_bit_int_eq_self)
qed

lemma sint_pred:
  assumes "unat (w::u64) = Suc k" and "k < 2 ^ 63"
  shows "sint (w - 1) = int k"
proof -
  have "w \<noteq> 0" using assms(1) by auto
  then have "unat (w - 1) = k" using assms(1) by (simp add: unat_minus_one)
  with sint_small [of "w - 1"] assms(2) show ?thesis by simp
qed

lemma IsInitNode_iff:
  "length (cfInitialNodes s) < 2 ^ 63 \<Longrightarrow> IsInitNode s \<longleftrightarrow> unat (cfReplicaId s) \<le> length (cfInitialNodes s)"
  by (simp add: IsInitNode_def word_le_nat_alt unat_of_nat_small)

lemma nodeMapFrom_eq:
  assumes "idx + length hosts < 2 ^ 63"
  shows "nodeMapFrom idx hosts ret k =
    (if idx < unat k \<and> unat k \<le> idx + length hosts then Some (hosts ! (unat k - idx - 1)) else ret k)"
  using assms
proof (induction hosts arbitrary: idx ret)
  case Nil
  then show ?case by auto
next
  case (Cons host hosts)
  have k: "k = of_nat (idx + 1) \<longleftrightarrow> unat k = idx + 1"
  proof
    assume "k = of_nat (idx + 1)"
    moreover have "idx + 1 < 2 ^ 63" using Cons.prems by simp
    ultimately show "unat k = idx + 1" using unat_of_nat_small by blast
  next
    assume "unat k = idx + 1"
    then have "of_nat (unat k) = (of_nat (idx + 1) :: u64)" by (rule arg_cong)
    then show "k = of_nat (idx + 1)" by simp
  qed
  have "nodeMapFrom idx (host # hosts) ret k = nodeMapFrom (Suc idx) hosts (ret(of_nat (idx + 1) \<mapsto> host)) k"
    by simp
  also have "\<dots> = (if Suc idx < unat k \<and> unat k \<le> Suc idx + length hosts
      then Some (hosts ! (unat k - Suc idx - 1)) else (ret(of_nat (idx + 1) \<mapsto> host)) k)"
    using Cons.prems by (intro Cons.IH) simp
  also have "\<dots> = (if idx < unat k \<and> unat k \<le> idx + length (host # hosts)
      then Some ((host # hosts) ! (unat k - idx - 1)) else ret k)"
    using k by (cases "unat k = idx + 1") (auto simp: nth_Cons' simp del: of_nat_add of_nat_Suc)
  finally show ?case .
qed

lemma InitialNodeMap_eq:
  "length (cfInitialNodes s) < 2 ^ 63 \<Longrightarrow> InitialNodeMap s k =
    (if 0 < unat k \<and> unat k \<le> length (cfInitialNodes s) then Some (cfInitialNodes s ! (unat k - 1)) else None)"
  by (simp add: InitialNodeMap_def nodeMapFrom_eq)

lemma NodeAddress_listed:
  assumes "length (cfInitialNodes s) < 2 ^ 63" and "unat (cfReplicaId s) = Suc k"
    and "Suc k \<le> length (cfInitialNodes s)"
  shows "NodeAddress s = Done (cfInitialNodes s ! k)"
  using assms sint_pred [OF assms(2)] by (simp add: NodeAddress_def IsInitNode_iff Let_def)

lemma NodeAddress_other:
  assumes "length (cfInitialNodes s) < 2 ^ 63" and "length (cfInitialNodes s) < unat (cfReplicaId s)"
  shows "NodeAddress s = Done (cfAddress s)"
  using assms by (simp add: NodeAddress_def IsInitNode_iff)

lemma NodeAddress_member:
  assumes "length (cfInitialNodes s) < 2 ^ 63" and "IsInitNode s" and "NodeAddress s = Done addr"
  shows "InitialNodeMap s (cfReplicaId s) = Some addr"
proof (cases "unat (cfReplicaId s)")
  case 0
  then have "cfReplicaId s = 0" by (simp add: unat_eq_0)
  with assms(3) show ?thesis by (simp add: NodeAddress_def IsInitNode_def)
next
  case (Suc k)
  then have "Suc k \<le> length (cfInitialNodes s)" using assms(1,2) by (simp add: IsInitNode_iff)
  with Suc NodeAddress_listed [OF assms(1) Suc] assms(1,3) show ?thesis by (simp add: InitialNodeMap_eq)
qed

section \<open>Addresses\<close>

text \<open>C34: A node's address: a replica identifier from 1 to the number of initial nodes gets the
  address listed for it, which is also its entry in the map of initial members; a larger one gets the
  address of its own configuration; and the identifier 0, which is what a configuration without one
  has, panics with an index out of range.\<close>

theorem NodeAddress_cases:
  assumes "length (cfInitialNodes s) < 2 ^ 63"
  shows "NodeAddress s =
    (if cfReplicaId s = 0 then Panic IndexOutOfRange
     else case InitialNodeMap s (cfReplicaId s) of Some host \<Rightarrow> Done host | None \<Rightarrow> Done (cfAddress s))"
proof (cases "unat (cfReplicaId s)")
  case 0
  then have "cfReplicaId s = 0" by (simp add: unat_eq_0)
  then show ?thesis by (simp add: NodeAddress_def IsInitNode_def)
next
  case (Suc k)
  then have "cfReplicaId s \<noteq> 0" by auto
  with Suc assms show ?thesis
    by (cases "Suc k \<le> length (cfInitialNodes s)")
      (simp_all add: NodeAddress_listed NodeAddress_other InitialNodeMap_eq)
qed

definition exConfig :: "u64 \<Rightarrow> Config" where
  "exConfig r = defaultConfig\<lparr>cfReplicaId := r, cfInitialNodes := [''a:1'', ''b:1'']\<rparr>"

theorem NodeAddress_cases_witness:
  "NodeAddress (exConfig 2) = Done ''b:1'' \<and> NodeAddress (exConfig 0) = Panic IndexOutOfRange"
proof -
  have len: "length (cfInitialNodes (exConfig r)) < 2 ^ 63" for r by (simp add: exConfig_def)
  have "InitialNodeMap (exConfig 2) 2 = Some ''b:1''"
    by (simp add: InitialNodeMap_def exConfig_def)
  with NodeAddress_cases [OF len, of 2] NodeAddress_cases [OF len, of 0] show ?thesis
    by (simp add: exConfig_def)
qed

text \<open>Command line over file over defaults: \<open>LoadConfig\<close> reads the file that the command line
  names, the fields that the command line gives are in the result whatever the file says, and the
  others are what decoding the file into the defaults leaves.\<close>

lemma LoadConfig_precedence:
  assumes "LoadConfig readFile unmarshal fl = Inr cnf"
  shows "\<exists>raw cnf'. readFile (flagOr defaultConfigFile (flConfig fl)) = Inr raw \<and>
    unmarshal raw (snd (parseFlags fl (defaultConfigFile, defaultConfig))) = Inr cnf' \<and>
    cfReplicaId cnf = flagOr (cfReplicaId cnf') (flReplicaId fl) \<and>
    cfAddress cnf = flagOr (cfAddress cnf') (flAddr fl) \<and>
    cfGrpcAddress cnf = flagOr (cfGrpcAddress cnf') (flGaddr fl) \<and>
    cfInitialNodes cnf = cfInitialNodes cnf' \<and> cfRaft cnf = cfRaft cnf'"
  using assms by (auto simp: LoadConfig_def parseFlags_def split: sum.splits)

lemma LoadConfig_precedence_witness:
  "cfReplicaId (exConfig 2) = flagOr (cfReplicaId (exConfig 1)) (Some 2)"
proof -
  let ?fl = "\<lparr>flConfig = None, flReplicaId = Some 2, flAddr = None, flGaddr = None\<rparr>"
  have "LoadConfig (\<lambda>f. Inr f) (\<lambda>raw c. Inr (exConfig 1)) ?fl = Inr (exConfig 2)"
    by (simp add: LoadConfig_def parseFlags_def flagOr_def exConfig_def)
  from LoadConfig_precedence [OF this] show ?thesis by auto
qed

text \<open>The server starts in one of three ways and never in two at once: on its first run an
  initial node bootstraps with the map of initial members, in which its own address stands under its
  own identifier; on its first run any other node joins, with no members; and a restart does neither.
  The raft shard is the configured one, while the API always addresses shard 128.\<close>

lemma serverMain_modes:
  assumes "length (cfInitialNodes cnf) < 2 ^ 63" and "serverMain cnf first = Done plan"
  shows "(spJoin plan \<longleftrightarrow> first \<and> length (cfInitialNodes cnf) < unat (cfReplicaId cnf)) \<and>
    spInitialMembers plan = (if first \<and> \<not> spJoin plan then InitialNodeMap cnf else Map.empty) \<and>
    (if first \<and> \<not> spJoin plan then spInitialMembers plan (spReplicaID plan) = Some (spNodeAddr plan)
     else spInitialMembers plan = Map.empty) \<and>
    spNodeAddr plan \<noteq> [] \<and> spGrpcAddr plan \<noteq> [] \<and>
    spShardID plan = cfShardId (cfRaft cnf) \<and> spApiShardId plan = 128"
proof -
  obtain addr where addr: "NodeAddress cnf = Done addr" "addr \<noteq> []" "cfGrpcAddress cnf \<noteq> []"
    using assms(2) by (auto simp: serverMain_def Let_def outcome_eqs split: if_splits)
  then have plan: "plan = \<lparr>spPrefix = ''test-run/node-'' @ fmt_u64 (cfReplicaId cnf),
      spInitialMembers = (if first \<and> IsInitNode cnf then InitialNodeMap cnf else Map.empty),
      spJoin = (first \<and> \<not> IsInitNode cnf), spNodeAddr = addr, spReplicaID = cfReplicaId cnf,
      spShardID = cfShardId (cfRaft cnf), spApiShardId = 128, spGrpcAddr = cfGrpcAddress cnf,
         spElectionRTT = cfElectionRTT (cfRaft cnf), spHeartbeatRTT = cfHeartbeatRTT (cfRaft cnf),
         spCheckQuorum = True, spSnapshotEntries = cfSnapshotEntries (cfRaft cnf),
         spCompactionOverhead = cfCompactionOverhead (cfRaft cnf), spWALDir = RaftPath (''test-run/node-'' @ fmt_u64 (cfReplicaId cnf)), spNodeHostDir = RaftPath (''test-run/node-'' @ fmt_u64 (cfReplicaId cnf)),
         spRTTMillisecond = cfRTTMillisecond (cfRaft cnf)\<rparr>"
    using assms(2) by (auto simp: serverMain_def Let_def NewApi_shardId_def)
  with IsInitNode_iff [OF assms(1)] NodeAddress_member [OF assms(1) _ addr(1)] addr(2,3)
  show ?thesis by auto
qed

lemma serverMain_modes_witness:
  "\<exists>plan. serverMain (exConfig 1) True = Done plan \<and> \<not> spJoin plan \<and>
    spInitialMembers plan 1 = Some ''a:1'' \<and> spApiShardId plan = 128"
proof -
  have len: "length (cfInitialNodes (exConfig 1)) < 2 ^ 63" by (simp add: exConfig_def)
  have addr: "NodeAddress (exConfig 1) = Done ''a:1''"
    using NodeAddress_listed [OF len, of 0] by (simp add: exConfig_def)
  obtain plan where plan: "serverMain (exConfig 1) True = Done plan" "spReplicaID plan = 1" "spNodeAddr plan = ''a:1''"
    unfolding serverMain_def Let_def addr by (simp add: exConfig_def defaultConfig_def)
  have "unat (cfReplicaId (exConfig 1)) \<le> length (cfInitialNodes (exConfig 1))" by (simp add: exConfig_def)
  with serverMain_modes [OF len plan(1)] plan show ?thesis by auto
qed

end
