(* ===== verification/Startup.thy ===== *)
theory Startup
  imports Zipper Lifecycle Config
begin

text \<open>
  How a node starts on its file system: \<^verbatim>\<open>isFirstRun\<close> of \<^verbatim>\<open>server.go\<close>, the directories that
  \<^verbatim>\<open>NewByStateMachine\<close> makes, and the two together, as \<^verbatim>\<open>main\<close> and Dragonboat run them.
\<close>

section \<open>Operations\<close>

definition isFirstRun :: "string \<Rightarrow> fsys \<Rightarrow> bool" where
  "isFirstRun prefix fs \<longleftrightarrow> fs (DataPath prefix) = None"

definition makeDirOrPanic :: "fsys \<Rightarrow> string \<Rightarrow> fsys outcome" where
  "makeDirOrPanic fs dir = (case mkdirAll fs dir of Inl err \<Rightarrow> Panic err | Inr fs' \<Rightarrow> Done fs')"

definition NewByStateMachineAt :: "string \<Rightarrow> fsys \<Rightarrow> (('db, 'ix) ByStateMachine \<times> fsys) outcome" where
  "NewByStateMachineAt prefix fs =
    and_then (makeDirOrPanic fs (IndexPath prefix)) (\<lambda>fs1.
    and_then (makeDirOrPanic fs1 (BlockPath prefix)) (\<lambda>fs2.
    and_then (makeDirOrPanic fs2 (SnapshotPath prefix)) (\<lambda>fs3.
      Done (NewByStateMachine, fs3))))"

text \<open>\<^verbatim>\<open>StartOnDiskReplica\<close> calls the function it is given to make the state machine of the replica.\<close>

definition nodePrefix :: "Config \<Rightarrow> string" where
  "nodePrefix cnf = ''test-run/node-'' @ fmt_u64 (cfReplicaId cnf)"

definition startNode ::
  "Config \<Rightarrow> fsys \<Rightarrow> (startPlan \<times> ('db, 'ix) ByStateMachine \<times> fsys) outcome" where
  "startNode cnf fs =
    and_then (serverMain cnf (isFirstRun (nodePrefix cnf) fs)) (\<lambda>plan.
      map_outcome (\<lambda>(s, fs'). (plan, s, fs')) (NewByStateMachineAt (spPrefix plan) fs))"

text \<open>
  The whole of \<^verbatim>\<open>main\<close>. Making the node host, starting the replica and listening are calls of libraries
  with an error or none; the node host makes its own directories first, and the replica can fail before it has
  its state machine made (\<open>slCheckReplica\<close>) or after that. \<open>Api.Start\<close> ends the process with
  status 1 if it cannot listen, and serves otherwise.
\<close>

record 'nh server_libs =
  slNewNodeHost :: "startPlan \<Rightarrow> fsys \<Rightarrow> gerror + 'nh \<times> fsys"
  slCheckReplica :: "'nh \<Rightarrow> startPlan \<Rightarrow> gerror option"
  slStartReplica :: "'nh \<Rightarrow> startPlan \<Rightarrow> gerror option"
  slListen :: "string \<Rightarrow> gerror option"

datatype serverEnd = ServerExits nat | Serves u64 string

definition ApiStart :: "(string \<Rightarrow> gerror option) \<Rightarrow> u64 \<Rightarrow> string \<Rightarrow> serverEnd" where
  "ApiStart listen shardId address =
    (case listen address of Some err \<Rightarrow> ServerExits 1 | None \<Rightarrow> Serves shardId address)"

definition runServer ::
  "'nh server_libs \<Rightarrow> gerror + Config \<Rightarrow> fsys \<Rightarrow> (serverEnd \<times> fsys) outcome" where
  "runServer H loaded fs =
    (case loaded of
       Inl cfErr \<Rightarrow> Panic cfErr
     | Inr cnf \<Rightarrow>
        and_then (serverMain cnf (isFirstRun (nodePrefix cnf) fs)) (\<lambda>plan.
          case slNewNodeHost H plan fs of
            Inl err \<Rightarrow> Panic err
          | Inr (nh, fs1) \<Rightarrow>
             (case slCheckReplica H nh plan of
                Some err \<Rightarrow> Done (ServerExits 1, fs1)
              | None \<Rightarrow>
                  and_then (NewByStateMachineAt (spPrefix plan) fs1) (\<lambda>(s :: (unit, unit) ByStateMachine, fs2).
                    case slStartReplica H nh plan of
                      Some err \<Rightarrow> Done (ServerExits 1, fs2)
                    | None \<Rightarrow> Done (ApiStart (slListen H) (spApiShardId plan) (spGrpcAddr plan), fs2)))))"

section \<open>Well-formed file systems\<close>

text \<open>What is there lies in a directory.\<close>

definition wf_fs :: "fsys \<Rightarrow> bool" where
  "wf_fs fs \<longleftrightarrow> (\<forall>p q. fs p \<noteq> None \<longrightarrow> parent_dir p = Some q \<longrightarrow> fs q = Some FDir)"

lemma mkdirAll_makes:
  assumes "mkdirAll fs p = Inr fs'"
  shows "fs' p = Some FDir" and "fs q \<noteq> None \<Longrightarrow> fs' q = fs q" and "wf_fs fs \<Longrightarrow> wf_fs fs'"
proof -
  have "fs' p = Some FDir \<and> (\<forall>q. fs q \<noteq> None \<longrightarrow> fs' q = fs q) \<and> (wf_fs fs \<longrightarrow> wf_fs fs')"
    using assms
  proof (induction fs p arbitrary: fs' rule: mkdirAll.induct)
    case (1 fs p)
    show ?case
    proof (cases "fs p")
      case (Some n)
      with "1.prems" show ?thesis by (cases n) (simp_all add: mkdirAll.simps [of fs p])
    next
      case None
      show ?thesis
      proof (cases "parent_dir p")
        case top: None
        with None "1.prems" have fs': "fs' = fs(p \<mapsto> FDir)" by (simp add: mkdirAll.simps [of fs p])
        then show ?thesis using None top by (auto simp: wf_fs_def)
      next
        case up: (Some q)
        with None "1.prems" obtain fs1 where fs1: "mkdirAll fs q = Inr fs1" "fs' = fs1(p \<mapsto> FDir)"
          by (auto simp: mkdirAll.simps [of fs p] split: sum.splits)
        from "1.IH" [OF None up fs1(1)] have IH: "fs1 q = Some FDir"
          "\<forall>q. fs q \<noteq> None \<longrightarrow> fs1 q = fs q" "wf_fs fs \<longrightarrow> wf_fs fs1" by simp_all
        have "q \<noteq> p" using parent_dir_shorter [OF up] by auto
        with IH fs1(2) None up show ?thesis by (auto simp: wf_fs_def)
      qed
    qed
  qed
  then show "fs' p = Some FDir" "fs q \<noteq> None \<Longrightarrow> fs' q = fs q" "wf_fs fs \<Longrightarrow> wf_fs fs'" by blast+
qed

lemma mkdirAll_there: "fs p = Some FDir \<Longrightarrow> mkdirAll fs p = Inr fs"
  by (simp add: mkdirAll.simps [of fs p])

lemma NewByStateMachineAt_dirs:
  assumes "NewByStateMachineAt prefix fs = Done (s, fs')"
  shows "fs' (IndexPath prefix) = Some FDir" and "fs' (BlockPath prefix) = Some FDir"
    and "fs' (SnapshotPath prefix) = Some FDir" and "s = NewByStateMachine"
    and "wf_fs fs \<Longrightarrow> wf_fs fs'" and "fs q \<noteq> None \<Longrightarrow> fs' q = fs q"
proof -
  obtain fs1 fs2 where made: "mkdirAll fs (IndexPath prefix) = Inr fs1"
      "mkdirAll fs1 (BlockPath prefix) = Inr fs2" "mkdirAll fs2 (SnapshotPath prefix) = Inr fs'"
    and s: "s = NewByStateMachine"
    using assms
    by (auto simp: NewByStateMachineAt_def makeDirOrPanic_def outcome_eqs split: sum.splits)
  note m1 = mkdirAll_makes [OF made(1)] and m2 = mkdirAll_makes [OF made(2)] and m3 = mkdirAll_makes [OF made(3)]
  have "fs2 (IndexPath prefix) = Some FDir" using m1(1) m2(2) [of "IndexPath prefix"] by simp
  then show "fs' (IndexPath prefix) = Some FDir" using m3(2) [of "IndexPath prefix"] by simp
  show "fs' (BlockPath prefix) = Some FDir" using m2(1) m3(2) [of "BlockPath prefix"] by simp
  show "fs' (SnapshotPath prefix) = Some FDir" by (rule m3(1))
  show "s = NewByStateMachine" by (rule s)
  show "wf_fs fs \<Longrightarrow> wf_fs fs'" using m1(3) m2(3) m3(3) by blast
  show "fs' q = fs q" if "fs q \<noteq> None"
    using that m1(2) [of q] m2(2) [of q] m3(2) [of q] by simp
qed

lemma NewByStateMachineAt_there:
  assumes "fs (IndexPath prefix) = Some FDir" and "fs (BlockPath prefix) = Some FDir"
    and "fs (SnapshotPath prefix) = Some FDir"
  shows "NewByStateMachineAt prefix fs = Done (NewByStateMachine, fs)"
  using assms by (simp add: NewByStateMachineAt_def makeDirOrPanic_def mkdirAll_there)

section \<open>The directories of a node\<close>

lemma fmt_u64_plain: "slash \<notin> set (fmt_u64 w)"
  using show_nat_digits [of "unat w"] by (auto simp: fmt_u64_def list_all_iff is_digit_def slash_def)

text \<open>The data directory is where the directory of the indexes lies.\<close>

lemma node_data_parent: "parent_dir (IndexPath (nodePrefix cnf)) = Some (DataPath (nodePrefix cnf))"
proof -
  let ?w = "''node-'' @ fmt_u64 (cfReplicaId cnf)"
  have w: "plain_elem ?w" using fmt_u64_plain by (simp add: plain_elem_def slash_def)
  have prefix: "nodePrefix cnf = ''test-run'' @ slash # ?w" by (simp add: nodePrefix_def slash_def)
  have run: "below ''test-run'' = ''test-run/''" by (simp add: below_def slash_def Let_def)
  then have b: "below (nodePrefix cnf) = nodePrefix cnf @ [slash]"
    unfolding prefix using below_snoc [OF _ w, of "''test-run''"] by (simp add: slash_def)
  then have data: "DataPath (nodePrefix cnf) = nodePrefix cnf @ slash # ''data''"
    using Join_below [of "nodePrefix cnf" "''data''"] by (simp add: DataPath_def RootPath_def prefix)
  have "below (DataPath (nodePrefix cnf)) = DataPath (nodePrefix cnf) @ [slash]"
    unfolding data using below_snoc [of "nodePrefix cnf" "''data''"] b by (simp add: prefix)
  then have "IndexPath (nodePrefix cnf) = DataPath (nodePrefix cnf) @ slash # ''index''"
    using Join_below [of "DataPath (nodePrefix cnf)" "''index''"] by (simp add: IndexPath_def)
  then show ?thesis
    using parent_dir_slash [of "''index''" "DataPath (nodePrefix cnf)"] by (simp add: slash_def)
qed

lemma started_not_first:
  assumes "wf_fs fs" and "NewByStateMachineAt (nodePrefix cnf) fs = Done (s, fs')"
  shows "\<not> isFirstRun (nodePrefix cnf) fs'"
proof -
  have "wf_fs fs'" "fs' (IndexPath (nodePrefix cnf)) = Some FDir"
    using NewByStateMachineAt_dirs [OF assms(2)] assms(1) by blast+
  with node_data_parent [of cnf] show ?thesis by (auto simp: wf_fs_def isFirstRun_def)
qed

lemma serverMain_prefix: "serverMain cnf first = Done plan \<Longrightarrow> spPrefix plan = nodePrefix cnf"
  by (auto simp: serverMain_def nodePrefix_def outcome_eqs Let_def split: if_splits)

text \<open>A server that serves does so at the configured address, for shard 128, and its next start does not count as
  a first run.\<close>

lemma runServer_serves:
  assumes "\<And>plan fs nh fs1. slNewNodeHost H plan fs = Inr (nh, fs1) \<Longrightarrow> wf_fs fs \<Longrightarrow> wf_fs fs1"
    and "wf_fs fs" and "runServer H (Inr cnf) fs = Done (Serves shardId addr, fs')"
  shows "\<not> isFirstRun (nodePrefix cnf) fs'" and "shardId = 128 \<and> addr = cfGrpcAddress cnf"
proof -
  obtain plan where plan: "serverMain cnf (isFirstRun (nodePrefix cnf) fs) = Done plan"
    using assms(3) by (auto simp: runServer_def outcome_eqs)
  then obtain nh fs1 where nh: "slNewNodeHost H plan fs = Inr (nh, fs1)"
    using assms(3) by (cases "slNewNodeHost H plan fs") (auto simp: runServer_def)
  from assms(3) plan nh obtain s :: "(unit, unit) ByStateMachine" where
    made: "NewByStateMachineAt (spPrefix plan) fs1 = Done (s, fs')" and
    serves: "ApiStart (slListen H) (spApiShardId plan) (spGrpcAddr plan) = Serves shardId addr"
    by (auto simp: runServer_def outcome_eqs split: option.splits)
  show "\<not> isFirstRun (nodePrefix cnf) fs'"
    using started_not_first [OF assms(1) [OF nh assms(2)]] made serverMain_prefix [OF plan] by simp
  have "shardId = spApiShardId plan \<and> addr = spGrpcAddr plan"
    using serves by (auto simp: ApiStart_def split: option.splits)
  moreover have "spApiShardId plan = 128 \<and> spGrpcAddr plan = cfGrpcAddress cnf"
    using plan by (auto simp: serverMain_def NewApi_shardId_def outcome_eqs Let_def split: if_splits)
  ultimately show "shardId = 128 \<and> addr = cfGrpcAddress cnf" by simp
qed

text \<open>A restart does what the first start did, without members and without joining.\<close>

lemma serverMain_again:
  "serverMain cnf first = Done plan \<Longrightarrow>
    serverMain cnf False = Done (plan\<lparr>spInitialMembers := Map.empty, spJoin := False\<rparr>)"
  by (cases "NodeAddress cnf") (auto simp: serverMain_def Let_def split: if_splits)

text \<open>C35: Starting twice. A node that starts on a well-formed file system leaves its directories behind,
  and the file system well formed with everything that was there before; started again it finds the
  data directory, so it neither bootstraps nor joins, takes every other decision as before, and
  changes no file.\<close>

theorem second_start:
  assumes "wf_fs fs" and "startNode cnf fs = Done (plan, s, fs')"
  shows "wf_fs fs' \<and> (\<forall>p. fs p \<noteq> None \<longrightarrow> fs' p = fs p) \<and> \<not> isFirstRun (spPrefix plan) fs' \<and>
    startNode cnf fs' = Done (plan\<lparr>spInitialMembers := Map.empty, spJoin := False\<rparr>, s, fs')"
proof -
  obtain plan' where plan': "serverMain cnf (isFirstRun (nodePrefix cnf) fs) = Done plan'"
      "map_outcome (\<lambda>(s, fs'). (plan', s, fs')) (NewByStateMachineAt (spPrefix plan') fs) = Done (plan, s, fs')"
    using assms(2) unfolding startNode_def outcome_eqs by blast
  have prefix: "spPrefix plan' = nodePrefix cnf" by (rule serverMain_prefix [OF plan'(1)])
  with plan'(2) have same: "plan' = plan" and made: "NewByStateMachineAt (nodePrefix cnf) fs = Done (s, fs')"
    by (auto simp: outcome_eqs)
  note plan = plan'(1) [unfolded same] and prefix = prefix [unfolded same]
  note dirs = NewByStateMachineAt_dirs [OF made]
  have "\<not> isFirstRun (nodePrefix cnf) fs'" by (rule started_not_first [OF assms(1) made])
  moreover have "NewByStateMachineAt (nodePrefix cnf) fs' = Done (s, fs')"
    using NewByStateMachineAt_there [OF dirs(1-3)] dirs(4) by simp
  ultimately show ?thesis
    using dirs(5) [OF assms(1)] dirs(6) serverMain_again [OF plan] prefix by (simp add: startNode_def)
qed

lemma mkdirAll_empty:
  "\<forall>q. fs q \<noteq> None \<longrightarrow> fs q = Some FDir \<Longrightarrow>
    \<exists>fs'. mkdirAll fs p = Inr fs' \<and> (\<forall>q. fs' q \<noteq> None \<longrightarrow> fs' q = Some FDir)"
proof (induction fs p rule: mkdirAll.induct)
  case (1 fs p)
  show ?case
  proof (cases "fs p")
    case (Some n)
    with 1(2) have "fs p = Some FDir" by auto
    with 1(2) mkdirAll_there show ?thesis by blast
  next
    case None
    show ?thesis
    proof (cases "parent_dir p")
      case top: None
      with None have "mkdirAll fs p = Inr (fs(p \<mapsto> FDir))" by (simp add: mkdirAll.simps [of fs p])
      with 1(2) show ?thesis by simp
    next
      case up: (Some q)
      from 1(1) [OF None up 1(2)] obtain fs1 where "mkdirAll fs q = Inr fs1"
        "\<forall>q. fs1 q \<noteq> None \<longrightarrow> fs1 q = Some FDir" by blast
      moreover from this(1) None up have "mkdirAll fs p = Inr (fs1(p \<mapsto> FDir))"
        by (simp add: mkdirAll.simps [of fs p])
      ultimately show ?thesis by simp
    qed
  qed
qed

lemma ex_start_address: "NodeAddress (exConfig 1) = Done ''a:1''"
  using NodeAddress_listed [of "exConfig 1" 0] by (simp add: exConfig_def)

theorem second_start_witness:
  "\<exists>plan s fs' plan'. startNode (exConfig 1) Map.empty = Done (plan, s :: (nat, nat) ByStateMachine, fs') \<and>
    startNode (exConfig 1) fs' = Done (plan', s, fs') \<and> spInitialMembers plan' = Map.empty"
proof -
  obtain plan where plan: "serverMain (exConfig 1) True = Done plan"
    unfolding serverMain_def Let_def ex_start_address by (simp add: exConfig_def defaultConfig_def)
  obtain s fs' where made: "NewByStateMachineAt (nodePrefix (exConfig 1)) Map.empty =
      Done (s :: (nat, nat) ByStateMachine, fs')"
  proof -
    obtain fs1 where 1: "mkdirAll Map.empty (IndexPath (nodePrefix (exConfig 1))) = Inr fs1"
        "\<forall>q. fs1 q \<noteq> None \<longrightarrow> fs1 q = Some FDir" using mkdirAll_empty [of Map.empty "IndexPath (nodePrefix (exConfig 1))"] by auto
    obtain fs2 where 2: "mkdirAll fs1 (BlockPath (nodePrefix (exConfig 1))) = Inr fs2"
        "\<forall>q. fs2 q \<noteq> None \<longrightarrow> fs2 q = Some FDir" using mkdirAll_empty [OF 1(2)] by blast
    obtain fs3 where "mkdirAll fs2 (SnapshotPath (nodePrefix (exConfig 1))) = Inr fs3"
      using mkdirAll_empty [OF 2(2)] by blast
    with 1(1) 2(1) show thesis using that by (simp add: NewByStateMachineAt_def makeDirOrPanic_def)
  qed
  have first: "isFirstRun (nodePrefix (exConfig 1)) Map.empty" by (simp add: isFirstRun_def)
  have start: "startNode (exConfig 1) Map.empty = Done (plan, s, fs')"
    using plan made first serverMain_prefix [OF plan] by (simp add: startNode_def)
  have "wf_fs Map.empty" by (simp add: wf_fs_def)
  from second_start [OF this start] start show ?thesis by auto
qed

end
