(* ===== verification/Preseed.thy ===== *)
theory Preseed
  imports Flush
begin

text \<open>
  \<^verbatim>\<open>preseed.go\<close>, the load generator: the words it reads, the commands it builds, how a batch is cut
  among its workers, and what a whole session asks of the server.
\<close>

section \<open>Words\<close>

text \<open>\<open>shuffle\<close> is what \<^verbatim>\<open>rand.Shuffle\<close> does with the slice; the file is read whole.\<close>

definition newline :: char where
  "newline = CHR 0x0A"

definition loadWords :: "(string list \<Rightarrow> string list) \<Rightarrow> gerror + string \<Rightarrow> gerror + string list" where
  "loadWords shuffle file =
    (case file of
       Inl err \<Rightarrow> Inl err
     | Inr wordBytes \<Rightarrow> Inr (shuffle (split_char newline wordBytes)))"

text \<open>\<^verbatim>\<open>xs[0:n]\<close>; the slice that \<^verbatim>\<open>strings.Split\<close> returns has no spare capacity.\<close>

definition slice_to :: "int \<Rightarrow> 'a list \<Rightarrow> 'a list outcome" where
  "slice_to n xs = (if 0 \<le> n \<and> n \<le> int (length xs) then Done (take (nat n) xs) else Panic IndexOutOfRange)"

section \<open>Commands\<close>

definition seedDoc :: "i64 \<Rightarrow> string \<Rightarrow> string \<Rightarrow> string" where
  "seedDoc t part word =
    ''{ \"id\":\"'' @ word @ ''\", \"part\":\"'' @ part @ ''\", \"index\":{ \"text\":\"'' @ word @
    ''\" }, \"block\":{ \"hide\":\"me\" }, \"categories\":[ \"'' @ part @ ''='' @ word @
    ''\" ], \"updated\":'' @ fmt_i64 t @ '', \"created\":'' @ fmt_i64 t @ '' }''"

definition formatPost :: "i64 \<Rightarrow> string \<Rightarrow> string \<Rightarrow> string" where
  "formatPost createTime part word = ''POST '' @ seedDoc createTime part word"

definition formatGet :: "string \<Rightarrow> string \<Rightarrow> string" where
  "formatGet part word = ''GET '' @ part @ '' '' @ word"

definition formatPut :: "i64 \<Rightarrow> i64 \<Rightarrow> string \<Rightarrow> string \<Rightarrow> string" where
  "formatPut createTime updateTime part word =
    ''PUT '' @ fmt_i64 createTime @ '' '' @ seedDoc updateTime part word"

definition formatDel :: "i64 \<Rightarrow> string \<Rightarrow> string \<Rightarrow> string" where
  "formatDel updateTime part word = ''DEL '' @ part @ '' '' @ word @ '' '' @ fmt_i64 updateTime"

section \<open>Batches\<close>

record TestBatch =
  tbWorkers :: int
  tbPartitions :: "string list"
  tbWords :: "string list"
  tbFormatCommand :: "string \<Rightarrow> string \<Rightarrow> string"
  tbServers :: nat

text \<open>What a worker is given: the index of its server and its slice of the words.\<close>

fun handOut :: "nat \<Rightarrow> nat \<Rightarrow> nat \<Rightarrow> nat \<Rightarrow> string list \<Rightarrow> (nat \<times> string list) list" where
  "handOut servers wordsPerWorker i 0 wordBuf = []"
| "handOut servers wordsPerWorker i (Suc n) wordBuf =
    (i mod servers, take wordsPerWorker wordBuf) #
    handOut servers wordsPerWorker (Suc i) n (drop wordsPerWorker wordBuf)"

definition workerCommands :: "TestBatch \<Rightarrow> string list \<Rightarrow> string list" where
  "workerCommands b ws = concat (map (\<lambda>part. map (tbFormatCommand b part) ws) (tbPartitions b))"

text \<open>
  \<^verbatim>\<open>len(words) / nWorkers\<close> panics for no workers, and the channel that follows for a negative number
  of them; \<^verbatim>\<open>i % len(servers)\<close> panics if there is a worker and no server.
\<close>

definition RunJobs :: "TestBatch \<Rightarrow> (nat \<times> string list) list outcome" where
  "RunJobs b =
    (if tbWorkers b = 0 then Panic (ErrMsg ''integer divide by zero'')
     else if tbWorkers b < 0 then Panic (ErrMsg ''makechan: size out of range'')
     else if tbServers b = 0 then Panic (ErrMsg ''integer divide by zero'')
     else Done (map (\<lambda>(server, ws). (server, workerCommands b ws))
       (handOut (tbServers b) (length (tbWords b) div nat (tbWorkers b)) 0 (nat (tbWorkers b)) (tbWords b))))"

text \<open>The commands of a batch, worker by worker; the workers run side by side.\<close>

definition batchCommands :: "TestBatch \<Rightarrow> string list outcome" where
  "batchCommands b = map_outcome (\<lambda>js. concat (map snd js)) (RunJobs b)"

section \<open>A session\<close>

record seedFlags =
  sfPartitions :: int
  sfWords :: int
  sfWorkers :: int
  sfSkipDelete :: bool
  sfDeletePart :: bool

definition gaddresses :: "string list" where
  "gaddresses = [''localhost:64001'', ''localhost:64002'', ''localhost:64003'']"

text \<open>
  The phases of \<^verbatim>\<open>main\<close>, each with the commands it sends. A reply other than 200 ends the process,
  so what is described is a session in which every reply is 200.
\<close>

definition session :: "seedFlags \<Rightarrow> string list \<Rightarrow> i64 \<Rightarrow> i64 \<Rightarrow> string list list outcome" where
  "session fl allWords createTime updateTime =
    and_then (slice_to (sfWords fl) allWords) (\<lambda>words.
    and_then (slice_to (sfPartitions fl) allWords) (\<lambda>partitions.
      let batch = (\<lambda>fmt. batchCommands \<lparr>tbWorkers = sfWorkers fl, tbPartitions = partitions, tbWords = words,
            tbFormatCommand = fmt, tbServers = length gaddresses\<rparr>);
          creates = map (\<lambda>part. ''CREATE_PART '' @ part) partitions;
          drops = map (\<lambda>part. ''DELETE_PART '' @ part) partitions
      in and_then (batch (formatPost createTime)) (\<lambda>posts.
         and_then (batch formatGet) (\<lambda>gets.
         and_then (batch (formatPut createTime updateTime)) (\<lambda>puts.
         and_then (if \<not> sfSkipDelete fl \<and> \<not> sfDeletePart fl then batch (formatDel updateTime) else Done [])
           (\<lambda>dels.
           Done [creates, posts, gets, puts, dels, if sfSkipDelete fl then [] else drops]))))))"

text \<open>The words file ends in a newline, so the empty word is among the words, and it names no partition.\<close>

lemma split_char_ends: "split_char c (s @ [c]) = split_char c s @ [[]]"
  using split_char_append [of c s "[]"] by simp

lemma newline_gives_empty_word:
  assumes "set (shuffle (split_char newline (s @ [newline]))) = set (split_char newline (s @ [newline]))"
  shows "\<exists>ws. loadWords shuffle (Inr (s @ [newline])) = Inr ws \<and> [] \<in> set ws \<and>
    ParseCommand js (''CREATE_PART '' @ []) = Inl (ErrFormat ''CREATE_PART'')"
proof -
  have "[] \<in> set (split_char newline (s @ [newline]))" by (simp add: split_char_ends)
  moreover have "ParseCommand js (''CREATE_PART '' @ []) = Inl (ErrFormat ''CREATE_PART'')"
    unfolding parse_CREATE_PART by simp
  ultimately show ?thesis using assms by (simp add: loadWords_def)
qed

section \<open>The commands parse\<close>

text \<open>Time stamps from the epoch on.\<close>

lemma fmt_i64_pos:
  assumes "0 \<le> sint t"
  shows "number (fmt_i64 t)" and "fits_int64 (fmt_i64 t)" and "of_nat (dec_val 0 (fmt_i64 t)) = t"
proof -
  have fmt: "fmt_i64 t = show_nat (nat (sint t))" using assms by (simp add: fmt_i64_def)
  have lt: "sint t < 2 ^ 63" using sint_lt [of t] by simp
  show "number (fmt_i64 t)" by (simp add: fmt number_def show_nat_nonempty show_nat_digits)
  show "fits_int64 (fmt_i64 t)" using lt assms by (simp add: fmt fits_int64_def dec_val_show_nat nat_less_iff)
  have "of_nat (nat (sint t)) = (of_int (int (nat (sint t))) :: i64)" by (rule of_int_of_nat_eq [symmetric])
  also have "\<dots> = of_int (sint t)" using assms by simp
  also have "\<dots> = t" by simp
  finally show "of_nat (dec_val 0 (fmt_i64 t)) = t" by (simp only: fmt dec_val_show_nat)
qed

lemma no_newline:
  "token w \<Longrightarrow> list_all (in_class AnyButNewline) w" "number w \<Longrightarrow> list_all (in_class AnyButNewline) w"
  by (auto simp: token_def number_def list_all_iff is_space_def is_digit_def)

lemma seedDoc_braced:
  assumes "token part" and "token word" and "0 \<le> sint t"
  shows "braced (seedDoc t part word)"
  using no_newline(1) [OF assms(1)] no_newline(1) [OF assms(2)] no_newline(2) [OF fmt_i64_pos(1) [OF assms(3)]]
  by (simp add: braced_def seedDoc_def)

end
