(* ===== verification/Session.thy ===== *)
theory Session
  imports Preseed Example "HOL-Library.Multiset"
begin

text \<open>
  A session of the load generator against the contract of the database: every command it sends is
  answered 200, in whatever order its workers get their commands in.
\<close>

section \<open>Being served\<close>

definition serveOne :: "json_decoder \<Rightarrow> string \<Rightarrow> content \<Rightarrow> u64 \<times> content" where
  "serveOne js raw m =
    (case ParseCommand js raw of
       Inl err \<Rightarrow> (400, m)
     | Inr c \<Rightarrow>
        if alters (cmdType c) then (spec_code js c m, spec_effect js c m)
        else if cmdType c = GET then (rspCode (view_answer m c), m)
        else (405, m))"

text \<open>The process ends at the first reply that is not 200.\<close>

fun runSession :: "json_decoder \<Rightarrow> string list \<Rightarrow> content \<Rightarrow> content option" where
  "runSession js [] m = Some m"
| "runSession js (raw # raws) m =
    (case serveOne js raw m of (v, m') \<Rightarrow> if v = 200 then runSession js raws m' else None)"

lemma runSession_append:
  "runSession js (xs @ ys) m = Option.bind (runSession js xs m) (runSession js ys)"
  by (induction xs arbitrary: m) (simp_all split: prod.split)

section \<open>A content with the seeds in it\<close>

definition seeded :: "content \<Rightarrow> string set \<Rightarrow> (string \<times> string \<Rightarrow> string option) \<Rightarrow> content" where
  "seeded m P g p =
    (if p \<in> P then Some (\<lambda>k. if take (Suc (length p)) k = p @ '':'' then g (p, drop (Suc (length p)) k) else None)
     else m p)"

lemma key_split: "k = doc_key p w \<longleftrightarrow> take (Suc (length p)) k = p @ '':'' \<and> drop (Suc (length p)) k = w"
proof
  assume "take (Suc (length p)) k = p @ '':'' \<and> drop (Suc (length p)) k = w"
  then have "k = (p @ '':'') @ w" by (metis append_take_drop_id)
  then show "k = doc_key p w" by (simp add: doc_key_def)
qed (simp add: doc_key_def)

lemma seeded_part: "p \<in> P \<Longrightarrow> \<exists>b. seeded m P g p = Some b \<and> (\<forall>w. b (doc_key p w) = g (p, w))"
  by (auto simp: seeded_def doc_key_def)

lemma seeded_put:
  assumes "seeded m P g p = Some b" and "p \<in> P"
  shows "(seeded m P g)(p \<mapsto> b(doc_key p w := v)) = seeded m P (g((p, w) := v))"
proof
  fix q
  show "((seeded m P g)(p \<mapsto> b(doc_key p w := v))) q = seeded m P (g((p, w) := v)) q"
  proof (cases "q = p")
    case True
    have "b = (\<lambda>k. if take (Suc (length p)) k = p @ '':'' then g (p, drop (Suc (length p)) k) else None)"
      using assms by (simp add: seeded_def)
    with True assms(2) show ?thesis by (auto simp: seeded_def key_split fun_eq_iff)
  next
    case False
    then show ?thesis by (auto simp: seeded_def fun_eq_iff)
  qed
qed

lemma seeded_empty [simp]: "seeded m {} g = m"
  by (simp add: seeded_def fun_eq_iff)

section \<open>One command of each kind\<close>

definition decodes_seed :: "json_decoder \<Rightarrow> string set \<Rightarrow> i64 \<Rightarrow> bool" where
  "decodes_seed js ws t \<longleftrightarrow>
    (\<forall>part \<in> ws. \<forall>word \<in> ws. \<exists>d. js (seedDoc t part word) = Inr d \<and> docPart d = part \<and> docId d = word \<and>
      docUpdated d = t)"

lemma decodes_updated:
  assumes "decodes_seed js ws t" and "part \<in> ws" and "word \<in> ws"
  shows "stored_updated js (seedDoc t part word) = Some t"
proof -
  obtain d where "js (seedDoc t part word) = Inr d" "docUpdated d = t"
    using assms by (auto simp: decodes_seed_def)
  then show ?thesis by (simp add: stored_updated_def)
qed

lemma serve_create:
  assumes "token p" and "p \<notin> P" and "m p = None" and "\<forall>w. g (p, w) = None"
  shows "serveOne js (''CREATE_PART '' @ p) (seeded m P g) = (200, seeded m (insert p P) g)"
proof -
  have none: "seeded m P g p = None" using assms(2,3) by (simp add: seeded_def)
  then have code: "spec_code js (cmdCreate p) (seeded m P g) = 200"
    by (simp add: spec_code_def sees_def cmd_defs)
  have "(seeded m P g)(p \<mapsto> Map.empty) = seeded m (insert p P) g"
    using assms(4) by (auto simp: seeded_def fun_eq_iff)
  then have "spec_effect js (cmdCreate p) (seeded m P g) = seeded m (insert p P) g"
    using none code by (simp add: spec_effect_def apply_command_def cmd_defs)
  with code parse_Create [OF assms(1)] show ?thesis by (simp add: serveOne_def cmd_defs type_defs)
qed

lemma serve_drop:
  assumes "token p" and "p \<in> P" and "m p = None"
  shows "serveOne js (''DELETE_PART '' @ p) (seeded m P g) = (200, seeded m (P - {p}) g)"
proof -
  obtain b where b: "seeded m P g p = Some b" using seeded_part [OF assms(2)] by blast
  then have code: "spec_code js (cmdDrop p) (seeded m P g) = 200"
    by (simp add: spec_code_def sees_def cmd_defs)
  have "(seeded m P g)(p := None) = seeded m (P - {p}) g"
    using assms(3) by (auto simp: seeded_def fun_eq_iff)
  then have "spec_effect js (cmdDrop p) (seeded m P g) = seeded m (P - {p}) g"
    using b code by (simp add: spec_effect_def apply_command_def cmd_defs type_defs)
  with code parse_Drop [OF assms(1)] show ?thesis by (simp add: serveOne_def cmd_defs type_defs)
qed

text \<open>A command of a document, once it is parsed.\<close>

lemma serve_doc:
  assumes "ParseCommand js raw = Inr c" and "cmdType c \<in> {PUT, POST, DEL}" and "cmdPart c = part"
    and "cmdId c = word" and "part \<in> P"
    and "case g (part, word) of
        None \<Rightarrow> cmdType c = POST
      | Some v \<Rightarrow> cmdType c \<noteq> POST \<and> stored_updated js v = Some (cmdTs c)"
  shows "serveOne js raw (seeded m P g) =
    (200, seeded m P (g((part, word) := (if cmdType c = DEL then None else Some (cmdBytesDoc c)))))"
proof -
  obtain b where b: "seeded m P g part = Some b" "b (doc_key part word) = g (part, word)"
    using seeded_part [OF assms(5)] by blast
  have key: "FullId c = doc_key part word" using assms(3,4) by (simp add: FullId_doc_key)
  have code: "spec_code js c (seeded m P g) = 200"
    using assms(2,6) b key assms(3) by (auto simp: spec_code_def sees_def split: option.splits)
  have "spec_effect js c (seeded m P g) =
      seeded m P (g((part, word) := (if cmdType c = DEL then None else Some (cmdBytesDoc c))))"
    using assms(2,3) b(1) code key seeded_put [OF b(1) assms(5)]
    by (auto simp: spec_effect_def apply_command_def type_defs)
  with code assms(1,2) show ?thesis by (auto simp: serveOne_def type_defs)
qed

lemma serve_post:
  assumes "decodes_seed js ws t" and "part \<in> ws" and "word \<in> ws" and "token part" and "token word"
    and "0 \<le> sint t" and "part \<in> P" and "g (part, word) = None"
  shows "serveOne js (formatPost t part word) (seeded m P g) =
    (200, seeded m P (g((part, word) \<mapsto> seedDoc t part word)))"
proof -
  obtain d where d: "js (seedDoc t part word) = Inr d" "docPart d = part" "docId d = word"
    using assms(1-3) by (auto simp: decodes_seed_def)
  have "ParseCommand js (formatPost t part word) = Inr (cmdPost (seedDoc t part word) d)"
    using parse_Post [of "seedDoc t part word" js d] seedDoc_braced [OF assms(4-6)] d(1)
    by (simp add: formatPost_def)
  from serve_doc [OF this, of part word P g m] d(2,3) assms(7,8) show ?thesis by (simp add: cmd_defs)
qed

lemma serve_put:
  assumes "decodes_seed js ws t" and "decodes_seed js ws u" and "part \<in> ws" and "word \<in> ws"
    and "token part" and "token word" and "0 \<le> sint t" and "0 \<le> sint u" and "part \<in> P"
    and "g (part, word) = Some (seedDoc t part word)"
  shows "serveOne js (formatPut t u part word) (seeded m P g) =
    (200, seeded m P (g((part, word) \<mapsto> seedDoc u part word)))"
proof -
  obtain d where d: "js (seedDoc u part word) = Inr d" "docPart d = part" "docId d = word"
    using assms(2-4) by (auto simp: decodes_seed_def)
  have old: "stored_updated js (seedDoc t part word) = Some t"
    by (rule decodes_updated [OF assms(1,3,4)])
  let ?raw = "formatPut t u part word"
  have "ParseCommand js ?raw = Inr ((newCommand ?raw)\<lparr>cmdType := PUT, cmdStringDoc := seedDoc u part word,
      cmdBytesDoc := seedDoc u part word, cmdDoc := Some d, cmdPart := docPart d, cmdId := docId d,
      cmdTs := of_nat (dec_val 0 (fmt_i64 t))\<rparr>)"
    using fmt_i64_pos [OF assms(7)] seedDoc_braced [OF assms(5,6,8)] d(1)
    by (intro wire_parses wire.put) (simp_all add: formatPut_def)
  from serve_doc [OF this, of part word P g m] d(2,3) assms(9,10) old fmt_i64_pos(3) [OF assms(7)]
  show ?thesis by (simp add: newCommand_def)
qed

lemma serve_del:
  assumes "decodes_seed js ws u" and "part \<in> ws" and "word \<in> ws" and "token part" and "token word"
    and "0 \<le> sint u" and "part \<in> P" and "g (part, word) = Some (seedDoc u part word)"
  shows "serveOne js (formatDel u part word) (seeded m P g) = (200, seeded m P (g((part, word) := None)))"
proof -
  have old: "stored_updated js (seedDoc u part word) = Some u"
    by (rule decodes_updated [OF assms(1-3)])
  let ?raw = "formatDel u part word"
  have "ParseCommand js ?raw = Inr ((newCommand ?raw)\<lparr>cmdType := DEL, cmdPart := part, cmdId := word,
      cmdTs := of_nat (dec_val 0 (fmt_i64 u))\<rparr>)"
    using fmt_i64_pos [OF assms(6)] assms(4,5)
    by (intro wire_parses wire.del) (simp_all add: formatDel_def)
  from serve_doc [OF this, of part word P g m] assms(7,8) old fmt_i64_pos(3) [OF assms(6)]
  show ?thesis by (simp add: newCommand_def)
qed

lemma serve_get:
  assumes "token part" and "token word" and "part \<in> P" and "g (part, word) = Some v"
  shows "serveOne js (formatGet part word) (seeded m P g) = (200, seeded m P (g((part, word) \<mapsto> v)))"
proof -
  obtain b where b: "seeded m P g part = Some b" "b (doc_key part word) = Some v"
    using seeded_part [OF assms(3)] assms(4) by metis
  have "ParseCommand js (formatGet part word) = Inr (cmdGet part word)"
    using parse_Get [OF assms(1,2), of js] by (simp add: formatGet_def)
  moreover have "view_answer (seeded m P g) (cmdGet part word) = Success v"
    using b by (simp add: view_answer_def sees_def FullId_doc_key cmd_defs)
  moreover have "g((part, word) \<mapsto> v) = g" using assms(4) by auto
  ultimately show ?thesis by (simp add: serveOne_def cmd_defs type_defs)
qed

section \<open>A phase\<close>

text \<open>Commands of different documents, each of which finds its document as it should be.\<close>

lemma run_phase:
  assumes "distinct xs" and "\<forall>x \<in> set xs. g x = pre x"
    and "\<And>x h. x \<in> set xs \<Longrightarrow> h x = pre x \<Longrightarrow>
      serveOne js (fmt x) (seeded m P h) = (200, seeded m P (h(x := post x)))"
  shows "runSession js (map fmt xs) (seeded m P g) =
    Some (seeded m P (\<lambda>x. if x \<in> set xs then post x else g x))"
  using assms
proof (induction xs arbitrary: g)
  case Nil
  then show ?case by simp
next
  case (Cons x xs)
  have "\<forall>y \<in> set xs. (g(x := post x)) y = pre y" using Cons.prems(1,2) by auto
  then have "runSession js (map fmt xs) (seeded m P (g(x := post x))) =
      Some (seeded m P (\<lambda>y. if y \<in> set xs then post y else (g(x := post x)) y))"
    using Cons.prems(1,3) by (intro Cons.IH) simp_all
  moreover have "serveOne js (fmt x) (seeded m P g) = (200, seeded m P (g(x := post x)))"
    by (rule Cons.prems(3)) (use Cons.prems(2) in simp_all)
  moreover have "(\<lambda>y. if y \<in> set xs then post y else (g(x := post x)) y) =
      (\<lambda>y. if y \<in> set (x # xs) then post y else g y)"
    using Cons.prems(1) by (auto simp: fun_eq_iff)
  ultimately show ?case by simp
qed

lemma run_creates:
  assumes "distinct ps" and "\<forall>p \<in> set ps. token p \<and> p \<notin> P \<and> m p = None"
  shows "runSession js (map (\<lambda>p. ''CREATE_PART '' @ p) ps) (seeded m P Map.empty) =
    Some (seeded m (P \<union> set ps) Map.empty)"
  using assms
proof (induction ps arbitrary: P)
  case Nil
  then show ?case by simp
next
  case (Cons p ps)
  from Cons.IH [of "insert p P"] Cons.prems serve_create [of p P m Map.empty js] show ?case by auto
qed

lemma run_drops:
  assumes "distinct ps" and "\<forall>p \<in> set ps. token p \<and> p \<in> P \<and> m p = None"
  shows "runSession js (map (\<lambda>p. ''DELETE_PART '' @ p) ps) (seeded m P g) = Some (seeded m (P - set ps) g)"
  using assms
proof (induction ps arbitrary: P)
  case Nil
  then show ?case by simp
next
  case (Cons p ps)
  have "P - insert p (set ps) = P - {p} - set ps" by auto
  with Cons.IH [of "P - {p}"] Cons.prems serve_drop [of p P m js g] show ?case by auto
qed

section \<open>The documents of a batch\<close>

lemma handOut_words: "concat (map snd (handOut sv k i n ws)) = take (n * k) ws"
  by (induction n arbitrary: i ws) (simp_all add: take_add)

lemma workerCommands_product:
  "workerCommands b ws = map (\<lambda>(p, w). tbFormatCommand b p w) (List.product (tbPartitions b) ws)"
  by (simp add: workerCommands_def product_concat_map map_concat comp_def)

lemma distinct_products:
  "distinct ps \<Longrightarrow> distinct (concat wss) \<Longrightarrow> distinct (concat (map (List.product ps) wss))"
  by (induction wss) (auto simp: distinct_product)

text \<open>The documents are the same for every batch over the same words, and none is met twice.\<close>

definition batchDocs :: "int \<Rightarrow> nat \<Rightarrow> string list \<Rightarrow> string list \<Rightarrow> (string \<times> string) list" where
  "batchDocs workers sv parts ws = concat (map (List.product parts)
    (map snd (handOut sv (length ws div nat workers) 0 (nat workers) ws)))"

lemma batchCommands_docs:
  assumes "batchCommands b = Done cmds"
  shows "cmds = map (\<lambda>(p, w). tbFormatCommand b p w)
    (batchDocs (tbWorkers b) (tbServers b) (tbPartitions b) (tbWords b))"
proof -
  have "cmds = concat (map (workerCommands b)
      (map snd (handOut (tbServers b) (length (tbWords b) div nat (tbWorkers b)) 0 (nat (tbWorkers b)) (tbWords b))))"
    using assms by (auto simp: batchCommands_def RunJobs_def comp_def split_beta split: if_splits)
  then show ?thesis by (simp add: batchDocs_def workerCommands_product map_concat comp_def)
qed

lemma batchDocs_ok:
  assumes "distinct parts" and "distinct ws"
  shows "distinct (batchDocs n sv parts ws)" and "set (batchDocs n sv parts ws) \<subseteq> set parts \<times> set ws"
proof -
  let ?hs = "map snd (handOut sv (length ws div nat n) 0 (nat n) ws)"
  have words: "concat ?hs = take (nat n * (length ws div nat n)) ws" by (rule handOut_words)
  then show "distinct (batchDocs n sv parts ws)"
    unfolding batchDocs_def using assms by (intro distinct_products) auto
  have "set (concat ?hs) \<subseteq> set ws" unfolding words by (rule set_take_subset)
  then show "set (batchDocs n sv parts ws) \<subseteq> set parts \<times> set ws"
    by (auto simp: batchDocs_def)
qed

lemma mset_map_split:
  "mset ys = mset (map f xs) \<Longrightarrow> \<exists>zs. ys = map f zs \<and> mset zs = mset xs"
proof (induction ys arbitrary: xs)
  case Nil
  then show ?case by simp
next
  case (Cons y ys)
  then have "y \<in># mset (map f xs)" by (metis list.set_intros(1) set_mset_mset)
  then obtain x where x: "x \<in> set xs" "y = f x" by auto
  then have "image_mset f (mset xs) = add_mset (f x) (mset ys)" using Cons.prems by simp
  with x(1) have "mset ys = mset (map f (remove1 x xs))" by (simp add: image_mset_Diff)
  from Cons.IH [OF this] obtain zs where "ys = map f zs" "mset zs = mset (remove1 x xs)" by blast
  with x show ?case by (intro exI [of _ "x # zs"]) simp
qed

lemma mset_map_seeds:
  assumes "mset ys = mset (map f xs)" and "distinct xs"
  obtains zs where "ys = map f zs" and "distinct zs" and "set zs = set xs"
  using mset_map_split [OF assms(1)] assms(2) mset_eq_imp_distinct_iff mset_eq_setD by metis

section \<open>The whole session\<close>

text \<open>The documents of \<open>D\<close>, all with the same time stamp.\<close>

definition seeds_at :: "i64 \<Rightarrow> (string \<times> string) set \<Rightarrow> string \<times> string \<Rightarrow> string option" where
  "seeds_at t D x = (if x \<in> D then Some (seedDoc t (fst x) (snd x)) else None)"

text \<open>What the words have to be, and the decoder.\<close>

definition seed_words :: "json_decoder \<Rightarrow> string set \<Rightarrow> i64 \<Rightarrow> i64 \<Rightarrow> bool" where
  "seed_words js ws t u \<longleftrightarrow> (\<forall>w \<in> ws. token w) \<and> decodes_seed js ws t \<and> decodes_seed js ws u \<and>
    0 \<le> sint t \<and> 0 \<le> sint u"

lemma run_seeds:
  assumes "seed_words js ws t u" and "distinct xs" and "set xs \<subseteq> P \<times> ws" and "P \<subseteq> ws"
  shows "runSession js (map (\<lambda>(p, w). formatPost t p w) xs) (seeded m P Map.empty) =
      Some (seeded m P (seeds_at t (set xs)))" (is ?post)
    and "runSession js (map (\<lambda>(p, w). formatGet p w) xs) (seeded m P (seeds_at t (set xs))) =
      Some (seeded m P (seeds_at t (set xs)))" (is ?get)
    and "runSession js (map (\<lambda>(p, w). formatPut t u p w) xs) (seeded m P (seeds_at t (set xs))) =
      Some (seeded m P (seeds_at u (set xs)))" (is ?put)
    and "runSession js (map (\<lambda>(p, w). formatDel u p w) xs) (seeded m P (seeds_at u (set xs))) =
      Some (seeded m P Map.empty)" (is ?del)
proof -
  have each: "token p \<and> token w \<and> p \<in> P \<and> p \<in> ws \<and> w \<in> ws" if "(p, w) \<in> set xs" for p w
    using that assms(1,3,4) by (auto simp: seed_words_def)
  note dec = assms(1) [unfolded seed_words_def]
  let ?D = "set xs"
  have "runSession js (map (\<lambda>(p, w). formatPost t p w) xs) (seeded m P Map.empty) =
      Some (seeded m P (\<lambda>x. if x \<in> ?D then (\<lambda>(p, w). Some (seedDoc t p w)) x else Map.empty x))"
    using each dec serve_post by (intro run_phase [OF assms(2)]) auto
  moreover have "(\<lambda>x. if x \<in> ?D then (\<lambda>(p, w). Some (seedDoc t p w)) x else Map.empty x) = seeds_at t ?D"
    by (auto simp: seeds_at_def fun_eq_iff)
  ultimately show ?post by simp
  have "runSession js (map (\<lambda>(p, w). formatGet p w) xs) (seeded m P (seeds_at t ?D)) =
      Some (seeded m P (\<lambda>x. if x \<in> ?D then (\<lambda>(p, w). Some (seedDoc t p w)) x else seeds_at t ?D x))"
    using each serve_get
    by (intro run_phase [OF assms(2), where pre = "\<lambda>(p, w). Some (seedDoc t p w)"])
      (auto simp: seeds_at_def)
  moreover have "(\<lambda>x. if x \<in> ?D then (\<lambda>(p, w). Some (seedDoc t p w)) x else seeds_at t ?D x) = seeds_at t ?D"
    by (auto simp: seeds_at_def fun_eq_iff)
  ultimately show ?get by simp
  have "runSession js (map (\<lambda>(p, w). formatPut t u p w) xs) (seeded m P (seeds_at t ?D)) =
      Some (seeded m P (\<lambda>x. if x \<in> ?D then (\<lambda>(p, w). Some (seedDoc u p w)) x else seeds_at t ?D x))"
    using each dec serve_put
    by (intro run_phase [OF assms(2), where pre = "\<lambda>(p, w). Some (seedDoc t p w)"])
      (auto simp: seeds_at_def)
  moreover have "(\<lambda>x. if x \<in> ?D then (\<lambda>(p, w). Some (seedDoc u p w)) x else seeds_at t ?D x) = seeds_at u ?D"
    by (auto simp: seeds_at_def fun_eq_iff)
  ultimately show ?put by simp
  have "runSession js (map (\<lambda>(p, w). formatDel u p w) xs) (seeded m P (seeds_at u ?D)) =
      Some (seeded m P (\<lambda>x. if x \<in> ?D then (\<lambda>(p, w). None) x else seeds_at u ?D x))"
    using each dec serve_del
    by (intro run_phase [OF assms(2), where pre = "\<lambda>(p, w). Some (seedDoc u p w)"])
      (auto simp: seeds_at_def)
  moreover have "(\<lambda>x. if x \<in> ?D then (\<lambda>(p, w). None) x else seeds_at u ?D x) = Map.empty"
    by (auto simp: seeds_at_def fun_eq_iff)
  ultimately show ?del by simp
qed

text \<open>A session over words that are all as they have to be.\<close>

lemma session_served:
  assumes "session fl allWords createTime updateTime = Done phases"
    and "distinct allWords" and "\<forall>w \<in> set allWords. m w = None"
    and "seed_words js (set allWords) createTime updateTime"
    and "list_all2 (\<lambda>xs ys. mset ys = mset xs) phases sent"
  shows "\<exists>m'. runSession js (concat sent) m = Some m' \<and> (\<not> sfSkipDelete fl \<longrightarrow> m' = m)"
proof -
  obtain words parts where slices: "slice_to (sfWords fl) allWords = Done words"
      "slice_to (sfPartitions fl) allWords = Done parts"
    using assms(1) by (auto simp: session_def outcome_eqs)
  then have sub: "set words \<subseteq> set allWords" "set parts \<subseteq> set allWords" "distinct words" "distinct parts"
    using assms(2) by (auto simp: slice_to_def dest: in_set_takeD split: if_splits)
  define docs where "docs = batchDocs (sfWorkers fl) (length gaddresses) parts words"
  let ?b = "\<lambda>fmt. \<lparr>tbWorkers = sfWorkers fl, tbPartitions = parts, tbWords = words,
      tbFormatCommand = fmt, tbServers = length gaddresses\<rparr>"
  have cmds: "cmds = map (\<lambda>(p, w). fmt p w) docs" if "batchCommands (?b fmt) = Done cmds" for fmt cmds
    using batchCommands_docs [OF that] by (simp add: docs_def)
  have docs: "distinct docs" "set docs \<subseteq> set parts \<times> set words"
    unfolding docs_def using batchDocs_ok [OF sub(4,3)] by blast+
  let ?dels = "if \<not> sfSkipDelete fl \<and> \<not> sfDeletePart fl
      then map (\<lambda>(p, w). formatDel updateTime p w) docs else []"
  let ?drops = "if sfSkipDelete fl then [] else map (\<lambda>part. ''DELETE_PART '' @ part) parts"
  have phases: "phases = [map (\<lambda>part. ''CREATE_PART '' @ part) parts,
      map (\<lambda>(p, w). formatPost createTime p w) docs, map (\<lambda>(p, w). formatGet p w) docs,
      map (\<lambda>(p, w). formatPut createTime updateTime p w) docs, ?dels, ?drops]"
    using assms(1) slices cmds by (auto simp: session_def outcome_eqs Let_def split: if_splits)
  obtain s1 s2 s3 s4 s5 s6 where sent: "sent = [s1, s2, s3, s4, s5, s6]"
    and perm: "mset s1 = mset (map (\<lambda>part. ''CREATE_PART '' @ part) parts)"
      "mset s2 = mset (map (\<lambda>(p, w). formatPost createTime p w) docs)"
      "mset s3 = mset (map (\<lambda>(p, w). formatGet p w) docs)"
      "mset s4 = mset (map (\<lambda>(p, w). formatPut createTime updateTime p w) docs)"
      "mset s5 = mset ?dels" "mset s6 = mset ?drops"
    using assms(5) unfolding phases list_all2_Cons1 list_all2_Nil by blast
  let ?P = "set parts" and ?D = "set docs" and ?ws = "set allWords"
  note run = run_seeds [OF assms(4) _ _ sub(2), of _ m]
  obtain c where c: "s1 = map (\<lambda>part. ''CREATE_PART '' @ part) c" "distinct c" "set c = ?P"
    by (rule mset_map_seeds [OF perm(1) sub(4)])
  have within: "?D \<subseteq> ?P \<times> ?ws" using docs(2) sub(1) by auto
  have r1: "runSession js s1 m = Some (seeded m ?P Map.empty)"
    using run_creates [OF c(2), of "{}" m js] c(1,3) assms(3,4) sub(2) by (auto simp: seed_words_def)
  obtain d2 where "s2 = map (\<lambda>(p, w). formatPost createTime p w) d2" "distinct d2" "set d2 = ?D"
    by (rule mset_map_seeds [OF perm(2) docs(1)])
  then have r2: "runSession js s2 (seeded m ?P Map.empty) = Some (seeded m ?P (seeds_at createTime ?D))"
    using run(1) [of d2] within by simp
  obtain d3 where "s3 = map (\<lambda>(p, w). formatGet p w) d3" "distinct d3" "set d3 = ?D"
    by (rule mset_map_seeds [OF perm(3) docs(1)])
  then have r3: "runSession js s3 (seeded m ?P (seeds_at createTime ?D)) = Some (seeded m ?P (seeds_at createTime ?D))"
    using run(2) [of d3] within by simp
  obtain d4 where "s4 = map (\<lambda>(p, w). formatPut createTime updateTime p w) d4" "distinct d4" "set d4 = ?D"
    by (rule mset_map_seeds [OF perm(4) docs(1)])
  then have r4: "runSession js s4 (seeded m ?P (seeds_at createTime ?D)) = Some (seeded m ?P (seeds_at updateTime ?D))"
    using run(3) [of d4] within by simp
  have r5: "\<exists>g. runSession js s5 (seeded m ?P (seeds_at updateTime ?D)) = Some (seeded m ?P g)"
  proof (cases "\<not> sfSkipDelete fl \<and> \<not> sfDeletePart fl")
    case True
    with perm(5) have "mset s5 = mset (map (\<lambda>(p, w). formatDel updateTime p w) docs)" by simp
    then obtain d5 where "s5 = map (\<lambda>(p, w). formatDel updateTime p w) d5" "distinct d5" "set d5 = ?D"
      by (rule mset_map_seeds [OF _ docs(1)])
    then show ?thesis using run(4) [of d5] within by auto
  next
    case False
    with perm(5) have "s5 = []" by auto
    then show ?thesis by auto
  qed
  then obtain g where g: "runSession js s5 (seeded m ?P (seeds_at updateTime ?D)) = Some (seeded m ?P g)" ..
  have r6: "\<exists>m'. runSession js s6 (seeded m ?P g) = Some m' \<and> (\<not> sfSkipDelete fl \<longrightarrow> m' = m)"
  proof (cases "sfSkipDelete fl")
    case True
    with perm(6) show ?thesis by simp
  next
    case False
    have "mset s6 = mset (map (\<lambda>part. ''DELETE_PART '' @ part) parts)"
      using perm(6) by (simp only: False if_False)
    then obtain e where e: "s6 = map (\<lambda>part. ''DELETE_PART '' @ part) e" "distinct e" "set e = ?P"
      by (rule mset_map_seeds [OF _ sub(4)])
    have "\<forall>p \<in> set e. token p \<and> p \<in> ?P \<and> m p = None"
      using e(3) assms(3,4) sub(2) by (auto simp: seed_words_def)
    from run_drops [OF e(2) this, of js g] have "runSession js s6 (seeded m ?P g) = Some m"
      by (simp only: e(1,3) Diff_cancel seeded_empty)
    then show ?thesis by blast
  qed
  with r1 r2 r3 r4 g show ?thesis by (simp add: sent runSession_append)
qed

text \<open>A session reads the picked words only.\<close>

definition picked :: "seedFlags \<Rightarrow> string list \<Rightarrow> string list" where
  "picked fl allWords = take (max (nat (sfWords fl)) (nat (sfPartitions fl))) allWords"

lemma slice_to_take:
  "slice_to k xs = Done ys \<Longrightarrow> nat k \<le> n \<Longrightarrow> slice_to k (take n xs) = Done ys"
  by (auto simp: slice_to_def min_def split: if_splits)

lemma session_picked:
  assumes "session fl allWords createTime updateTime = Done phases"
  shows "session fl (picked fl allWords) createTime updateTime = Done phases"
proof -
  obtain words parts where "slice_to (sfWords fl) allWords = Done words"
      "slice_to (sfPartitions fl) allWords = Done parts"
    using assms by (auto simp: session_def outcome_eqs)
  then have "slice_to (sfWords fl) (picked fl allWords) = slice_to (sfWords fl) allWords"
      "slice_to (sfPartitions fl) (picked fl allWords) = slice_to (sfPartitions fl) allWords"
    by (simp_all add: picked_def slice_to_take)
  then show ?thesis using assms by (simp add: session_def)
qed

text \<open>C31: The load generator is served. Say that of the words of the file the ones that the session picks
  are distinct, free of white space and not empty, that none of them is the name of a partition yet, that
  the JSON decoder reads the documents built from them as they were meant, and that the clock is not before
  1970. Then every command of a session is answered 200 by the contract of the database, however the
  workers' commands interleave within a phase; and a session that cleans up leaves the content as it
  found it. The words that are not picked may be any: among them the empty one that a file with a newline
  at its end yields (\<open>newline_gives_empty_word\<close>).\<close>

theorem session_accepted:
  assumes "session fl allWords createTime updateTime = Done phases"
    and "distinct (picked fl allWords)" and "\<forall>w \<in> set (picked fl allWords). m w = None"
    and "seed_words js (set (picked fl allWords)) createTime updateTime"
    and "list_all2 (\<lambda>xs ys. mset ys = mset xs) phases sent"
  shows "\<exists>m'. runSession js (concat sent) m = Some m' \<and> (\<not> sfSkipDelete fl \<longrightarrow> m' = m)"
  by (rule session_served [OF session_picked [OF assms(1)] assms(2-5)])

definition exSeedDecode :: json_decoder where
  "exSeedDecode raw =
    (if raw = seedDoc 1 ''a'' ''a'' then Inr (exDoc ''a'' ''a'' 1)
     else if raw = seedDoc 2 ''a'' ''a'' then Inr (exDoc ''a'' ''a'' 2)
     else Inl ErrSyntax)"

lemma ex_seed_times: "fmt_i64 1 = ''1''" "fmt_i64 2 = ''2''"
  by (simp_all add: fmt_i64_def show_nat.simps digit_char_def char_of_def bit_0 bit_simps)

lemma ex_seed_words: "seed_words exSeedDecode {''a''} 1 2"
proof -
  have "seedDoc 1 ''a'' ''a'' \<noteq> seedDoc 2 ''a'' ''a''" by (simp add: seedDoc_def ex_seed_times)
  then show ?thesis by (simp add: seed_words_def decodes_seed_def exSeedDecode_def exDoc_def)
qed

text \<open>The words of a file that reads \<^verbatim>\<open>a\<close> and a newline: the empty one is not picked.\<close>

theorem session_accepted_witness:
  "\<exists>allWords phases. loadWords (\<lambda>ws. ws) (Inr [CHR ''a'', newline]) = Inr allWords \<and> [] \<in> set allWords \<and>
    session \<lparr>sfPartitions = 1, sfWords = 1, sfWorkers = 1, sfSkipDelete = False, sfDeletePart = False\<rparr>
      allWords 1 2 = Done phases \<and> length (concat phases) = 6 \<and>
    runSession exSeedDecode (concat phases) Map.empty = Some Map.empty"
proof -
  let ?fl = "\<lparr>sfPartitions = 1, sfWords = 1, sfWorkers = 1, sfSkipDelete = False, sfDeletePart = False\<rparr>"
  let ?all = "[''a'', []]"
  have load: "loadWords (\<lambda>ws. ws) (Inr [CHR ''a'', newline]) = Inr ?all"
    by (simp add: loadWords_def newline_def)
  obtain phases where phases: "session ?fl ?all 1 2 = Done phases" "length (concat phases) = 6"
    by (simp add: session_def slice_to_def batchCommands_def RunJobs_def workerCommands_def gaddresses_def Let_def)
  have pick: "picked ?fl ?all = [''a'']" by (simp add: picked_def)
  have "list_all2 (\<lambda>xs ys. mset ys = mset xs) phases phases" by (simp add: list.rel_refl)
  from session_accepted [OF phases(1) _ _ _ this, of Map.empty exSeedDecode] ex_seed_words phases load
  show ?thesis unfolding pick by (intro exI [of _ ?all] exI [of _ phases]) auto
qed

end
