(* ===== verification/Workers.thy ===== *)
theory Workers
  imports Preseed Api
begin

text \<open>
  How a batch of \<^verbatim>\<open>preseed.go\<close> runs (\<^verbatim>\<open>TestBatch.Run\<close>): workers that send their commands one after the
  other and wait for each reply, put their shortest and longest reply into the result they share, and
  report on a channel that the caller reads. They share the result without a lock, each by comparing
  first and assigning then, so the steps of one may fall between the steps of another. The servers are a
  parameter: a call takes their state to another one and returns a reply or an error.
\<close>

section \<open>The batch\<close>

definition initialMin :: int where
  "initialMin = 10000000"

text \<open>\<^verbatim>\<open>TestResults\<close>, without the duration of the batch as a whole.\<close>

record Results =
  rsMin :: int
  rsMax :: int

text \<open>Where a worker is: in its loop over the commands, before or after the comparison of the minimum or of
  the maximum, before it reports, or at its end.\<close>

datatype place = Requests | CheckMin | SetMin | CheckMax | SetMax | Send | Returned

text \<open>A worker: its server, the commands it has yet to send, its own shortest and longest reply; and, for the
  record, what it has been answered.\<close>

record worker =
  wkServer :: nat
  wkTodo :: "string list"
  wkMin :: int
  wkMax :: int
  wkPlace :: place
  wkAnswered :: "(string \<times> pbResponse) list"

text \<open>The two calls of \<^verbatim>\<open>log.Fatalf\<close>: in \<^verbatim>\<open>callCrud\<close> for an error, in the worker for a code other than 200.\<close>

datatype batch_end = NoAnswer gerror | BadReply u64 string string

record 'w Batch =
  btServers :: 'w
  btRes :: Results
  btWorkers :: "worker list"
  btChan :: nat
  btReceived :: nat
  btFatal :: "batch_end option"

type_synonym 'w servers = "'w \<Rightarrow> nat \<Rightarrow> string \<Rightarrow> 'w \<times> (gerror + pbResponse)"

definition startResults :: Results where
  "startResults = \<lparr>rsMin = initialMin, rsMax = 0\<rparr>"

definition startWorker :: "nat \<times> string list \<Rightarrow> worker" where
  "startWorker job = \<lparr>wkServer = fst job, wkTodo = snd job, wkMin = initialMin, wkMax = 0, wkPlace = Requests,
    wkAnswered = []\<rparr>"

definition startBatch :: "'w \<Rightarrow> (nat \<times> string list) list \<Rightarrow> 'w Batch" where
  "startBatch w jobs = \<lparr>btServers = w, btRes = startResults, btWorkers = map startWorker jobs, btChan = 0,
    btReceived = 0, btFatal = None\<rparr>"

section \<open>Steps\<close>

definition put_worker :: "nat \<Rightarrow> worker \<Rightarrow> 'w Batch \<Rightarrow> 'w Batch" where
  "put_worker i k b = b\<lparr>btWorkers := (btWorkers b)[i := k]\<rparr>"

definition callCrud :: "'w servers \<Rightarrow> 'w \<Rightarrow> nat \<Rightarrow> string \<Rightarrow> 'w \<times> (batch_end + pbResponse)" where
  "callCrud crud w client msg =
    (case crud w client msg of
       (w', Inl err) \<Rightarrow> (w', Inl (NoAnswer err))
     | (w', Inr r) \<Rightarrow> (w', Inr r))"

text \<open>One turn of the loop: \<^verbatim>\<open>callCrud\<close>, the check of the code, the worker's own minimum and maximum.\<close>

definition request :: "'w servers \<Rightarrow> nat \<Rightarrow> worker \<Rightarrow> string \<Rightarrow> string list \<Rightarrow> 'w Batch \<Rightarrow> 'w Batch" where
  "request crud i k cmdStr cmds b =
    (case callCrud crud (btServers b) (wkServer k) cmdStr of
       (w, Inl fatal) \<Rightarrow> b\<lparr>btServers := w, btFatal := Some fatal\<rparr>
     | (w, Inr res) \<Rightarrow>
        if pbCode res \<noteq> 200 then b\<lparr>btServers := w, btFatal := Some (BadReply (pbCode res) (pbDocument res) cmdStr)\<rparr>
        else let d = sint (pbDuration res) in
          put_worker i (k\<lparr>wkTodo := cmds, wkMin := if d < wkMin k then d else wkMin k,
            wkMax := if d > wkMax k then d else wkMax k, wkAnswered := wkAnswered k @ [(cmdStr, res)]\<rparr>)
            (b\<lparr>btServers := w\<rparr>))"

text \<open>The next step of worker \<open>i\<close>; \<open>None\<close> when it has none: the process has ended, the worker has, or the
  channel, which has room for one message per worker, is full.\<close>

definition workStep :: "'w servers \<Rightarrow> nat \<Rightarrow> 'w Batch \<Rightarrow> 'w Batch option" where
  "workStep crud i b =
    (if btFatal b \<noteq> None then None
     else let k = btWorkers b ! i; res = btRes b; goto = (\<lambda>pl. put_worker i (k\<lparr>wkPlace := pl\<rparr>)) in
      case wkPlace k of
        Requests \<Rightarrow> Some (case wkTodo k of [] \<Rightarrow> goto CheckMin b | cmdStr # cmds \<Rightarrow> request crud i k cmdStr cmds b)
      | CheckMin \<Rightarrow> Some (goto (if wkMin k < rsMin res then SetMin else CheckMax) b)
      | SetMin \<Rightarrow> Some (goto CheckMax (b\<lparr>btRes := res\<lparr>rsMin := wkMin k\<rparr>\<rparr>))
      | CheckMax \<Rightarrow> Some (goto (if wkMax k > rsMax res then SetMax else Send) b)
      | SetMax \<Rightarrow> Some (goto Send (b\<lparr>btRes := res\<lparr>rsMax := wkMax k\<rparr>\<rparr>))
      | Send \<Rightarrow> if btChan b < length (btWorkers b) then Some (goto Returned (b\<lparr>btChan := btChan b + 1\<rparr>)) else None
      | Returned \<Rightarrow> None)"

text \<open>The caller: it receives once per worker and blocks while the channel is empty.\<close>

definition receive :: "'w Batch \<Rightarrow> 'w Batch option" where
  "receive b =
    (if btFatal b = None \<and> btReceived b < length (btWorkers b) \<and> 0 < btChan b
     then Some (b\<lparr>btChan := btChan b - 1, btReceived := btReceived b + 1\<rparr>) else None)"

inductive work :: "'w servers \<Rightarrow> (nat \<times> string list) list \<Rightarrow> 'w \<Rightarrow> nat \<Rightarrow> 'w Batch \<Rightarrow> bool" for crud jobs w where
  start: "work crud jobs w 0 (startBatch w jobs)"
| worker: "work crud jobs w n b \<Longrightarrow> i < length jobs \<Longrightarrow> workStep crud i b = Some b' \<Longrightarrow> work crud jobs w (Suc n) b'"
| caller: "work crud jobs w n b \<Longrightarrow> receive b = Some b' \<Longrightarrow> work crud jobs w (Suc n) b'"

definition stuck :: "'w servers \<Rightarrow> 'w Batch \<Rightarrow> bool" where
  "stuck crud b \<longleftrightarrow> receive b = None \<and> (\<forall>i < length (btWorkers b). workStep crud i b = None)"

text \<open>A schedule, to run examples: the number of a worker, or \<open>None\<close> for the caller.\<close>

fun scheduled :: "'w servers \<Rightarrow> nat option list \<Rightarrow> 'w Batch \<Rightarrow> 'w Batch option" where
  "scheduled crud [] b = Some b"
| "scheduled crud (x # xs) b =
    Option.bind (case x of None \<Rightarrow> receive b | Some i \<Rightarrow> if i < length (btWorkers b) then workStep crud i b else None)
      (scheduled crud xs)"

section \<open>What a step does\<close>

lemma put_worker_simps [simp]:
  "btServers (put_worker i k b) = btServers b" "btRes (put_worker i k b) = btRes b"
  "btWorkers (put_worker i k b) = (btWorkers b)[i := k]" "btChan (put_worker i k b) = btChan b"
  "btReceived (put_worker i k b) = btReceived b" "btFatal (put_worker i k b) = btFatal b"
  by (simp_all add: put_worker_def)

lemma request_length: "length (btWorkers (request crud i k c cs b)) = length (btWorkers b)"
  by (simp add: request_def callCrud_def Let_def split: prod.split sum.split)

lemma workStep_length: "workStep crud i b = Some b' \<Longrightarrow> length (btWorkers b') = length (btWorkers b)"
  by (auto simp: workStep_def Let_def request_length split: if_splits place.splits list.splits)

lemma receive_workers: "receive b = Some b' \<Longrightarrow> btWorkers b' = btWorkers b \<and> btRes b' = btRes b \<and> btFatal b' = None"
  by (auto simp: receive_def split: if_splits)

lemma work_length: "work crud jobs w n b \<Longrightarrow> length (btWorkers b) = length jobs"
  by (induction rule: work.induct) (simp_all add: startBatch_def workStep_length receive_workers)

lemma scheduled_work:
  "scheduled crud xs b = Some b' \<Longrightarrow> work crud jobs w n b \<Longrightarrow> work crud jobs w (n + length xs) b'"
proof (induction xs arbitrary: n b)
  case Nil
  then show ?case by simp
next
  case (Cons x xs)
  then obtain b1 where "(case x of None \<Rightarrow> receive b
      | Some i \<Rightarrow> if i < length (btWorkers b) then workStep crud i b else None) = Some b1"
      and rest: "scheduled crud xs b1 = Some b'"
    by (auto simp: bind_eq_Some_conv)
  then have "work crud jobs w (Suc n) b1"
    using Cons.prems(2) work_length [OF Cons.prems(2)]
    by (auto split: option.splits if_splits intro: work.worker work.caller)
  from Cons.IH [OF rest this] show ?case by simp
qed

section \<open>How many steps there are\<close>

fun ahead :: "place \<Rightarrow> nat" where
  "ahead Requests = 6" | "ahead CheckMin = 5" | "ahead SetMin = 4" | "ahead CheckMax = 3" | "ahead SetMax = 2"
| "ahead Send = 1" | "ahead Returned = 0"

definition worker_ahead :: "worker \<Rightarrow> nat" where
  "worker_ahead k = length (wkTodo k) + ahead (wkPlace k)"

definition all_ahead :: "'w Batch \<Rightarrow> nat" where
  "all_ahead b = (if btFatal b = None
    then sum_list (map worker_ahead (btWorkers b)) + (length (btWorkers b) - btReceived b) else 0)"

lemma sum_list_less_update:
  "i < length xs \<Longrightarrow> f y < f (xs ! i) \<Longrightarrow> sum_list (map f (xs[i := y])) < sum_list (map (f :: 'a \<Rightarrow> nat) xs)"
proof (induction xs arbitrary: i)
  case Nil
  then show ?case by simp
next
  case (Cons x xs)
  then show ?case by (cases i) auto
qed

lemma put_worker_ahead:
  assumes "i < length (btWorkers b)" and "worker_ahead k < worker_ahead (btWorkers b ! i)" and "btFatal b = None"
  shows "all_ahead (put_worker i k b) < all_ahead b"
  using sum_list_less_update [OF assms(1,2)] assms(3) by (simp add: all_ahead_def)

lemma all_ahead_pos:
  assumes "i < length (btWorkers b)" and "0 < worker_ahead (btWorkers b ! i)" and "btFatal b = None"
  shows "0 < all_ahead b"
proof -
  have "worker_ahead (btWorkers b ! i) \<le> sum_list (map worker_ahead (btWorkers b))"
    using assms(1) by (intro member_le_sum_list) auto
  with assms show ?thesis by (simp add: all_ahead_def)
qed

lemma workStep_ahead:
  assumes "workStep crud i b = Some b'" and "i < length (btWorkers b)"
  shows "all_ahead b' < all_ahead b"
proof -
  let ?k = "btWorkers b ! i"
  have up: "btFatal b = None" using assms(1) by (auto simp: workStep_def split: if_splits)
  have less: "all_ahead (put_worker i k c) < all_ahead b"
    if "worker_ahead k < worker_ahead ?k" "btWorkers c = btWorkers b" "btReceived c = btReceived b"
      "btFatal c = None" for k c
    using put_worker_ahead [of i c k] that assms(2) up by (simp add: all_ahead_def)
  show ?thesis
  proof (cases "wkPlace ?k = Requests \<and> wkTodo ?k \<noteq> []")
    case True
    then obtain c cs where todo: "wkTodo ?k = c # cs" by (cases "wkTodo ?k") auto
    with True have pos: "0 < all_ahead b" using all_ahead_pos [OF assms(2) _ up] by (simp add: worker_ahead_def)
    have "b' = request crud i ?k c cs b" using assms(1) True todo up by (simp add: workStep_def Let_def)
    then show ?thesis
      using pos True todo up
      by (auto simp: request_def callCrud_def Let_def worker_ahead_def all_ahead_def [of "b\<lparr>btServers := _, btFatal := _\<rparr>"]
          split: prod.splits sum.splits intro!: less)
  next
    case False
    with assms(1) up show ?thesis
      by (auto simp: workStep_def Let_def worker_ahead_def split: place.splits if_splits list.splits intro!: less)
  qed
qed

lemma receive_ahead: "receive b = Some b' \<Longrightarrow> all_ahead b' < all_ahead b"
  by (auto simp: receive_def all_ahead_def split: if_splits)

lemma work_ahead: "work crud jobs w n b \<Longrightarrow> n + all_ahead b \<le> length (concat (map snd jobs)) + 7 * length jobs"
proof (induction rule: work.induct)
  case start
  have "sum_list (map (worker_ahead \<circ> startWorker) jobs) = length (concat (map snd jobs)) + 6 * length jobs"
    by (induction jobs) (simp_all add: startWorker_def worker_ahead_def)
  then show ?case by (simp add: all_ahead_def startBatch_def)
next
  case (worker n b i b')
  with workStep_ahead [OF worker(3)] work_length [OF worker(1)] show ?case by simp
next
  case (caller n b b')
  with receive_ahead [OF caller(2)] show ?case by simp
qed

section \<open>What every schedule keeps\<close>

definition durations :: "worker \<Rightarrow> int set" where
  "durations k = (\<lambda>(cmd, res). sint (pbDuration res)) ` set (wkAnswered k)"

text \<open>What a worker has been answered, with its own minimum and maximum.\<close>

definition answered :: "nat \<times> string list \<Rightarrow> worker \<Rightarrow> bool" where
  "answered job k \<longleftrightarrow> wkServer k = fst job \<and> snd job = map fst (wkAnswered k) @ wkTodo k \<and>
    (\<forall>(cmd, res) \<in> set (wkAnswered k). pbCode res = 200) \<and>
    wkMin k = Min (insert initialMin (durations k)) \<and> wkMax k = Max (insert 0 (durations k)) \<and>
    (wkPlace k \<noteq> Requests \<longrightarrow> wkTodo k = [])"

text \<open>What it has seen, or made, of the shared minimum \<open>mn\<close> and maximum \<open>mx\<close> at its place.\<close>

definition compared :: "int \<Rightarrow> int \<Rightarrow> worker \<Rightarrow> bool" where
  "compared mn mx k \<longleftrightarrow>
    (wkPlace k = SetMin \<longrightarrow> wkMin k < initialMin) \<and> (wkPlace k = SetMax \<longrightarrow> 0 < wkMax k) \<and>
    (wkPlace k \<notin> {Requests, CheckMin, SetMin} \<and> wkMin k < initialMin \<longrightarrow> mn < initialMin) \<and>
    (wkPlace k \<in> {Send, Returned} \<and> 0 < wkMax k \<longrightarrow> 0 < mx)"

definition worker_ok :: "int \<Rightarrow> int \<Rightarrow> nat \<times> string list \<Rightarrow> worker \<Rightarrow> bool" where
  "worker_ok mn mx job k \<longleftrightarrow> answered job k \<and> compared mn mx k"

text \<open>The shared results are what they began as or a worker's that has left its loop.\<close>

definition results_ok :: "worker list \<Rightarrow> int \<Rightarrow> int \<Rightarrow> bool" where
  "results_ok ks mn mx \<longleftrightarrow> mn \<le> initialMin \<and> 0 \<le> mx \<and>
    (mn = initialMin \<or> (\<exists>k \<in> set ks. wkPlace k \<noteq> Requests \<and> mn = wkMin k)) \<and>
    (mx = 0 \<or> (\<exists>k \<in> set ks. wkPlace k \<noteq> Requests \<and> mx = wkMax k))"

definition bad_answer :: "'w servers \<Rightarrow> string list \<Rightarrow> batch_end \<Rightarrow> bool" where
  "bad_answer crud cmds e \<longleftrightarrow> (\<exists>w server cmd w' r. cmd \<in> set cmds \<and> crud w server cmd = (w', r) \<and>
    (case r of Inl err \<Rightarrow> e = NoAnswer err
     | Inr res \<Rightarrow> pbCode res \<noteq> 200 \<and> e = BadReply (pbCode res) (pbDocument res) cmd))"

definition returned :: "worker list \<Rightarrow> nat" where
  "returned ks = sum_list (map (\<lambda>k. if wkPlace k = Returned then 1 else 0) ks)"

definition batch_ok :: "'w servers \<Rightarrow> (nat \<times> string list) list \<Rightarrow> 'w Batch \<Rightarrow> bool" where
  "batch_ok crud jobs b \<longleftrightarrow> length (btWorkers b) = length jobs \<and>
    (\<forall>i < length jobs. worker_ok (rsMin (btRes b)) (rsMax (btRes b)) (jobs ! i) (btWorkers b ! i)) \<and>
    results_ok (btWorkers b) (rsMin (btRes b)) (rsMax (btRes b)) \<and>
    btChan b + btReceived b = returned (btWorkers b) \<and> btReceived b \<le> length jobs \<and>
    (\<forall>e. btFatal b = Some e \<longrightarrow> bad_answer crud (concat (map snd jobs)) e)"

text \<open>A smaller shared minimum and a larger shared maximum are as good for a worker.\<close>

lemma worker_ok_better:
  "worker_ok mn mx job k \<Longrightarrow> mn' < initialMin \<or> mn' = mn \<Longrightarrow> 0 < mx' \<or> mx' = mx \<Longrightarrow> worker_ok mn' mx' job k"
  by (auto simp: worker_ok_def compared_def)

lemma results_ok_keep:
  assumes "results_ok ks mn mx" and "i < length ks" and "wkPlace (ks ! i) \<noteq> Requests \<longrightarrow>
      wkPlace k \<noteq> Requests \<and> wkMin k = wkMin (ks ! i) \<and> wkMax k = wkMax (ks ! i)"
  shows "results_ok (ks[i := k]) mn mx"
proof -
  have "\<exists>y \<in> set (ks[i := k]). wkPlace y \<noteq> Requests \<and> wkMin y = wkMin x \<and> wkMax y = wkMax x"
    if "x \<in> set ks" "wkPlace x \<noteq> Requests" for x
  proof -
    from that(1) obtain j where j: "j < length ks" "ks ! j = x" unfolding in_set_conv_nth by blast
    then have "ks[i := k] ! j \<in> set (ks[i := k])" by simp
    moreover have "wkPlace (ks[i := k] ! j) \<noteq> Requests \<and> wkMin (ks[i := k] ! j) = wkMin x \<and> wkMax (ks[i := k] ! j) = wkMax x"
      using j that(2) assms(2,3) by (cases "j = i") auto
    ultimately show ?thesis by blast
  qed
  with assms(1) show ?thesis unfolding results_ok_def by metis
qed

lemma results_ok_set:
  assumes "results_ok ks mn mx" and "k \<in> set ks" and "wkPlace k \<noteq> Requests"
    and "mn' = mn \<or> mn' = wkMin k \<and> mn' < initialMin" and "mx' = mx \<or> mx' = wkMax k \<and> 0 < mx'"
  shows "results_ok ks mn' mx'"
  using assms unfolding results_ok_def by (elim disjE) auto

lemma returned_update:
  "i < length ks \<Longrightarrow> wkPlace (ks ! i) \<noteq> Returned \<Longrightarrow>
    returned (ks[i := k]) = returned ks + (if wkPlace k = Returned then 1 else 0)"
proof (induction ks arbitrary: i)
  case Nil
  then show ?case by simp
next
  case (Cons x ks)
  then show ?case by (cases i) (simp_all add: returned_def)
qed

text \<open>Replacing a worker and the shared results.\<close>

lemma batch_ok_update:
  assumes "batch_ok crud jobs b" and "i < length jobs" and "wkPlace (btWorkers b ! i) \<noteq> Returned"
    and "worker_ok mn mx (jobs ! i) k" and "results_ok ((btWorkers b)[i := k]) mn mx"
    and "mn < initialMin \<or> mn = rsMin (btRes b)" and "0 < mx \<or> mx = rsMax (btRes b)"
    and "btWorkers b' = (btWorkers b)[i := k]" and "btRes b' = \<lparr>rsMin = mn, rsMax = mx\<rparr>"
    and "btChan b' = btChan b + (if wkPlace k = Returned then 1 else 0)" and "btReceived b' = btReceived b"
    and "btFatal b' = btFatal b"
  shows "batch_ok crud jobs b'"
proof -
  have len: "length (btWorkers b) = length jobs" using assms(1) by (simp add: batch_ok_def)
  have "worker_ok mn mx (jobs ! j) (btWorkers b' ! j)" if "j < length jobs" for j
  proof (cases "j = i")
    case True
    then show ?thesis using assms(2,4,8) len by simp
  next
    case False
    have "worker_ok (rsMin (btRes b)) (rsMax (btRes b)) (jobs ! j) (btWorkers b ! j)"
      using assms(1) that by (simp add: batch_ok_def)
    from worker_ok_better [OF this assms(6,7)] False assms(8) show ?thesis by simp
  qed
  with assms len show ?thesis by (simp add: batch_ok_def returned_update)
qed

lemma durations_snoc:
  "wkAnswered k' = wkAnswered k @ [(cmd, res)] \<Longrightarrow> durations k' = insert (sint (pbDuration res)) (durations k)"
  by (simp add: durations_def)

lemma finite_durations [simp]: "finite (durations k)"
  by (simp add: durations_def)

text \<open>A turn of the loop.\<close>

lemma request_ok:
  assumes ok: "batch_ok crud jobs b" and i: "i < length jobs" and k: "k = btWorkers b ! i"
    and at: "wkPlace k = Requests" "wkTodo k = c # cs"
  shows "batch_ok crud jobs (request crud i k c cs b)"
proof -
  let ?mn = "rsMin (btRes b)" and ?mx = "rsMax (btRes b)"
  have w: "worker_ok ?mn ?mx (jobs ! i) k" and len: "length (btWorkers b) = length jobs"
    using ok i k by (simp_all add: batch_ok_def)
  have a: "answered (jobs ! i) k" using w by (simp add: worker_ok_def)
  then have "c \<in> set (snd (jobs ! i))" using at(2) by (simp add: answered_def)
  then have mem: "c \<in> set (concat (map snd jobs))" using i by force
  obtain s r where call: "crud (btServers b) (wkServer k) c = (s, r)" by (cases "crud (btServers b) (wkServer k) c")
  have fatal: "batch_ok crud jobs (b\<lparr>btServers := s, btFatal := Some e\<rparr>)" if "bad_answer crud (concat (map snd jobs)) e" for e
    using ok that by (simp add: batch_ok_def)
  show ?thesis
  proof (cases r)
    case (Inl err)
    then have "bad_answer crud (concat (map snd jobs)) (NoAnswer err)"
      using call mem unfolding bad_answer_def by (intro exI conjI) auto
    with Inl call fatal show ?thesis by (simp add: request_def callCrud_def)
  next
    case (Inr res)
    show ?thesis
    proof (cases "pbCode res = 200")
      case False
      with Inr have "bad_answer crud (concat (map snd jobs)) (BadReply (pbCode res) (pbDocument res) c)"
        using call mem unfolding bad_answer_def by (intro exI conjI) auto
      with False Inr call fatal show ?thesis by (simp add: request_def callCrud_def)
    next
      case True
      let ?d = "sint (pbDuration res)"
      let ?k = "k\<lparr>wkTodo := cs, wkMin := if ?d < wkMin k then ?d else wkMin k,
        wkMax := if ?d > wkMax k then ?d else wkMax k, wkAnswered := wkAnswered k @ [(c, res)]\<rparr>"
      have d: "durations ?k = insert ?d (durations k)" by (simp add: durations_snoc)
      have "wkMin ?k = min ?d (wkMin k)" "wkMax ?k = max ?d (wkMax k)" by simp_all
      then have "wkMin ?k = Min (insert initialMin (durations ?k))" "wkMax ?k = Max (insert 0 (durations ?k))"
        unfolding d insert_commute [of _ ?d] using a by (simp_all add: answered_def)
      then have "answered (jobs ! i) ?k" using a at True by (simp add: answered_def)
      then have wk: "worker_ok ?mn ?mx (jobs ! i) ?k" using at(1) by (simp add: worker_ok_def compared_def)
      have "results_ok ((btWorkers b)[i := ?k]) ?mn ?mx"
        using ok i len at(1) k by (intro results_ok_keep) (simp_all add: batch_ok_def)
      then have "batch_ok crud jobs (put_worker i ?k (b\<lparr>btServers := s\<rparr>))"
        by (intro batch_ok_update [OF ok i _ wk]) (use at(1) k in simp_all)
      with True Inr call show ?thesis by (simp add: request_def callCrud_def Let_def)
    qed
  qed
qed

text \<open>A step after the loop: the place changes, and perhaps the shared results or the channel.\<close>

lemma goto_ok:
  assumes ok: "batch_ok crud jobs b" and i: "i < length jobs" and k: "k = btWorkers b ! i"
    and at: "wkPlace k \<noteq> Returned" "wkTodo k = []" "pl \<noteq> Requests" and pl: "compared mn mx (k\<lparr>wkPlace := pl\<rparr>)"
    and mn: "mn = rsMin (btRes b) \<or> mn = wkMin k \<and> mn < initialMin"
    and mx: "mx = rsMax (btRes b) \<or> mx = wkMax k \<and> 0 < mx"
    and b': "btWorkers b' = (btWorkers b)[i := k\<lparr>wkPlace := pl\<rparr>]" "btRes b' = \<lparr>rsMin = mn, rsMax = mx\<rparr>"
      "btChan b' = btChan b + (if pl = Returned then 1 else 0)" "btReceived b' = btReceived b"
      "btFatal b' = btFatal b"
  shows "batch_ok crud jobs b'"
proof -
  let ?k = "k\<lparr>wkPlace := pl\<rparr>" and ?ks = "(btWorkers b)[i := k\<lparr>wkPlace := pl\<rparr>]"
  have len: "length (btWorkers b) = length jobs"
    and w: "answered (jobs ! i) k" using ok i k by (simp_all add: batch_ok_def worker_ok_def)
  then have "answered (jobs ! i) ?k" using at by (simp add: answered_def durations_def)
  then have w': "worker_ok mn mx (jobs ! i) ?k" using pl by (simp add: worker_ok_def)
  have "results_ok ?ks (rsMin (btRes b)) (rsMax (btRes b))"
    using ok i len at(3) k by (intro results_ok_keep) (simp_all add: batch_ok_def)
  moreover have "?k \<in> set ?ks" using i len by (simp add: set_update_memI)
  ultimately have "results_ok ?ks mn mx"
    by (rule results_ok_set) (use mn mx at(3) in simp_all)
  then show ?thesis
    by (intro batch_ok_update [OF ok i _ w', where b' = b']) (use at(1) k mn mx b' in auto)
qed

lemma workStep_ok:
  assumes ok: "batch_ok crud jobs b" and i: "i < length jobs" and step: "workStep crud i b = Some b'"
  shows "batch_ok crud jobs b'"
proof -
  define k where "k = btWorkers b ! i"
  define res where "res = btRes b"
  have res: "btRes b = \<lparr>rsMin = rsMin res, rsMax = rsMax res\<rparr>" by (simp add: res_def)
  have w: "answered (jobs ! i) k" "compared (rsMin res) (rsMax res) k" and r: "rsMin res \<le> initialMin" "0 \<le> rsMax res"
    using ok i by (simp_all add: batch_ok_def worker_ok_def results_ok_def k_def res_def)
  have todo: "wkPlace k \<noteq> Requests \<Longrightarrow> wkTodo k = []" using w(1) by (simp add: answered_def)
  note goto = goto_ok [OF ok i k_def]
  have up: "btFatal b = None" using step by (auto simp: workStep_def split: if_splits)
  show ?thesis
  proof (cases "wkPlace k")
    case Requests
    show ?thesis
    proof (cases "wkTodo k")
      case Nil
      then have b': "b' = put_worker i (k\<lparr>wkPlace := CheckMin\<rparr>) b"
        using step up Requests by (simp add: workStep_def Let_def k_def)
      show ?thesis
        by (rule goto [where pl = CheckMin and mn = "rsMin res" and mx = "rsMax res"])
          (use Requests Nil b' res in \<open>simp_all add: compared_def\<close>)
    next
      case (Cons c cs)
      then have "b' = request crud i k c cs b"
        using step up Requests by (simp add: workStep_def Let_def k_def)
      with request_ok [OF ok i k_def Requests Cons] show ?thesis by simp
    qed
  next
    case CheckMin
    let ?pl = "if wkMin k < rsMin res then SetMin else CheckMax"
    have b': "b' = put_worker i (k\<lparr>wkPlace := ?pl\<rparr>) b"
      using step up CheckMin by (simp add: workStep_def Let_def k_def res_def)
    show ?thesis
      by (rule goto [where pl = ?pl and mn = "rsMin res" and mx = "rsMax res"])
        (use CheckMin b' res todo r in \<open>simp_all add: compared_def\<close>)
  next
    case SetMin
    have b': "b' = put_worker i (k\<lparr>wkPlace := CheckMax\<rparr>) (b\<lparr>btRes := res\<lparr>rsMin := wkMin k\<rparr>\<rparr>)"
      using step up SetMin by (simp add: workStep_def Let_def k_def res_def)
    show ?thesis
      by (rule goto [where pl = CheckMax and mn = "wkMin k" and mx = "rsMax res"])
        (use SetMin b' res todo r w(2) in \<open>simp_all add: compared_def\<close>)
  next
    case CheckMax
    let ?pl = "if wkMax k > rsMax res then SetMax else Send"
    have b': "b' = put_worker i (k\<lparr>wkPlace := ?pl\<rparr>) b"
      using step up CheckMax by (simp add: workStep_def Let_def k_def res_def)
    show ?thesis
      by (rule goto [where pl = ?pl and mn = "rsMin res" and mx = "rsMax res"])
        (use CheckMax b' res todo r w(2) in \<open>simp_all add: compared_def\<close>)
  next
    case SetMax
    have b': "b' = put_worker i (k\<lparr>wkPlace := Send\<rparr>) (b\<lparr>btRes := res\<lparr>rsMax := wkMax k\<rparr>\<rparr>)"
      using step up SetMax by (simp add: workStep_def Let_def k_def res_def)
    show ?thesis
      by (rule goto [where pl = Send and mn = "rsMin res" and mx = "wkMax k"])
        (use SetMax b' res todo r w(2) in \<open>simp_all add: compared_def\<close>)
  next
    case Send
    then have b': "b' = put_worker i (k\<lparr>wkPlace := Returned\<rparr>) (b\<lparr>btChan := btChan b + 1\<rparr>)"
      using step up by (simp add: workStep_def Let_def k_def split: if_splits)
    show ?thesis
      by (rule goto [where pl = Returned and mn = "rsMin res" and mx = "rsMax res"])
        (use Send b' res todo r w(2) in \<open>simp_all add: compared_def\<close>)
  next
    case Returned
    then show ?thesis using step up by (simp add: workStep_def Let_def k_def)
  qed
qed

lemma work_ok: "work crud jobs w n b \<Longrightarrow> batch_ok crud jobs b"
proof (induction rule: work.induct)
  case start
  have "returned (map startWorker jobs) = 0" by (induction jobs) (simp_all add: returned_def startWorker_def)
  then show ?case
    by (simp add: batch_ok_def startBatch_def startResults_def results_ok_def worker_ok_def answered_def
        compared_def startWorker_def durations_def initialMin_def)
next
  case (worker n b i b')
  then show ?case using workStep_ok by blast
next
  case (caller n b b')
  then show ?case by (auto simp: receive_def batch_ok_def split: if_splits)
qed

section \<open>Where a batch ends\<close>

lemma stuck_done:
  assumes ok: "batch_ok crud jobs b" and "stuck crud b" and up: "btFatal b = None"
  shows "(\<forall>k \<in> set (btWorkers b). wkPlace k = Returned) \<and> btReceived b = length jobs"
proof -
  let ?ks = "btWorkers b"
  have len: "length ?ks = length jobs" and chan: "btChan b + btReceived b = returned ?ks" "btReceived b \<le> length jobs"
    using ok by (simp_all add: batch_ok_def)
  have room: "btChan b < length ?ks" if "i < length ?ks" "wkPlace (?ks ! i) \<noteq> Returned" for i
  proof -
    have "returned (?ks[i := (?ks ! i)\<lparr>wkPlace := Returned\<rparr>]) \<le> length ?ks"
      using sum_list_mono [of "?ks[i := (?ks ! i)\<lparr>wkPlace := Returned\<rparr>]"
          "\<lambda>k. if wkPlace k = Returned then 1 else 0" "\<lambda>k. 1 :: nat"]
      by (simp add: returned_def sum_list_triv)
    with returned_update [OF that, of "(?ks ! i)\<lparr>wkPlace := Returned\<rparr>"] chan show ?thesis by simp
  qed
  have all: "wkPlace k = Returned" if "k \<in> set ?ks" for k
  proof (rule ccontr)
    assume not: "wkPlace k \<noteq> Returned"
    from that obtain i where i: "i < length ?ks" "?ks ! i = k" unfolding in_set_conv_nth by blast
    then have "workStep crud i b = None" using assms(2) by (simp add: stuck_def)
    with not up room [OF i(1)] i(2) show False by (auto simp: workStep_def Let_def split: place.splits if_splits)
  qed
  then have "returned ?ks = length ?ks"
    by (simp add: returned_def sum_list_triv cong: map_cong)
  moreover have "receive b = None" using assms(2) by (simp add: stuck_def)
  ultimately have "btReceived b = length jobs"
    using chan len up by (auto simp: receive_def split: if_splits)
  with all show ?thesis by simp
qed

definition slowest :: "worker \<Rightarrow> int" where
  "slowest k = Max (insert 0 (durations k))"

definition fastest :: "worker \<Rightarrow> int" where
  "fastest k = Min (insert initialMin (durations k))"

lemma done_results:
  assumes ok: "batch_ok crud jobs b" and all: "\<forall>k \<in> set (btWorkers b). wkPlace k = Returned"
  shows "map (\<lambda>k. (wkServer k, map fst (wkAnswered k))) (btWorkers b) = jobs"
    and "\<forall>k \<in> set (btWorkers b). \<forall>(cmd, res) \<in> set (wkAnswered k). pbCode res = 200"
    and "rsMin (btRes b) \<in> insert initialMin (fastest ` set (btWorkers b))"
    and "rsMin (btRes b) = initialMin \<longleftrightarrow> (\<forall>k \<in> set (btWorkers b). \<forall>d \<in> durations k. initialMin \<le> d)"
    and "rsMax (btRes b) \<in> insert 0 (slowest ` set (btWorkers b))"
    and "rsMax (btRes b) = 0 \<longleftrightarrow> (\<forall>k \<in> set (btWorkers b). \<forall>d \<in> durations k. d \<le> 0)"
proof -
  let ?ks = "btWorkers b" and ?mn = "rsMin (btRes b)" and ?mx = "rsMax (btRes b)"
  have len: "length ?ks = length jobs" and res: "results_ok ?ks ?mn ?mx" using ok by (simp_all add: batch_ok_def)
  have nth: "answered (jobs ! i) (?ks ! i)" "compared ?mn ?mx (?ks ! i)" "wkPlace (?ks ! i) = Returned"
    if "i < length jobs" for i
    using ok all that len by (simp_all add: batch_ok_def worker_ok_def)
  then show "map (\<lambda>k. (wkServer k, map fst (wkAnswered k))) ?ks = jobs"
    using len by (intro nth_equalityI) (simp_all add: answered_def prod_eq_iff)
  have each: "fastest k = wkMin k \<and> slowest k = wkMax k \<and> (wkMin k < initialMin \<longrightarrow> ?mn < initialMin) \<and>
      (0 < wkMax k \<longrightarrow> 0 < ?mx) \<and> (\<forall>(cmd, res) \<in> set (wkAnswered k). pbCode res = 200)" if "k \<in> set ?ks" for k
  proof -
    from that obtain i where "i < length jobs" "?ks ! i = k" unfolding in_set_conv_nth len by blast
    with nth [of i] show ?thesis by (simp add: answered_def compared_def fastest_def slowest_def)
  qed
  then show "\<forall>k \<in> set ?ks. \<forall>(cmd, res) \<in> set (wkAnswered k). pbCode res = 200" by blast
  show mn: "?mn \<in> insert initialMin (fastest ` set ?ks)" and mx: "?mx \<in> insert 0 (slowest ` set ?ks)"
    using res each unfolding results_ok_def by (metis image_eqI insertCI)+
  have min: "initialMin \<le> fastest k \<longleftrightarrow> (\<forall>d \<in> durations k. initialMin \<le> d)" for k
    by (simp add: fastest_def)
  have max: "slowest k \<le> 0 \<longleftrightarrow> (\<forall>d \<in> durations k. d \<le> 0)" for k
    by (simp add: slowest_def)
  show "?mn = initialMin \<longleftrightarrow> (\<forall>k \<in> set ?ks. \<forall>d \<in> durations k. initialMin \<le> d)"
    using res mn each unfolding results_ok_def min [symmetric] by (force simp: not_less)
  show "?mx = 0 \<longleftrightarrow> (\<forall>k \<in> set ?ks. \<forall>d \<in> durations k. d \<le> 0)"
    using res mx each unfolding results_ok_def max [symmetric] by (force simp: not_less)
qed

section \<open>Properties\<close>

text \<open>C32: A batch ends, whatever the servers answer and whatever the scheduler does: no run of it takes
  more steps than there are commands and seven for each worker. Where no step is left, either the process
  has ended on an answer to one of its commands that was an error or not 200; or the caller has heard from
  every worker, each worker has sent exactly its commands, in order, to its server, and all were answered
  200. The minimum and the maximum in the result are then each that of some worker, or what they began as;
  and they are what they began as only if no reply took less than 10 ms, or more than no time at all.\<close>

theorem batch_ends:
  assumes "RunJobs b = Done jobs" and "work crud jobs w n r"
  shows "n \<le> length (concat (map snd jobs)) + 7 * length jobs \<and>
    (stuck crud r \<longrightarrow> (case btFatal r of
        Some e \<Rightarrow> bad_answer crud (concat (map snd jobs)) e
      | None \<Rightarrow> btReceived r = length jobs \<and>
          map (\<lambda>k. (wkServer k, map fst (wkAnswered k))) (btWorkers r) = jobs \<and>
          batchCommands b = Done (concat (map (\<lambda>k. map fst (wkAnswered k)) (btWorkers r))) \<and>
          (\<forall>k \<in> set (btWorkers r). \<forall>(cmd, res) \<in> set (wkAnswered k). pbCode res = 200) \<and>
          rsMin (btRes r) \<in> insert initialMin (fastest ` set (btWorkers r)) \<and>
          (rsMin (btRes r) = initialMin \<longleftrightarrow> (\<forall>k \<in> set (btWorkers r). \<forall>d \<in> durations k. initialMin \<le> d)) \<and>
          rsMax (btRes r) \<in> insert 0 (slowest ` set (btWorkers r)) \<and>
          (rsMax (btRes r) = 0 \<longleftrightarrow> (\<forall>k \<in> set (btWorkers r). \<forall>d \<in> durations k. d \<le> 0))))"
proof -
  note ok = work_ok [OF assms(2)]
  have "batchCommands b = Done (concat (map snd jobs))" using assms(1) by (simp add: batchCommands_def)
  moreover have "map snd jobs = map (\<lambda>k. map fst (wkAnswered k)) (btWorkers r)"
    if "map (\<lambda>k. (wkServer k, map fst (wkAnswered k))) (btWorkers r) = jobs"
    unfolding that [symmetric] by simp
  moreover have "bad_answer crud (concat (map snd jobs)) e" if "btFatal r = Some e" for e
    using ok that by (simp add: batch_ok_def)
  ultimately show ?thesis
    using work_ahead [OF assms(2)] stuck_done [OF ok] done_results [OF ok] by (cases "btFatal r") auto
qed

text \<open>Servers that count the requests and answer each one after 2 ns more than the one before.\<close>

definition slowing :: "nat servers" where
  "slowing w server cmd = (Suc w, Inr \<lparr>pbCode = 200, pbDocument = [], pbDuration = of_nat (7 + 2 * w)\<rparr>)"

definition exBatch :: "int \<Rightarrow> TestBatch" where
  "exBatch n = \<lparr>tbWorkers = n, tbPartitions = [''a''], tbWords = [''x'', ''y''], tbFormatCommand = formatGet, tbServers = 2\<rparr>"

lemmas ex_batch_simps = workStep_def receive_def request_def callCrud_def put_worker_def startBatch_def startResults_def
  startWorker_def slowing_def initialMin_def durations_def Let_def

lemma ex_work: "\<exists>r. work slowing [(0, [''GET a x'', ''GET a y''])] 0 9 r \<and> stuck slowing r \<and> btFatal r = None \<and>
  (\<Union>k \<in> set (btWorkers r). durations k) = {7, 9} \<and> length (btWorkers r) = 1"
proof -
  let ?jobs = "[(0, [''GET a x'', ''GET a y''])] :: (nat \<times> string list) list"
  have len: "length (replicate 8 (Some 0) @ [None :: nat option]) = 9" by simp
  obtain r where r: "scheduled slowing (replicate 8 (Some 0) @ [None]) (startBatch 0 ?jobs) = Some r"
      "stuck slowing r" "btFatal r = None" "(\<Union>k \<in> set (btWorkers r). durations k) = {7, 9}" "length (btWorkers r) = 1"
    by (simp add: ex_batch_simps stuck_def eval_nat_numeral)
  from scheduled_work [OF r(1) work.start] r(2-5) show ?thesis unfolding len by auto
qed

theorem batch_ends_witness:
  "\<exists>r. work slowing [(0, [''GET a x'', ''GET a y''])] 0 9 r \<and> btReceived r = 1 \<and>
    batchCommands (exBatch 1) = Done [''GET a x'', ''GET a y''] \<and> btRes r = \<lparr>rsMin = 7, rsMax = 9\<rparr>"
proof -
  let ?jobs = "[(0, [''GET a x'', ''GET a y''])] :: (nat \<times> string list) list"
  obtain r where r: "work slowing ?jobs 0 9 r" "stuck slowing r" "btFatal r = None"
      "(\<Union>k \<in> set (btWorkers r). durations k) = {7, 9}" "length (btWorkers r) = 1"
    using ex_work by blast
  from r(5) obtain k where k: "btWorkers r = [k]" by (cases "btWorkers r") auto
  have d: "durations k = {7, 9}" using r(4) k by simp
  have jobs: "RunJobs (exBatch 1) = Done ?jobs"
    by (simp add: RunJobs_def exBatch_def workerCommands_def formatGet_def)
  have cmds: "batchCommands (exBatch 1) = Done [''GET a x'', ''GET a y'']" by (simp add: batchCommands_def jobs)
  from batch_ends [OF jobs r(1)] r(2,3) k d have "btReceived r = 1"
    "rsMin (btRes r) \<in> {initialMin, fastest k}" "rsMin (btRes r) \<noteq> initialMin"
    "rsMax (btRes r) \<in> {0, slowest k}" "rsMax (btRes r) \<noteq> 0"
    by (auto simp: initialMin_def)
  moreover have "fastest k = 7" "slowest k = 9" by (simp_all add: fastest_def slowest_def d initialMin_def)
  ultimately have "btReceived r = 1" "btRes r = \<lparr>rsMin = 7, rsMax = 9\<rparr>" by auto
  with r(1) cmds show ?thesis by blast
qed

text \<open>Two workers, and the larger maximum is lost: the first compares, the second compares and assigns,
  then the first assigns. The second reply took 9 ns and the batch reports a maximum of 7.\<close>

lemma lost_maximum:
  "\<exists>n r. work slowing [(0, [''GET a x'']), (1, [''GET a y''])] 0 n r \<and> stuck slowing r \<and> btFatal r = None \<and>
    (\<exists>k \<in> set (btWorkers r). 9 \<in> durations k) \<and> rsMax (btRes r) = 7"
proof -
  let ?jobs = "[(0, [''GET a x'']), (1, [''GET a y''])] :: (nat \<times> string list) list"
  let ?schedule = "map Some [0, 0, 1, 1, 0, 0, 0, 1, 1, 1, 0, 0, 1] @ [None, None] :: nat option list"
  obtain r where r: "scheduled slowing ?schedule (startBatch 0 ?jobs) = Some r" "stuck slowing r" "btFatal r = None"
      "\<exists>k \<in> set (btWorkers r). 9 \<in> durations k" "rsMax (btRes r) = 7"
    by (simp add: ex_batch_simps stuck_def eval_nat_numeral less_Suc_eq)
  from scheduled_work [OF r(1) work.start] r(2-5) show ?thesis by blast
qed

text \<open>Replies that all take longer than 10 ms are reported with a minimum of 10 ms.\<close>

lemma results_bounds:
  assumes "work crud jobs w n r" and "stuck crud r" and "btFatal r = None"
    and "\<forall>k \<in> set (btWorkers r). \<forall>d \<in> durations k. initialMin < d"
  shows "rsMin (btRes r) = initialMin"
  using done_results(4) [OF work_ok [OF assms(1)]] stuck_done [OF work_ok [OF assms(1)] assms(2,3)] assms(4)
  by (auto simp: less_imp_le)

end
