(* ===== verification/ClientRun.thy ===== *)
theory ClientRun
  imports Api
begin

text \<open>
  The rest of \<^verbatim>\<open>client.go\<close>: the greeting and the loop of the prompt, and a whole session of the client
  with a server against the contract of the database.
\<close>

section \<open>The program\<close>

text \<open>How the program ends: at \<^verbatim>\<open>exit\<close>, when the prompt fails, or with \<^verbatim>\<open>log.Fatalf\<close>; or the user has not
  typed on.\<close>

datatype client_end = Exited | PromptFailed gerror | Fatal string gerror | Waiting

text \<open>
  \<open>inputs\<close> is what is typed at the prompt. The prompt returns a line only if the check lets it
  through, and stays at it otherwise.
\<close>

fun clientLoop ::
  "('w \<Rightarrow> string \<Rightarrow> 'w \<times> (gerror + pbResponse)) \<Rightarrow> CommandEntry list \<Rightarrow> 'w \<Rightarrow> (gerror + string) list \<Rightarrow>
    ('w \<times> string list \<times> client_end) outcome" where
  "clientLoop callCrud cmds w [] = Done (w, [], Waiting)"
| "clientLoop callCrud cmds w (Inl err # inputs) = Done (w, [], PromptFailed err)"
| "clientLoop callCrud cmds w (Inr result # inputs) =
    and_then (validate cmds result) (\<lambda>err.
      if err \<noteq> None then clientLoop callCrud cmds w inputs
      else if lowers_to_exit result then Done (w, [], Exited)
      else (case callCrud w result of
          (w', Inl err) \<Rightarrow> Done (w', [], Fatal ''crud error'' err)
        | (w', Inr r) \<Rightarrow>
            map_outcome (\<lambda>(w'', out, e). (w'', (pbDocument r @ [CHR 0x0A]) # out, e))
              (clientLoop callCrud cmds w' inputs)))"

text \<open>\<open>dial\<close> and \<open>hello\<close> are the outcomes of connecting and of the greeting, a message and the command list.\<close>

definition clientMain ::
  "gerror option \<Rightarrow> gerror + string \<times> string \<Rightarrow> (string \<Rightarrow> gerror + CommandEntry list) \<Rightarrow>
    ('w \<Rightarrow> string \<Rightarrow> 'w \<times> (gerror + pbResponse)) \<Rightarrow> 'w \<Rightarrow> (gerror + string) list \<Rightarrow>
    ('w \<times> string list \<times> client_end) outcome" where
  "clientMain dial hello unmarshal callCrud w inputs =
    (case dial of
       Some err \<Rightarrow> Done (w, [], Fatal ''did not connect'' err)
     | None \<Rightarrow>
        (case hello of
           Inl err \<Rightarrow> Done (w, [], Fatal ''could not connect'' err)
         | Inr (msg, commandlist) \<Rightarrow>
            (case unmarshal commandlist of
               Inl commandJsErr \<Rightarrow> Panic commandJsErr
             | Inr commands \<Rightarrow>
                map_outcome (\<lambda>(w', out, e). (w', (''Server: '' @ msg @ [CHR 0x0A]) # out, e))
                  (clientLoop callCrud commands w inputs))))"

section \<open>A session\<close>

text \<open>What the contract answers to commands that alter the database and to reads of documents.\<close>

fun contract_replies :: "json_decoder \<Rightarrow> Command list \<Rightarrow> content \<Rightarrow> string list" where
  "contract_replies js [] m = []"
| "contract_replies js (c # cs) m =
    (if alters (cmdType c)
     then getHttpResponseString (spec_code js c m) # contract_replies js cs (spec_effect js c m)
     else rspBody (view_answer m c) # contract_replies js cs m)"

text \<open>
  No document is altered again after a \<open>DEL\<close> of it, and none is read after a \<open>CREATE_PART\<close> of its
  partition: while the earlier command waits in the queue the database does otherwise.
\<close>

definition calm :: "Command \<Rightarrow> Command \<Rightarrow> bool" where
  "calm c d \<longleftrightarrow> cmdPart c = cmdPart d \<longrightarrow>
    \<not> (cmdType c = DEL \<and> alters (cmdType d) \<and> cmdId c = cmdId d) \<and>
    \<not> (cmdType c = CREATE_PART \<and> cmdType d = GET)"

definition session_line :: "('db, 'ix) ByStateMachine \<Rightarrow> Command \<Rightarrow> bool" where
  "session_line s c \<longleftrightarrow> shardMap s (part_rune c) \<noteq> None \<and> (cmdType c = GET \<or> alters (cmdType c) \<and> storable c)"

lemma calm_queue:
  assumes "\<forall>e \<in> set (pending s). queued_ok js e" and "\<forall>x \<in> ueCmd ` set (pending s). calm x c"
    and "session_line s c"
  shows "alters (cmdType c) \<Longrightarrow> batch_safe s [c]" and "cmdType c = GET \<Longrightarrow> not_recreated L s c"
proof -
  have found: "cmdPart x = cmdPart c \<and> calm x c \<and> (cmdType x = DEL \<longrightarrow> cmdId x = cmdId c)"
    if hit: "findCommandInPending (pending s) c = Some x" for x
  proof -
    obtain e where e: "last_match (pending_matches c) (pending s) = Some e" "x = ueCmd e"
      using hit by (auto simp: findCommandInPending_def)
    then have "pending_matches c e" "e \<in> set (pending s)" using last_match_Some by fastforce+
    with assms(1,2) e(2) wf_commandD(1) [OF queued_okD(3), of js e] show ?thesis
      by (auto simp: pending_matches_def type_defs)
  qed
  show "batch_safe s [c]" if "alters (cmdType c)"
    using found that assms(3)
    by (auto simp: batch_safe_def batch_seen_def one_search_def none_deleted_def session_line_def calm_def
        split: option.split)
  show "not_recreated L s c" if "cmdType c = GET"
    using found that by (auto simp: not_recreated_def calm_def split: option.split)
qed

context raft_over_sm begin

lemma session_runs:
  assumes "reliable_libs L" and "ready w" and "run_inv L (st w)" and "db_view L (st w) = Some m"
    and "map (ParseCommand (libDecode L)) raws = map Inr cmds" and "sorted_wrt calm cmds"
    and "\<forall>x \<in> ueCmd ` set (pending (st w)). \<forall>c \<in> set cmds. calm x c" and "\<forall>c \<in> set cmds. session_line (st w) c"
  shows "\<exists>w'. clientLoop (Crud (libDecode L) R sid t) (commandList (libDecode L)) w (map Inr raws @ [Inr ''exit'']) =
      Done (w', map (\<lambda>r. r @ [CHR 0x0A]) (contract_replies (libDecode L) cmds m), Exited) \<and>
    db_view L (st w') = Some (snd (spec_run (libDecode L) (filter (\<lambda>c. alters (cmdType c)) cmds) m)) \<and>
    run_inv L (st w')"
  using assms(2-8)
proof (induction cmds arbitrary: raws w m)
  case Nil
  have "lowers_to_exit ''exit''" by (simp add: lowers_to_exit_def)
  with Nil show ?case by (simp add: validate_def)
next
  case (Cons c cs)
  obtain raw raws' where raws: "raws = raw # raws'" "ParseCommand (libDecode L) raw = Inr c"
      "map (ParseCommand (libDecode L)) raws' = map Inr cs"
    using Cons.prems(4) by (cases raws) auto
  have ok: "validate (commandList (libDecode L)) raw = Done None" "\<not> lowers_to_exit raw"
    using client_sends_commands [OF raws(2)] by (simp_all add: sends_def)
  have inv: "sm_inv L (st w)" using Cons.prems(2) by (simp add: run_inv_def)
  then have queued: "\<forall>e \<in> set (pending (st w)). queued_ok (libDecode L) e" by (simp add: sm_inv_def)
  have line: "session_line (st w) c" "\<forall>x \<in> ueCmd ` set (pending (st w)). calm x c"
    using Cons.prems(6,7) by simp_all
  note safe = calm_queue [OF queued line(2,1)]
  show ?case
  proof (cases "alters (cmdType c)")
    case True
    then have "storable c" using line(1) by (auto simp: session_line_def type_defs)
    from Crud_alters [OF assms(1) Cons.prems(2,3) raws(2) safe(1) [OF True] this Cons.prems(1), of sid t]
    obtain w1 where w1: "Crud (libDecode L) R sid t w raw = (w1, Inr \<lparr>pbCode = spec_code (libDecode L) c m,
          pbDocument = getHttpResponseString (spec_code (libDecode L) c m), pbDuration = t\<rparr>)"
        "db_view L (st w1) = Some (spec_effect (libDecode L) c m)" "run_inv L (st w1)" "ready w1"
        "dom (shardMap (st w1)) = dom (shardMap (st w))"
        "ueCmd ` set (pending (st w1)) \<subseteq> insert c (ueCmd ` set (pending (st w)))"
      by blast
    have "\<forall>x \<in> ueCmd ` set (pending (st w1)). \<forall>d \<in> set cs. calm x d"
      using w1(6) Cons.prems(5,6) by fastforce
    moreover have "\<forall>d \<in> set cs. session_line (st w1) d"
      using Cons.prems(7) w1(5) by (auto simp: session_line_def domIff set_eq_iff)
    ultimately show ?thesis
      using Cons.IH [OF w1(4,3,2) raws(3)] Cons.prems(5) w1(1) ok raws(1) True by (auto simp: Let_def split_beta)
  next
    case False
    then have get: "cmdType c = GET" "shardMap (st w) (part_rune c) \<noteq> None"
      using line(1) by (simp_all add: session_line_def)
    note crud = Crud_reads [OF assms(1) inv Cons.prems(3) raws(2) get safe(2) [OF get(1)] Cons.prems(1), of sid t]
    from Cons.IH [OF Cons.prems(1-3) raws(3)] Cons.prems(5-7) crud ok raws(1) False
    show ?thesis by auto
  qed
qed

end

section \<open>The client talks to the contract\<close>

text \<open>C19: From the prompt to the database. A session of the client, with a server whose node host does what
  Dragonboat documents over a store that works, and with nothing queued at its start, prints what the
  contract of the database answers to the lines, one after the other, and ends at \<^verbatim>\<open>exit\<close> with the view that
  the contract gives, at whatever points the server syncs. Every line is a \<open>GET\<close> or a command that
  alters the database and is of a size that bolt stores, of a partition with a shard. And the session is calm: after the
  \<open>DEL\<close> of a document no later line that alters the database names the same partition and identifier, and
  after the creation of a partition no later line is a \<open>GET\<close> in it; these are the lines that a queue
  with the \<open>DEL\<close> or the creation in it would make the server misread.\<close>

theorem client_session:
  assumes "raft_over_sm R L st order nxt ready" and "reliable_libs L" and "ready w"
    and "run_inv L (st w)" and "pending (st w) = []" and "db_view L (st w) = Some m"
    and "Hello (libDecode L) marshal R = (msg, commandlist, None)"
    and "unmarshal commandlist = Inr (commandList (libDecode L))"
    and "map (ParseCommand (libDecode L)) raws = map Inr cmds" and "sorted_wrt calm cmds"
    and "\<forall>c \<in> set cmds. session_line (st w) c"
  shows "\<exists>w'. clientMain None (Inr (msg, commandlist)) unmarshal (Crud (libDecode L) R sid t) w
        (map Inr raws @ [Inr ''exit'']) =
      Done (w', (''Server: '' @ msg @ [CHR 0x0A]) #
        map (\<lambda>r. r @ [CHR 0x0A]) (contract_replies (libDecode L) cmds m), Exited) \<and>
    db_view L (st w') = Some (snd (spec_run (libDecode L) (filter (\<lambda>c. alters (cmdType c)) cmds) m)) \<and>
    run_inv L (st w')"
proof -
  have "\<forall>x \<in> ueCmd ` set (pending (st w)). \<forall>c \<in> set cmds. calm x c" using assms(5) by simp
  from raft_over_sm.session_runs [OF assms(1-4,6,9,10) this assms(11), of sid t] assms(8)
  show ?thesis by (auto simp: clientMain_def)
qed

theorem client_session_witness:
  "\<exists>s'. clientMain None (Inr (''server local active'', ''[]'')) (\<lambda>_. Inr (commandList exDecode))
      (Crud exDecode (localRaft exLibs) 128 5) exStored
      [Inr (''GET '' @ ''a'' @ '' '' @ ''x''), Inr (''DEL '' @ ''a'' @ '' '' @ ''x'' @ '' 7''),
       Inr (''GET '' @ ''a'' @ '' '' @ ''x''), Inr ''exit''] =
    Done (s', [''Server: server local active'' @ [CHR 0x0A], textX7 @ [CHR 0x0A], ''ok'' @ [CHR 0x0A],
      ''not found'' @ [CHR 0x0A]], Exited) \<and>
    db_view exLibs s' = Some [''a'' \<mapsto> Map.empty]"
proof -
  let ?d = "cmdDel7 ''a'' ''x''" and ?g = "cmdGet ''a'' ''x''"
  let ?raws = "[''GET '' @ ''a'' @ '' '' @ ''x'', ''DEL '' @ ''a'' @ '' '' @ ''x'' @ '' 7'', ''GET '' @ ''a'' @ '' '' @ ''x'']"
  have parsed: "map (ParseCommand (libDecode exLibs)) ?raws = map Inr [?g, ?d, ?g]"
    using parse_Del7 [OF tokens(1,2), of exDecode] parse_Get [OF tokens(1,2), of exDecode] by simp
  have hello: "Hello (libDecode exLibs) (\<lambda>_. Inr ''[]'') (localRaft exLibs) = (''server local active'', ''[]'', None)"
    by (simp add: Hello_def localRaft_def)
  have calm: "sorted_wrt calm [?g, ?d, ?g]" by (simp add: calm_def cmd_defs type_defs)
  have lines: "\<forall>c \<in> set [?g, ?d, ?g]. session_line exStored c"
    by (simp add: session_line_def cmd_defs part_rune_def type_defs storable_def FullId_def max_key_size_def
        max_value_size_def)
  have code: "spec_code exDecode ?d exContent = 200" using ex_del_code by (simp add: split_beta)
  have eff: "spec_effect exDecode ?d exContent = [''a'' \<mapsto> Map.empty]"
    using code by (simp add: spec_effect_def apply_command_def cmd_defs type_defs exContent_def FullId_def)
  have alt: "alters (cmdType ?d)" "\<not> alters (cmdType ?g)" by (simp_all add: cmd_defs type_defs)
  have seen: "view_answer exContent ?g = Success textX7" "view_answer [''a'' \<mapsto> Map.empty] ?g = NotFound"
    by (simp_all add: view_answer_def sees_def exContent_def cmd_defs FullId_def)
  have replies: "contract_replies exDecode [?g, ?d, ?g] exContent = [textX7, ''ok'', ''not found'']"
    using alt by (simp add: code eff seen getHttpResponseString_def NotFound_def)
  have after: "snd (spec_run exDecode (filter (\<lambda>c. alters (cmdType c)) [?g, ?d, ?g]) exContent) = [''a'' \<mapsto> Map.empty]"
    using alt by (simp add: eff)
  have "pending exStored = []" by simp
  from client_session [OF local_raft.raft_over_sm_axioms reliable_exLibs dom_exStored [symmetric]
      run_inv_exStored this exStored_ok(2) hello _ parsed calm lines, of "\<lambda>_. Inr (commandList exDecode)" 128 5]
  show ?thesis by (auto simp only: exLibs_simps replies after list.map append.simps simp_thms)
qed

end
