(* ===== verification/Logger.thy ===== *)
theory Logger
  imports GoLib
begin

text \<open>
  \<^verbatim>\<open>logger.go\<close>: loggers with a prefix, over the \<^verbatim>\<open>log\<close> package. What a logger writes is a list of lines,
  each the prefix of its \<^verbatim>\<open>log.Logger\<close> and the text; date and time are left out.
\<close>

record Logger =
  lgU :: string
  lgPrefix :: string
  lgDebug :: bool

text \<open>\<^verbatim>\<open>Test\<close>: the environment variable \<^verbatim>\<open>DEBUG\<close>, whatever the prefix.\<close>

definition TestDebug :: "string \<Rightarrow> string \<Rightarrow> bool" where
  "TestDebug debugEnv prefix \<longleftrightarrow> debugEnv = ''true''"

definition Log :: "Logger \<Rightarrow> string \<Rightarrow> string list \<Rightarrow> string list" where
  "Log s text out = out @ [lgU s @ text]"

definition Debug :: "Logger \<Rightarrow> string \<Rightarrow> string list \<Rightarrow> string list" where
  "Debug s text out = (if lgDebug s then Log s text out else out)"

text \<open>\<^verbatim>\<open>Fatal\<close> writes and ends the process with status 1.\<close>

definition Fatal :: "Logger \<Rightarrow> string \<Rightarrow> string list \<Rightarrow> string list \<times> nat" where
  "Fatal s text out = (Log s text out, 1)"

definition ExtendLogger :: "string \<Rightarrow> Logger \<Rightarrow> string \<Rightarrow> Logger" where
  "ExtendLogger debugEnv s prefix =
    (let newPrefix = lgPrefix s @ ''.'' @ prefix
     in \<lparr>lgU = newPrefix @ '': '', lgPrefix = [], lgDebug = TestDebug debugEnv newPrefix\<rparr>)"

definition defaultLogger :: "string \<Rightarrow> Logger" where
  "defaultLogger defPrefix = \<lparr>lgU = defPrefix @ ''bydb'', lgPrefix = ''bydb'', lgDebug = False\<rparr>"

definition NewLogger :: "string \<Rightarrow> string \<Rightarrow> string \<Rightarrow> Logger" where
  "NewLogger debugEnv defPrefix prefix = ExtendLogger debugEnv (defaultLogger defPrefix) prefix"

text \<open>
  The name of a shard's logger: \<^verbatim>\<open>OpenShard\<close> extends the logger of the state machine, whose own prefix
  is empty, so the names of the program and of the component are lost.
\<close>

lemma nested_name:
  "Log (NewLogger debugEnv d ''statemachine'') text [] = [''bydb.statemachine: '' @ text]"
  "Log (ExtendLogger debugEnv (NewLogger debugEnv d ''statemachine'') (''shard-'' @ c)) text [] =
    [''.shard-'' @ c @ '': '' @ text]"
  by (simp_all add: Log_def NewLogger_def ExtendLogger_def defaultLogger_def Let_def)

lemma debug_only_in_debug:
  "Debug (ExtendLogger debugEnv s prefix) text out \<noteq> out \<longleftrightarrow> debugEnv = ''true''"
  by (simp add: Debug_def Log_def ExtendLogger_def TestDebug_def Let_def)

end
