(* ===== verification/IndexMapping.thy ===== *)
theory IndexMapping
  imports Example
begin

text \<open>
  \<^verbatim>\<open>createDefaultMapping\<close> of \<^verbatim>\<open>index.go\<close>: which fields of a document the index of a shard knows. The
  queries that \<open>Search\<close> builds ask for the field \<^verbatim>\<open>part\<close>, which is not one of them; what bleve makes of
  such a clause is bleve's.
\<close>

section \<open>The mapping\<close>

text \<open>What the calls to bleve's mapping package ask for; a mapping that is not dynamic indexes the fields
  it names and no others.\<close>

record textField =
  tfAnalyzer :: string
  tfStore :: bool
  tfIndex :: bool
  tfIncludeInAll :: bool
  tfIncludeTermVectors :: bool

datatype docMapping =
  DocMapping (dmDynamic: bool) (dmSub: "(string \<times> docMapping) list") (dmFields: "(string \<times> textField) list")

definition createDefaultMapping :: docMapping where
  "createDefaultMapping =
    (let indexFieldMapping = DocMapping True [] [];
         storeOnlyFieldMapping = \<lparr>tfAnalyzer = ''keyword'', tfStore = True, tfIndex = True,
           tfIncludeInAll = False, tfIncludeTermVectors = False\<rparr>
     in DocMapping False [(''index'', indexFieldMapping)] [(''categories'', storeOnlyFieldMapping)])"

text \<open>Whether the field at a path is indexed.\<close>

fun maps_path :: "docMapping \<Rightarrow> string list \<Rightarrow> bool" where
  "maps_path (DocMapping dyn subs flds) [] \<longleftrightarrow> False"
| "maps_path (DocMapping dyn subs flds) [f] \<longleftrightarrow>
    (case map_of flds f of
       Some field \<Rightarrow> tfIndex field
     | None \<Rightarrow> dyn \<and> f \<notin> fst ` set subs)"
| "maps_path (DocMapping dyn subs flds) (f # g # fs) \<longleftrightarrow>
    (case map_of subs f of
       Some m \<Rightarrow> maps_path m (g # fs)
     | None \<Rightarrow> dyn)"

lemma mapped_fields:
  "maps_path createDefaultMapping [f] \<longleftrightarrow> f = ''categories''"
  "maps_path createDefaultMapping [''index'', f]"
  by (simp_all add: createDefaultMapping_def Let_def)

end
