(* ===== verification/Replay.thy ===== *)
theory Replay
  imports Contract
begin

text \<open>
  What the contract makes of a log that is applied a second time, from a content that has some of its
  effects already: the situation of a node that stops in the middle of a \<open>Sync\<close>.
\<close>

section \<open>Between two contents\<close>

definition doc_at :: "content \<Rightarrow> string \<Rightarrow> string \<Rightarrow> string option" where
  "doc_at m p k = (case m p of None \<Rightarrow> None | Some b \<Rightarrow> b k)"

lemma content_eqI:
  assumes "\<And>p. m p = None \<longleftrightarrow> n p = None" and "\<And>p k. doc_at m p k = doc_at n p k"
  shows "m = n"
proof
  fix p
  show "m p = n p"
    using assms(1) [of p] assms(2) [of p] by (cases "m p"; cases "n p") (auto simp: doc_at_def fun_eq_iff)
qed

text \<open>Every partition and every document of \<open>R\<close> is as in \<open>S\<close> or as in \<open>F\<close>.\<close>

definition between :: "content \<Rightarrow> content \<Rightarrow> content \<Rightarrow> bool" where
  "between S F R \<longleftrightarrow>
    (\<forall>p. (R p = None \<longleftrightarrow> S p = None) \<or> (R p = None \<longleftrightarrow> F p = None)) \<and>
    (\<forall>p k. doc_at R p k = doc_at S p k \<or> doc_at R p k = doc_at F p k)"

lemma between_same: "between F F R \<Longrightarrow> R = F"
  by (rule content_eqI) (auto simp: between_def)

lemma between_parts: "\<forall>p. R p = S p \<or> R p = F p \<Longrightarrow> between S F R"
  unfolding between_def doc_at_def by metis

text \<open>Only the partition of a command matters.\<close>

lemma between_upd:
  assumes "between S F R" and "\<And>q. q \<noteq> p \<Longrightarrow> S' q = S q" and "\<And>q. q \<noteq> p \<Longrightarrow> R' q = R q"
    and "(R' p = None \<longleftrightarrow> S' p = None) \<or> (R' p = None \<longleftrightarrow> F p = None)"
    and "\<And>k. doc_at R' p k = doc_at S' p k \<or> doc_at R' p k = doc_at F p k"
  shows "between S' F R'"
proof -
  have "(R' q = None \<longleftrightarrow> S' q = None) \<or> (R' q = None \<longleftrightarrow> F q = None)" for q
    using assms(1-4) by (cases "q = p") (auto simp: between_def)
  moreover have "doc_at R' q k = doc_at S' q k \<or> doc_at R' q k = doc_at F q k" for q k
    using assms(1-3,5) by (cases "q = p") (auto simp: between_def doc_at_def)
  ultimately show ?thesis by (simp add: between_def)
qed

section \<open>One command\<close>

lemma spec_code_doc:
  "\<not> part_type (cmdType c) \<Longrightarrow> m (cmdPart c) \<noteq> None \<Longrightarrow> n (cmdPart c) \<noteq> None \<Longrightarrow>
    doc_at m (cmdPart c) (FullId c) = doc_at n (cmdPart c) (FullId c) \<Longrightarrow> spec_code js c m = spec_code js c n"
  by (auto simp: spec_code_def sees_def doc_at_def)

lemma spec_effect_part:
  assumes "part_type (cmdType c)"
  shows "spec_effect js c m = (if cmdType c = CREATE_PART
    then m(cmdPart c \<mapsto> (case m (cmdPart c) of None \<Rightarrow> Map.empty | Some b \<Rightarrow> b)) else m(cmdPart c := None))"
  using assms
  by (cases "m (cmdPart c)")
    (auto simp: spec_effect_def spec_code_def sees_def apply_command_def type_defs Let_def fun_eq_iff)

lemma spec_effect_doc:
  assumes "alters (cmdType c)" and "\<not> part_type (cmdType c)" and "spec_code js c m = 200"
  shows "m (cmdPart c) \<noteq> None \<and> spec_effect js c m =
    m(cmdPart c \<mapsto> (the (m (cmdPart c)))(FullId c := (if cmdType c = DEL then None else Some (cmdBytesDoc c))))"
  using assms
  by (auto simp: spec_effect_def spec_code_def sees_def apply_command_def type_defs Let_def
      split: option.splits if_splits)

text \<open>A command that was accepted in \<open>S\<close> keeps \<open>R\<close> between, whether \<open>R\<close> accepts it or not.\<close>

lemma between_step:
  assumes "between S F R" and "alters (cmdType c)" and "spec_code js c S = 200"
  shows "between (spec_effect js c S) F (spec_effect js c R)"
proof -
  let ?p = "cmdPart c"
  have at: "(R ?p = None \<longleftrightarrow> S ?p = None) \<or> (R ?p = None \<longleftrightarrow> F ?p = None)"
    "\<forall>k. doc_at R ?p k = doc_at S ?p k \<or> doc_at R ?p k = doc_at F ?p k"
    using assms(1) by (auto simp: between_def)
  show ?thesis
  proof (cases "part_type (cmdType c)")
    case True
    show ?thesis
    proof (cases "cmdType c = CREATE_PART")
      case create: True
      have S: "S ?p = None"
        using create assms(3) by (auto simp: spec_code_def sees_def split: option.splits)
      have "doc_at R ?p k = None \<or> doc_at R ?p k = doc_at F ?p k" for k
        using spec [OF at(2), of k] S by (auto simp: doc_at_def)
      with S at(1) create show ?thesis unfolding spec_effect_part [OF True]
        by (intro between_upd [OF assms(1), of ?p]) (cases "R ?p"; simp add: doc_at_def)+
    next
      case False
      then show ?thesis unfolding spec_effect_part [OF True]
        by (intro between_upd [OF assms(1), of ?p]) (auto simp: doc_at_def)
    qed
  next
    case False
    note S = spec_effect_doc [OF assms(2) False assms(3)]
    show ?thesis
    proof (cases "spec_code js c R = 200")
      case True
      note R = spec_effect_doc [OF assms(2) False True]
      with S at(2) show ?thesis
        by (intro between_upd [OF assms(1), of ?p]) (auto simp: doc_at_def)
    next
      case no: False
      then have R: "spec_effect js c R = R" by (simp add: spec_effect_def)
      have "R ?p = None \<or> doc_at R ?p (FullId c) \<noteq> doc_at S ?p (FullId c)"
        using no assms(3) spec_code_doc [OF False, of R S js] S by metis
      with at S have "doc_at R ?p (FullId c) = doc_at F ?p (FullId c)"
        by (auto simp: doc_at_def split: option.splits)
      with S R at show ?thesis
        by (intro between_upd [OF assms(1), of ?p]) (auto simp: doc_at_def split: option.splits)
    qed
  qed
qed

section \<open>A log\<close>

lemma between_run:
  "between S F R \<Longrightarrow> \<forall>c \<in> set cs. alters (cmdType c) \<Longrightarrow> set (fst (spec_run js cs S)) \<subseteq> {200} \<Longrightarrow>
    between (snd (spec_run js cs S)) F (snd (spec_run js cs R))"
proof (induction cs arbitrary: S R)
  case Nil
  then show ?case by simp
next
  case (Cons c cs)
  then show ?case using between_step [of S F R c js] by (simp add: split_beta)
qed

text \<open>A log that was accepted without exception leads from any mixture of the contents before and after
  it to the content after it.\<close>

lemma replay_accepted:
  assumes "spec_run js cs m = (codes, F)" and "set codes \<subseteq> {200}" and "\<forall>c \<in> set cs. alters (cmdType c)"
    and "\<forall>p. R p = m p \<or> R p = F p"
  shows "snd (spec_run js cs R) = F"
  using between_run [OF between_parts [OF assms(4)] assms(3), of js] assms(1,2) by (auto dest: between_same)

end
