(* ===== verification/TornSync.thy ===== *)
theory TornSync
  imports Concurrent Restart Replay
begin

text \<open>
  A node that stops in the middle of a \<open>Sync\<close>. The shards are written in transactions of their own, and
  the index of the last update after all of them; a node that stops in between has some shards ahead of
  the index, and the log is applied to them a second time.
\<close>

section \<open>What is on disk\<close>

text \<open>\<open>u\<close>: the first \<open>k\<close> shards of a walk have been written.\<close>

definition torn_sync ::
  "('db, 'ix) libs \<Rightarrow> ('db, 'ix) ByStateMachine \<Rightarrow> rune list \<Rightarrow> ('db, 'ix) ByStateMachine \<Rightarrow> bool" where
  "torn_sync L s written u \<longleftrightarrow> distinct written \<and> set written \<subseteq> dom (shardMap s) \<and>
    applyShards L written (s\<lparr>lastIndex := findHighestIndexInPending s\<rparr>) = Done u"

text \<open>The content of the written shards from one content, that of the others from another.\<close>

definition torn_content :: "rune list \<Rightarrow> content \<Rightarrow> content \<Rightarrow> content" where
  "torn_content written m F p = (if getFirstRune p \<in> set written then F p else m p)"

context reliable_libs begin

lemma torn_state:
  assumes "run_inv L s" and "db_view L s = Some F" and "torn_sync L s written u"
  shows "state_content L u = torn_content written (state_content L s) F" and "metaDb u = metaDb s"
    and "dom (shardMap u) = dom (shardMap s)"
proof -
  have inv: "sm_inv L s" "\<forall>e \<in> set (pending s). storable (ueCmd e)"
    using assms(1) by (auto simp: run_inv_def list_all_iff)
  have walk: "distinct written" "set written \<subseteq> dom (shardMap s)" using assms(3) by (simp_all add: torn_sync_def)
  have "applyShards L written (s\<lparr>lastIndex := findHighestIndexInPending s\<rparr>) = Done u"
    using assms(3) by (simp add: torn_sync_def)
  from this [unfolded applyShards_eq [OF walk(1)]]
  have u: "shardMap u = applied_map L s written" "metaDb u = metaDb s" by simp_all
  then show "metaDb u = metaDb s" by simp
  have each: "\<exists>shard'. shardMap u c = Some shard' \<and> (\<forall>p. getFirstRune p = c \<longrightarrow> shard_content L shard' p = F p)"
    if c: "c \<in> set written" for c
  proof -
    obtain shard where "shardMap s c = Some shard" using c walk(2) by blast
    from applied_ok [OF inv(1) assms(2) inv(2) this] c u(1) show ?thesis by (auto simp: applied_map_def)
  qed
  show "state_content L u = torn_content written (state_content L s) F"
  proof
    fix p
    show "state_content L u p = torn_content written (state_content L s) F p"
    proof (cases "getFirstRune p \<in> set written")
      case True
      with each [OF True] show ?thesis by (auto simp: state_content_def torn_content_def)
    next
      case False
      with u(1) show ?thesis by (simp add: state_content_def torn_content_def applied_map_def)
    qed
  qed
  have "shardMap u c = None \<longleftrightarrow> shardMap s c = None" for c
    using each [of c] walk(2) u(1) by (cases "c \<in> set written") (auto simp: applied_map_def)
  then show "dom (shardMap u) = dom (shardMap s)" by (auto simp: dom_def)
qed

text \<open>A \<open>Sync\<close> that works can be interrupted after any of its shards.\<close>

lemma torn_possible:
  assumes "run_inv L s" and "distinct written" and "set written \<subseteq> dom (shardMap s)"
  shows "\<exists>u. torn_sync L s written u"
proof -
  obtain m where m: "sm_inv L s" "db_view L s = Some m" using assms(1) by (auto simp: run_inv_def sm_inv_def)
  have store: "\<forall>e \<in> set (pending s). storable (ueCmd e)" using assms(1) by (simp add: run_inv_def list_all_iff)
  have "applied L s c \<noteq> None" if c: "c \<in> set written" for c
  proof -
    obtain shard where "shardMap s c = Some shard" using c assms(3) by blast
    from applied_ok [OF m store this] show ?thesis by auto
  qed
  then show ?thesis using assms(2,3) by (auto simp: torn_sync_def applyShards_eq [OF assms(2)])
qed

text \<open>The node opens with the old index and the torn content.\<close>

lemma torn_open:
  assumes "run_inv L s" and "pending s = []" and "stored_index L s = Done (i, None)" and "db_view L s = Some m"
    and "runs (sm_step L) s es s'" and "Synced \<notin> set es" and "db_view L s' = Some F"
    and "torn_sync L s' written u" and "on_disk P prefix u"
  shows "\<exists>t. Open L P prefix NewByStateMachine = Done (t, i, None) \<and> run_inv L t \<and>
    (\<exists>fs t'. runs (sm_step L) t fs t' \<and> log_of fs = log_of es) \<and>
    db_view L t = Some (torn_content written m F)"
proof -
  have inv': "run_inv L s'" by (rule run_inv_runs [OF assms(1,5)])
  have same: "shardMap s' = shardMap s" "metaDb s' = metaDb s"
    using unsynced_shards [OF assms(1,5,6)] by simp_all
  have m: "state_content L s = m" using assms(2,4) by (simp add: db_view_def)
  note torn = torn_state [OF inv' assms(7,8)]
  have "state_content L s' = m" using same(1) m by (simp add: state_content_def fun_eq_iff)
  then have u: "state_content L u = torn_content written m F" using torn(1) by simp
  obtain meta where meta: "metaDb s = Some meta" using assms(1) by (auto simp: run_inv_def meta_ready_def split: option.splits)
  have "stored_index L u = stored_index L s" "meta_ready L u = meta_ready L s"
    using stored_index_content [of u meta s meta] meta torn(2) same(2) by simp_all
  then have ready: "meta_ready L u" "stored_index L u = Done (i, None)"
    using assms(1,3) by (simp_all add: run_inv_def)
  obtain t where t: "Open L P prefix NewByStateMachine = Done (t, i, None)" "shardMap t = shardMap u"
      "pending t = []" "meta_ready L t"
    using Open_again [OF assms(9) ready] by blast
  have content: "state_content L t = torn_content written m F"
    using u t(2) by (simp add: state_content_def fun_eq_iff)
  have "content_ok (libDecode L) m" "content_ok (libDecode L) F"
    using view_ok assms(1,4,7) inv' by (auto simp: run_inv_def)
  then have "content_ok (libDecode L) (torn_content written m F)"
    by (simp add: content_ok_def torn_content_def)
  with content t(3,4) have "run_inv L t" "db_view L t = Some (torn_content written m F)"
    by (simp_all add: run_inv_def sm_inv_def db_view_def)
  moreover have dom: "dom (shardMap t) = dom (shardMap s)" using t(2) torn(3) same(1) by simp
  moreover have "set alphabet_runes = dom (shardMap t)" using assms(9) t(2) by (simp add: on_disk_def)
  ultimately show ?thesis
    using t(1,3) replay_exists [OF assms(1,5) _ _ dom distinct_alphabet_runes] by blast
qed

end

section \<open>A concrete disk\<close>

lemma ex_torn:
  assumes "runs (sm_step exLibs) exStored es s'"
  shows "\<exists>u. torn_sync exLibs s' alphabet_runes u \<and> on_disk (diskOf ''n'' u) ''n'' u"
proof -
  have inv: "run_inv exLibs s'" by (rule reliable_libs.run_inv_runs [OF reliable_exLibs run_inv_exStored assms])
  have dom: "dom (shardMap s') = set alphabet_runes"
    using reliable_libs.run_dom [OF reliable_exLibs run_inv_exStored assms] dom_exStored by simp
  then obtain u where u: "torn_sync exLibs s' alphabet_runes u"
    using reliable_libs.torn_possible [OF reliable_exLibs inv distinct_alphabet_runes] by blast
  obtain F where "db_view exLibs s' = Some F" using inv by (auto simp: run_inv_def sm_inv_def)
  from reliable_libs.torn_state [OF reliable_exLibs inv this u] dom inv
  have "dom (shardMap u) = set alphabet_runes" "metaDb u \<noteq> None"
    by (auto simp: run_inv_def meta_ready_def split: option.splits)
  from on_diskOf [OF this] u show ?thesis by blast
qed

section \<open>A log without refusals\<close>

text \<open>C10: A node that stops in the middle of a \<open>Sync\<close>, with any of its shards written, recovers if the log since
  the last \<open>Sync\<close> was applied in safe batches (see C1, C2: no two commands of a batch meet, and so on) and every
  command of it was answered 200: it opens with the index from before, and once the log from there on has
  been applied again, in safe batches, to shards some of which have it already, the view is the one that
  was lost, although the second answers may differ from the first; and there is such a way to apply it. A
  batch that is not safe, of the kind whose \<open>Sync\<close> panics, is not covered.\<close>

theorem torn_sync_recovers:
  assumes "reliable_libs L" and "run_inv L s" and "pending s = []" and "stored_index L s = Done (i, None)"
    and "runs (sm_step L) s es s'" and "Synced \<notin> set es" and "set (codes_of es) \<subseteq> {200}"
    and "torn_sync L s' written u" and "on_disk P prefix u"
  shows "\<exists>t. Open L P prefix NewByStateMachine = Done (t, i, None) \<and>
    (\<exists>fs t'. runs (sm_step L) t fs t' \<and> log_of fs = log_of es) \<and>
    (\<forall>fs t'. runs (sm_step L) t fs t' \<and> log_of fs = log_of es \<longrightarrow> db_view L t' = db_view L s')"
proof -
  obtain m where m: "db_view L s = Some m" using assms(2) by (auto simp: run_inv_def sm_inv_def)
  obtain F where F: "db_view L s' = Some F" "spec_run (libDecode L) (log_of es) m = (codes_of es, F)"
    using reliable_libs.run_refines [OF assms(1,2) m assms(5)] spec_history by blast
  obtain t where t: "Open L P prefix NewByStateMachine = Done (t, i, None)" "run_inv L t"
      "db_view L t = Some (torn_content written m F)" "\<exists>fs t'. runs (sm_step L) t fs t' \<and> log_of fs = log_of es"
    using reliable_libs.torn_open [OF assms(1-4) m assms(5,6) F(1) assms(8,9)] by blast
  have "db_view L t' = db_view L s'" if run: "runs (sm_step L) t fs t'" and log: "log_of fs = log_of es" for fs t'
  proof -
    have "\<exists>m'. db_view L t' = Some m' \<and>
        spec_run (libDecode L) (log_of fs) (torn_content written m F) = (codes_of fs, m')"
      using reliable_libs.run_refines [OF assms(1) t(2,3) run] spec_history by blast
    moreover have "snd (spec_run (libDecode L) (log_of es) (torn_content written m F)) = F"
      using F(2) assms(7) run_alters [OF assms(5)]
      by (rule replay_accepted) (simp add: torn_content_def)
    ultimately show ?thesis using F(1) log by auto
  qed
  with t(1,4) show ?thesis by blast
qed

theorem torn_sync_recovers_witness:
  "\<exists>s' u t fs t'. sm_step exLibs exStored (Wrote [cmdDel7 ''a'' ''x''] [200]) s' \<and>
    torn_sync exLibs s' alphabet_runes u \<and>
    Open exLibs (diskOf ''n'' u) ''n'' NewByStateMachine = Done (t, 0, None) \<and>
    runs (sm_step exLibs) t fs t' \<and> log_of fs = [cmdDel7 ''a'' ''x''] \<and> db_view exLibs t' = db_view exLibs s'"
proof -
  let ?es = "[Wrote [cmdDel7 ''a'' ''x''] [200]]"
  obtain s' where s': "sm_step exLibs exStored (Wrote [cmdDel7 ''a'' ''x''] [200]) s'" using ex_del by blast
  then have run: "runs (sm_step exLibs) exStored ?es s'" by simp
  obtain u where u: "torn_sync exLibs s' alphabet_runes u" "on_disk (diskOf ''n'' u) ''n'' u"
    using ex_torn [OF run] by blast
  have "Synced \<notin> set ?es" "set (codes_of ?es) \<subseteq> {200}" "pending exStored = []" by simp_all
  from torn_sync_recovers [OF reliable_exLibs run_inv_exStored this(3) ex_stored_index run this(1,2) u]
  show ?thesis using s' u(1) by fastforce
qed

section \<open>A log with a refusal\<close>

text \<open>The contract on a \<open>POST\<close> of a document and a \<open>DEL\<close> of it, from where the document is there and
  from where it has been deleted.\<close>

lemma post_del:
  assumes "cmdType c = POST" and "cmdType d = DEL" and "cmdPart d = cmdPart c" and "cmdId d = cmdId c"
    and "wf_command js c" and "docUpdated (the (cmdDoc c)) \<noteq> cmdTs d"
    and "spec_run js [c, d] m = ([409, 200], F)" and "T (cmdPart c) = F (cmdPart c)"
  shows "\<exists>m'. spec_run js [c, d] T = ([200, 409], m') \<and> m' \<noteq> F"
proof -
  have key: "FullId d = FullId c" using assms(3,4) by (simp add: FullId_def)
  have "spec_code js c m = 409" "spec_code js d (spec_effect js c m) = 200" "F = spec_effect js d (spec_effect js c m)"
    using assms(7) by auto
  then have del: "spec_code js d m = 200" "F = spec_effect js d m" by (simp_all add: spec_effect_def)
  have alt: "alters (cmdType d)" "\<not> part_type (cmdType d)" "alters (cmdType c)" "\<not> part_type (cmdType c)"
    using assms(1,2) by (simp_all add: type_defs)
  from spec_effect_doc [OF alt(1,2) del(1)] del(2) assms(2,3) key
  have "sees F c = (True, None)" by (simp add: sees_def)
  then have seen: "sees T c = (True, None)" using assms(8) by (simp add: sees_def)
  then have post: "spec_code js c T = 200" using assms(1) by (simp add: spec_code_POST)
  let ?T = "spec_effect js c T"
  have T: "sees ?T c = (True, Some (cmdBytesDoc c))" "sees ?T d = (True, Some (cmdBytesDoc c))"
    using spec_effect_doc [OF alt(3,4) post] assms(1,3) key by (simp_all add: sees_def)
  have "stored_updated js (cmdBytesDoc c) = Some (docUpdated (the (cmdDoc c)))"
    using wf_commandD(5) [OF assms(5)] assms(1) by (simp add: stored_updated_def type_defs)
  then have "spec_code js d ?T = 409" using T(2) assms(2,6) by (simp add: spec_code_def)
  then have "spec_run js [c, d] T = ([200, 409], ?T)" using post by (simp add: spec_effect_def)
  moreover have "?T \<noteq> F" using T(1) \<open>sees F c = (True, None)\<close> by auto
  ultimately show ?thesis by blast
qed

text \<open>A refused command is not queued.\<close>

lemma refused_not_queued:
  assumes "sm_inv L s" and "db_view L s = Some m" and "sm_step L s (Wrote [c] codes) s'"
    and "spec_code (libDecode L) c m \<noteq> 200"
  shows "pending s' = pending s"
proof -
  from assms(3) obtain order ups ups' where st: "distinct order" "set order = dom (shardMap s)"
      "map (\<lambda>en. ParseCommand (libDecode L) (enCmd en)) ups = map Inr [c]" "batch_safe s [c]"
      "Update L order s ups = Done (s', ups', None)"
    unfolding sm_step_wrote by blast
  from Update_seen(2) [OF assms(1,2) st(1-3) _ st(5)] st(4)
  obtain q where q: "s' = s\<lparr>pending := pending s @ q\<rparr>"
      "map ueCmd q = concat (map (\<lambda>r. filter (\<lambda>x. part_rune x = r \<and> spec_code (libDecode L) x m = 200) [c]) order)"
    by (auto simp: batch_safe_def)
  then have "map ueCmd q = []" using assms(4) by simp
  then have "q = []" by simp
  with q(1) show ?thesis by simp
qed

text \<open>C11: After a refusal a torn \<open>Sync\<close> makes the replicas diverge. The log since the last \<open>Sync\<close> is a
  \<open>POST\<close> of a document that is there, refused, and a \<open>DEL\<close> of it, accepted; the node stops in its \<open>Sync\<close>
  after the shard of the document is written. When the log is applied again, the \<open>POST\<close> finds the
  document gone and is accepted, the \<open>DEL\<close> finds another time stamp and is refused, and the node holds a
  document that the others do not have. The state machine depends on an atomicity that its \<open>Sync\<close> does
  not provide.\<close>

theorem torn_sync_diverges:
  assumes "reliable_libs L" and "run_inv L s" and "pending s = []" and "stored_index L s = Done (i, None)"
    and "runs (sm_step L) s es s'" and "Synced \<notin> set es"
    and "log_of es = [c, d]" and "codes_of es = [409, 200]"
    and "ParseCommand (libDecode L) raw = Inr c" and "cmdType c = POST" and "cmdType d = DEL"
    and "cmdPart d = cmdPart c" and "cmdId d = cmdId c" and "docUpdated (the (cmdDoc c)) \<noteq> cmdTs d"
    and "torn_sync L s' written u" and "part_rune c \<in> set written" and "on_disk P prefix u"
  shows "\<exists>t. Open L P prefix NewByStateMachine = Done (t, i, None) \<and>
    (\<exists>fs t'. runs (sm_step L) t fs t' \<and> log_of fs = [c, d]) \<and>
    (\<forall>fs t'. runs (sm_step L) t fs t' \<and> log_of fs = [c, d] \<longrightarrow>
      codes_of fs = [200, 409] \<and> db_view L t' \<noteq> db_view L s')"
proof -
  obtain m where m: "db_view L s = Some m" using assms(2) by (auto simp: run_inv_def sm_inv_def)
  obtain F where F: "db_view L s' = Some F" "spec_run (libDecode L) [c, d] m = ([409, 200], F)"
    using reliable_libs.run_refines [OF assms(1,2) m assms(5)] spec_history assms(7,8) by fastforce
  obtain t where t: "Open L P prefix NewByStateMachine = Done (t, i, None)" "run_inv L t"
      "db_view L t = Some (torn_content written m F)" "\<exists>fs t'. runs (sm_step L) t fs t' \<and> log_of fs = log_of es"
    using reliable_libs.torn_open [OF assms(1-4) m assms(5,6) F(1) assms(15,17)] by blast
  have wf: "wf_command (libDecode L) c" using assms(9) wire_wf by (simp add: ParseCommand_iff_wire)
  have "torn_content written m F (cmdPart c) = F (cmdPart c)"
    using assms(16) by (simp add: torn_content_def part_rune_def)
  from post_del [where T = "torn_content written m F", OF assms(10-13) wf assms(14) F(2) this]
  obtain m' where m': "spec_run (libDecode L) [c, d] (torn_content written m F) = ([200, 409], m')" "m' \<noteq> F"
    by blast
  have "codes_of fs = [200, 409] \<and> db_view L t' \<noteq> db_view L s'"
    if run: "runs (sm_step L) t fs t'" and log: "log_of fs = [c, d]" for fs t'
  proof -
    have "\<exists>m''. db_view L t' = Some m'' \<and>
        spec_run (libDecode L) (log_of fs) (torn_content written m F) = (codes_of fs, m'')"
      using reliable_libs.run_refines [OF assms(1) t(2,3) run] spec_history by blast
    with m' log F(1) show ?thesis by auto
  qed
  with t(1,4) assms(7) show ?thesis by auto
qed

lemma ex_post_step:
  "\<exists>s1. sm_step exLibs exStored (Wrote [cmdPost textX8 (exDoc ''a'' ''x'' 8)] [409]) s1 \<and> pending s1 = []"
proof -
  let ?c = "cmdPost textX8 (exDoc ''a'' ''x'' 8)"
  have parsed: "map (\<lambda>en. ParseCommand (libDecode exLibs) (enCmd en)) [exEntry 1 (''POST '' @ textX8)] = map Inr [?c]"
    using parse_Post [of textX8 exDecode] by simp
  have "batch_safe exStored [?c]" "list_all storable [?c]"
    by (simp_all add: batch_safe_def batch_seen_def one_search_def none_deleted_def findCommandInPending_def
        cmd_defs part_rune_def type_defs storable_def FullId_def max_key_size_def max_value_size_def text_defs)
  from reliable_libs.wrote_possible [OF reliable_exLibs run_inv_exStored exStored_ok(2) distinct_alphabet_runes
      dom_exStored parsed this]
  obtain s1 where s1: "sm_step exLibs exStored (Wrote [?c] (fst (spec_run exDecode [?c] exContent))) s1" by auto
  have code: "spec_code exDecode ?c exContent = 409"
    by (simp add: spec_code_def sees_def cmd_defs exContent_def FullId_def)
  with refused_not_queued [OF exStored_ok(1,2) s1] s1 show ?thesis by (simp add: split_beta) blast
qed

theorem torn_sync_diverges_witness:
  "\<exists>s' u t fs t'. runs (sm_step exLibs) exStored
      [Wrote [cmdPost textX8 (exDoc ''a'' ''x'' 8)] [409], Wrote [cmdDel7 ''a'' ''x''] [200]] s' \<and>
    torn_sync exLibs s' alphabet_runes u \<and>
    Open exLibs (diskOf ''n'' u) ''n'' NewByStateMachine = Done (t, 0, None) \<and>
    runs (sm_step exLibs) t fs t' \<and> codes_of fs = [200, 409] \<and> db_view exLibs t' \<noteq> db_view exLibs s'"
proof -
  let ?c = "cmdPost textX8 (exDoc ''a'' ''x'' 8)" and ?d = "cmdDel7 ''a'' ''x''"
  let ?es = "[Wrote [?c] [409], Wrote [?d] [200]]"
  obtain s1 where s1: "sm_step exLibs exStored (Wrote [?c] [409]) s1" "pending s1 = []"
    using ex_post_step by blast
  have run1: "runs (sm_step exLibs) exStored [Wrote [?c] [409]] s1" using s1(1) by simp
  have view: "run_inv exLibs s1 \<and> db_view exLibs s1 = Some exContent"
    using reliable_libs.run_refines [OF reliable_exLibs run_inv_exStored exStored_ok(2) run1]
    by (auto simp: spec_effect_def)
  have "set alphabet_runes = dom (shardMap s1)"
    using reliable_libs.run_dom [OF reliable_exLibs run_inv_exStored run1] dom_exStored by simp
  with view s1(2) obtain s' where "sm_step exLibs s1 (Wrote [?d] [200]) s'" using ex_del_from by blast
  with s1(1) have run: "runs (sm_step exLibs) exStored ?es s'" by auto
  obtain u where u: "torn_sync exLibs s' alphabet_runes u" "on_disk (diskOf ''n'' u) ''n'' u"
    using ex_torn [OF run] by blast
  have es: "Synced \<notin> set ?es" "log_of ?es = [?c, ?d]" "codes_of ?es = [409, 200]" "pending exStored = []"
    by simp_all
  have parsed: "ParseCommand (libDecode exLibs) (''POST '' @ textX8) = Inr ?c"
    using parse_Post [of textX8 exDecode] by simp
  have cd: "cmdType ?c = POST" "cmdType ?d = DEL" "cmdPart ?d = cmdPart ?c" "cmdId ?d = cmdId ?c"
      "docUpdated (the (cmdDoc ?c)) \<noteq> cmdTs ?d" "part_rune ?c \<in> set alphabet_runes"
    by (simp_all add: cmd_defs part_rune_def alphabet_runes_eq)
  from torn_sync_diverges [OF reliable_exLibs run_inv_exStored es(4) ex_stored_index run es(1-3) parsed cd(1-5)
      u(1) cd(6) u(2)]
  show ?thesis using run u(1) by blast
qed

end
