(* ===== verification/SnapshotTransfer.thy ===== *)
theory SnapshotTransfer
  imports Snapshot Concurrent Restart Replay
begin

text \<open>
  What a snapshot carries from one replica to another. It packs the files, so it has the databases and not
  the queue of the sender; and recovering from it writes files below the databases that the receiver has
  open, and leaves its queue as it is.
\<close>

section \<open>Databases and files\<close>

text \<open>
  \<open>rd\<close> stands for what bolt reads from the bytes of a file. A database that is open is mapped into memory
  from its file, so what is written into the file is seen through it; a path with no file there leaves it as
  it is. The open indexes of bleve keep what they have.
\<close>

definition mapped :: "(string \<Rightarrow> 'db) \<Rightarrow> fsys \<Rightarrow> string \<Rightarrow> 'db \<Rightarrow> 'db" where
  "mapped rd fs path db = (case fs path of Some (FFile m bytes) \<Rightarrow> rd bytes | _ \<Rightarrow> db)"

definition blockFile :: "string \<Rightarrow> rune \<Rightarrow> string" where
  "blockFile prefix r = Join [BlockPath prefix, [char_of r]]"

definition seen_files ::
  "(string \<Rightarrow> 'db) \<Rightarrow> string \<Rightarrow> fsys \<Rightarrow> ('db, 'ix) ByStateMachine \<Rightarrow> ('db, 'ix) ByStateMachine" where
  "seen_files rd prefix fs s = s\<lparr>
     shardMap := (\<lambda>r. map_option (\<lambda>sh. sh\<lparr>shBlock := mapped rd fs (blockFile prefix r) (shBlock sh)\<rparr>) (shardMap s r)),
     metaDb := map_option (mapped rd fs (MetaDbPath prefix)) (metaDb s)\<rparr>"

text \<open>The databases of a state are in the files of its data directory: what bolt reads there is what it holds.\<close>

definition on_files :: "(string \<Rightarrow> 'db) \<Rightarrow> string \<Rightarrow> fsys \<Rightarrow> ('db, 'ix) ByStateMachine \<Rightarrow> bool" where
  "on_files rd prefix fs s \<longleftrightarrow> dom (shardMap s) = set alphabet_runes \<and>
    (\<forall>r sh. shardMap s r = Some sh \<longrightarrow> (\<exists>m bytes. fs (blockFile prefix r) = Some (FFile m bytes) \<and> shBlock sh = rd bytes)) \<and>
    (\<exists>meta m bytes. metaDb s = Some meta \<and> fs (MetaDbPath prefix) = Some (FFile m bytes) \<and> meta = rd bytes)"

text \<open>The data directory is there, under a cleaned path; and a tree is what lies below it.\<close>

definition data_dir :: "string \<Rightarrow> fsys \<Rightarrow> bool" where
  "data_dir prefix fs \<longleftrightarrow> unpack_dir (DataPath prefix) (DataPath prefix) fs \<and> fs (Clean (DataPath prefix)) \<noteq> None"

definition tree_at :: "string \<Rightarrow> fsys \<Rightarrow> tree \<Rightarrow> bool" where
  "tree_at d fs ts \<longleftrightarrow> (\<forall>es n. rel_path es \<longrightarrow> ((es, n) \<in> set ts \<longleftrightarrow> fs (at d es) = Some n))"

definition packable :: "tree \<Rightarrow> bool" where
  "packable ts \<longleftrightarrow> parents_first {} ts \<and> (\<forall>(es, n) \<in> set ts. n \<noteq> FSocket)"

text \<open>A node that can send its data directory, and one that can take it in: no longer file and no other kind
  of node is in the way there.\<close>

definition sender :: "(string \<Rightarrow> 'db) \<Rightarrow> string \<Rightarrow> fsys \<Rightarrow> tree \<Rightarrow> ('db, 'ix) ByStateMachine \<Rightarrow> bool" where
  "sender rd prefix fs ts s \<longleftrightarrow> data_dir prefix fs \<and> tree_at (DataPath prefix) fs ts \<and> packable ts \<and>
    src_once (DataPath prefix) ts \<and> on_files rd prefix fs s"

definition receiver :: "string \<Rightarrow> fsys \<Rightarrow> tree \<Rightarrow> ('db, 'ix) ByStateMachine \<Rightarrow> bool" where
  "receiver prefix fs ts r \<longleftrightarrow> data_dir prefix fs \<and> (\<forall>t \<in> set ts. room (DataPath prefix) fs t) \<and>
    dom (shardMap r) = set alphabet_runes \<and> metaDb r \<noteq> None"

text \<open>What is packed, and the tree as the holder of the databases.\<close>

definition packed :: "tree \<Rightarrow> tarHeader list" where
  "packed ts = \<lparr>thName = [], thType = TypeDir, thMode = 0, thData = []\<rparr> # map header_of ts"

definition tree_holds :: "(string \<Rightarrow> 'db) \<Rightarrow> tree \<Rightarrow> ('db, 'ix) ByStateMachine \<Rightarrow> bool" where
  "tree_holds rd ts s \<longleftrightarrow> dom (shardMap s) = set alphabet_runes \<and>
    (\<forall>r sh. shardMap s r = Some sh \<longrightarrow> (\<exists>m bytes. ([''block'', [char_of r]], FFile m bytes) \<in> set ts \<and> shBlock sh = rd bytes)) \<and>
    (\<exists>meta m bytes. metaDb s = Some meta \<and> ([''meta.bolt''], FFile m bytes) \<in> set ts \<and> meta = rd bytes)"

section \<open>Paths\<close>

lemma data_paths:
  assumes "unpack_dir (DataPath prefix) (DataPath prefix) fs"
  shows "MetaDbPath prefix = at (DataPath prefix) [''meta.bolt'']"
    and "r \<in> set alphabet_runes \<Longrightarrow> blockFile prefix r = at (DataPath prefix) [''block'', [char_of r]]"
proof -
  let ?d = "DataPath prefix"
  have b: "below ?d = ?d @ [slash]" using assms by (simp add: unpack_dir_def)
  show "MetaDbPath prefix = at ?d [''meta.bolt'']"
    using b Join_below [of ?d "''meta.bolt''"] by (simp add: MetaDbPath_def at_def)
  have block: "BlockPath prefix = ?d @ slash # ''block''"
    using b Join_below [of ?d "''block''"] by (simp add: BlockPath_def)
  then have "below (BlockPath prefix) = ?d @ slash # ''block'' @ [slash]"
    using b below_snoc [of ?d "''block''"] by simp
  moreover assume "r \<in> set alphabet_runes"
  then have "plain_elem [char_of r]" using plain_letter by (auto simp: set_alphabet_runes)
  ultimately show "blockFile prefix r = at ?d [''block'', [char_of r]]"
    using Join_below [of "BlockPath prefix" "[char_of r]"] by (simp add: blockFile_def at_def)
qed

lemma rel_paths: "rel_path [''meta.bolt'']" "r \<in> set alphabet_runes \<Longrightarrow> rel_path [''block'', [char_of r]]"
  using plain_letter by (auto simp: rel_path_def set_alphabet_runes)

section \<open>Sending and receiving\<close>

lemma stored_index_meta: "metaDb s = metaDb t \<Longrightarrow> stored_index L s = stored_index L t"
  by (cases "metaDb t") (simp_all add: stored_index_def getLastUpdateIndex_def Let_def split_beta)

text \<open>The contents of a state are those of its blocks.\<close>

definition same_blocks :: "('db, 'ix) ByStateMachine \<Rightarrow> ('db, 'ix) ByStateMachine \<Rightarrow> bool" where
  "same_blocks s t \<longleftrightarrow>
    (\<forall>r. map_option shBlock (shardMap s r) = map_option shBlock (shardMap t r)) \<and> metaDb s = metaDb t"

lemma same_blocks_content:
  assumes "same_blocks s t"
  shows "state_content L s = state_content L t" and "dom (shardMap s) = dom (shardMap t)"
    and "stored_index L s = stored_index L t" and "meta_ready L s = meta_ready L t"
proof -
  have r: "map_option shBlock (shardMap s r) = map_option shBlock (shardMap t r)" for r
    using assms by (simp add: same_blocks_def)
  show "state_content L s = state_content L t"
  proof
    fix p
    from r [of "getFirstRune p"] show "state_content L s p = state_content L t p"
      by (auto simp: state_content_def shard_content_def map_option_case split: option.splits)
  qed
  have "shardMap s r = None \<longleftrightarrow> shardMap t r = None" for r using r [of r] by (metis option.map_disc_iff)
  then show "dom (shardMap s) = dom (shardMap t)" by (auto simp: dom_def)
  show "stored_index L s = stored_index L t" "meta_ready L s = meta_ready L t"
    using assms stored_index_meta by (auto simp: same_blocks_def meta_ready_def)
qed

lemma sender_packs:
  assumes "sender rd prefix fs ts s"
  shows "Tar fs (DataPath prefix) (tree_walk (DataPath prefix) ts) = (packed ts, None)" and "tree_holds rd ts s"
    and "packable ts"
proof -
  let ?d = "DataPath prefix"
  have dir: "unpack_dir ?d ?d fs" "fs (Clean ?d) \<noteq> None" and src: "src_once ?d ts"
    and tree: "tree_at ?d fs ts" and files: "on_files rd prefix fs s"
    using assms by (simp_all add: sender_def data_dir_def)
  show pack: "packable ts" using assms by (simp add: sender_def)
  then have "tarWalk ?d (map (\<lambda>(es, n). (at ?d es, Visit n None)) ts) = (map header_of ts, None)"
    by (intro tarWalk_tree [OF src order_refl]) (simp add: packable_def)
  then show "Tar fs ?d (tree_walk ?d ts) = (packed ts, None)"
    using headerName_root [of ?d] dir(2) by (simp add: Tar_def tree_walk_def tarEntry_def packed_def)
  note paths = data_paths [OF dir(1)]
  show "tree_holds rd ts s"
    using files tree rel_paths paths unfolding tree_holds_def on_files_def tree_at_def
    by (metis domI)
qed

lemma PrepareSnapshot_state:
  assumes "PrepareSnapshot L encode prefix walk fs s = Done (s', fs', Some path, None)"
  shows "\<exists>i. stored_index L s = Done (i, None) \<and> s' = s\<lparr>lastIndex := i\<rparr>"
proof -
  obtain t i err where get: "getLastUpdateIndex L s = Done (t, i, err)"
    using assms by (cases "getLastUpdateIndex L s") (auto simp: PrepareSnapshot_def)
  with assms have "err = None" "s' = t"
    by (auto simp: PrepareSnapshot_def Let_def split: option.splits prod.splits sum.splits)
  with get getLastUpdateIndex_state [OF get] show ?thesis by (simp add: stored_index_def)
qed

text \<open>The file of a new snapshot is the archive.\<close>

lemma snapshot_stream:
  assumes "sender rd prefix fs ts s" and "fs path = None"
    and "PrepareSnapshot L encode prefix (tree_walk (DataPath prefix) ts) fs s = Done (s', fs', Some path, None)"
  shows "SaveSnapshot fs' path = Inr (encode (packed ts))"
proof -
  have there: "fs (Clean (DataPath prefix)) \<noteq> None" using assms(1) by (simp add: sender_def data_dir_def)
  obtain i t where "getLastUpdateIndex L s = Done (t, i, None)"
      "writeFile fs path 384 (encode (packed ts)) = Inr fs'"
    using assms(3) sender_packs(1) [OF assms(1)] there
    by (cases "getLastUpdateIndex L s")
      (auto simp: PrepareSnapshot_def Let_def split: option.splits prod.splits sum.splits)
  with assms(2) have "fs' path = Some (FFile 384 (encode (packed ts)))"
    by (auto simp: writeFile_def split: if_splits)
  then show ?thesis by (simp add: SaveSnapshot_def)
qed

text \<open>Unpacked, the files are there, and the open databases of the receiver see those of the sender.\<close>

lemma receiver_unpacks:
  assumes "receiver prefix fs ts r" and "packable ts" and "tree_holds rd ts s"
  shows "\<exists>fs'. Untar (DataPath prefix) (packed ts) fs = (fs', None) \<and> same_blocks (seen_files rd prefix fs' r) s \<and>
    (\<forall>t \<in> set ts. placed (DataPath prefix) fs' t)"
proof -
  let ?d = "DataPath prefix"
  have dir: "unpack_dir ?d ?d fs" and space: "\<forall>t \<in> set ts. room ?d fs t"
    and r: "dom (shardMap r) = set alphabet_runes" "metaDb r \<noteq> None"
    using assms(1) by (simp_all add: receiver_def data_dir_def)
  have "?d \<notin> at ?d ` fst ` set ts" by (auto simp: at_def)
  then obtain fs' where fs': "Untar ?d (map header_of ts) fs = (fs', None)" "\<forall>t \<in> set ts. placed ?d fs' t"
    using Untar_tree [of "{}" ts ?d ?d fs] dir space assms(2) by (auto simp: packable_def)
  have untar: "Untar ?d (packed ts) fs = (fs', None)" using fs'(1) dir by (simp add: unpack_dir_def packed_def)
  note paths = data_paths [OF dir]
  have "map_option shBlock (shardMap (seen_files rd prefix fs' r) c) = map_option shBlock (shardMap s c)" for c
  proof (cases "c \<in> set alphabet_runes")
    case True
    then obtain sh sh' where sh: "shardMap s c = Some sh" "shardMap r c = Some sh'"
      using r(1) assms(3) by (metis domD tree_holds_def)
    then obtain m bytes where f: "([''block'', [char_of c]], FFile m bytes) \<in> set ts" "shBlock sh = rd bytes"
      using assms(3) unfolding tree_holds_def by blast
    from bspec [OF fs'(2) f(1)] obtain m' where "fs' (blockFile prefix c) = Some (FFile m' bytes)"
      using paths(2) [OF True] by (auto simp: placed_def)
    with sh f(2) show ?thesis by (simp add: seen_files_def mapped_def)
  next
    case False
    then have "shardMap s c = None" "shardMap r c = None" using r(1) assms(3) by (auto simp: tree_holds_def)
    then show ?thesis by (simp add: seen_files_def)
  qed
  moreover have "metaDb (seen_files rd prefix fs' r) = metaDb s"
  proof -
    obtain meta m bytes where f: "metaDb s = Some meta" "([''meta.bolt''], FFile m bytes) \<in> set ts" "meta = rd bytes"
      using assms(3) unfolding tree_holds_def by blast
    from bspec [OF fs'(2) f(2)] obtain m' where "fs' (MetaDbPath prefix) = Some (FFile m' bytes)"
      using paths(1) by (auto simp: placed_def)
    with f r(2) show ?thesis by (auto simp: seen_files_def mapped_def)
  qed
  ultimately show ?thesis using untar fs'(2) by (auto simp: same_blocks_def)
qed

lemma recovery_transfers:
  assumes "receiver prefix fs ts r" and "packable ts" and "tree_holds rd ts s"
    and "decode stream = (packed ts, None)" and "stored_index L s = Done (i, None)"
  shows "\<exists>t fs'. RecoverFromSnapshot L decode (seen_files rd prefix) prefix stream fs r = Done (t, fs', None) \<and>
    same_blocks t s \<and> pending t = pending r \<and> lastIndex t = i \<and> (\<forall>u \<in> set ts. placed (DataPath prefix) fs' u)"
proof -
  obtain fs' where fs': "Untar (DataPath prefix) (packed ts) fs = (fs', None)"
      "same_blocks (seen_files rd prefix fs' r) s" "\<forall>u \<in> set ts. placed (DataPath prefix) fs' u"
    using receiver_unpacks [OF assms(1-3)] by blast
  have "stored_index L (seen_files rd prefix fs' r) = Done (i, None)"
    using same_blocks_content(3) [OF fs'(2)] assms(5) by simp
  note get = stored_index_state [OF this]
  show ?thesis
    unfolding RecoverFromSnapshot_ok [where decode = decode and hs = "packed ts", OF assms(4) fs'(1)] get
    using fs'(2,3) by (auto simp: same_blocks_def seen_files_def)
qed

section \<open>Without queues\<close>

lemma same_blocks_view:
  assumes "same_blocks t s" and "pending t = []" and "pending s = []"
  shows "db_view L t = db_view L s" and "run_inv L s \<Longrightarrow> run_inv L t"
proof -
  note same = same_blocks_content [OF assms(1)]
  show "db_view L t = db_view L s" using same(1) assms(2,3) by (simp add: db_view_def)
  then show "run_inv L s \<Longrightarrow> run_inv L t" using same assms(2,3) by (simp add: run_inv_def sm_inv_def)
qed


section \<open>With queues\<close>

text \<open>The queue of the receiver stays, and is applied on top of what was sent: a \<open>DEL\<close> in it takes a document
  away that the sender has stored.\<close>

lemma recovery_keeps_queue:
  assumes "same_blocks t s" and "pending t = pending r"
    and "map ueCmd (pending r) = [e]" and "cmdType e = DEL" and "sees (state_content L s) e = (True, Some v)"
  shows "\<exists>m. db_view L t = Some m \<and> sees m e = (True, None)"
  using same_blocks_content(1) [OF assms(1)] assms(2-5)
  by (auto simp: db_view_def sees_def apply_strict_def apply_command_def type_defs Let_def split: option.splits)

lemma POST_changes:
  assumes "cmdType c = POST" and "spec_code js c m = 200"
  shows "spec_effect js c m \<noteq> m"
proof -
  have "sees m c = (True, None)"
    using assms by (cases "sees m c") (auto simp: spec_code_POST split: if_splits)
  moreover have "sees (spec_effect js c m) c = (True, Some (cmdBytesDoc c))"
    using spec_effect_doc [of c js m] assms by (simp add: sees_def type_defs)
  ultimately show ?thesis by auto
qed

text \<open>C30: A snapshot that is taken between \<open>Update\<close> and \<open>Sync\<close> forgets what was accepted in between. After a
  \<open>POST\<close> that found an empty queue and was answered 200, a node prepares a snapshot from its data directory,
  whose files hold its databases, into a new file, and sends it; the formats read back what they wrote, and
  at the receiver no longer file or other node is in the way. The node that recovers from it has the content
  from before the \<open>POST\<close>, under whatever it has queued itself, and with nothing queued it shows another
  database than the sender.\<close>

theorem snapshot_forgets_queue:
  assumes "reliable_libs L" and "run_inv L s0" and "pending s0 = []" and "db_view L s0 = Some m"
    and "sm_step L s0 (Wrote [c] [200]) s" and "cmdType c = POST"
    and "sender rd prefix fs ts s" and "fs path = None"
    and "PrepareSnapshot L encode prefix (tree_walk (DataPath prefix) ts) fs s = Done (s', fs', Some path, None)"
    and "SaveSnapshot fs' path = Inr stream" and "\<And>hs. decode (encode hs) = (hs, None)"
    and "receiver prefix' fs2 ts r"
  shows "\<exists>t fs2'. RecoverFromSnapshot L decode (seen_files rd prefix') prefix' stream fs2 r = Done (t, fs2', None) \<and>
    db_view L t = apply_queue (map ueCmd (pending r)) m \<and> (pending r = [] \<longrightarrow> db_view L t \<noteq> db_view L s)"
proof -
  note packs = sender_packs [OF assms(7)]
  have "decode stream = (packed ts, None)"
    using snapshot_stream [OF assms(7-9)] assms(10,11) by simp
  moreover obtain i where "stored_index L s = Done (i, None)"
    using PrepareSnapshot_state [OF assms(9)] by blast
  ultimately obtain t fs2' where t: "RecoverFromSnapshot L decode (seen_files rd prefix') prefix' stream fs2 r = Done (t, fs2', None)"
      "same_blocks t s" "pending t = pending r"
    using recovery_transfers [OF assms(12) packs(3,2)] by blast
  have run: "runs (sm_step L) s0 [Wrote [c] [200]] s" using assms(5) by simp
  have s: "db_view L s = Some (spec_effect (libDecode L) c m)" "spec_code (libDecode L) c m = 200"
    using reliable_libs.run_refines [OF assms(1,2,4) run] by auto
  have "shardMap s = shardMap s0"
    using reliable_libs.unsynced_shards [OF assms(1,2) run] by simp
  then have "state_content L s = state_content L s0" by (simp add: state_content_def fun_eq_iff)
  then have content: "state_content L t = m"
    using same_blocks_content(1) [OF t(2), of L] assms(3,4) by (simp add: db_view_def)
  have "spec_effect (libDecode L) c m \<noteq> m" using POST_changes [OF assms(6) s(2)] .
  with s(1) content t(1,3) show ?thesis by (auto simp: db_view_def)
qed

section \<open>A concrete transfer\<close>

text \<open>The files of a state: what bolt reads from a file is told by its first letter.\<close>

definition exRead :: "string \<Rightarrow> mem_db" where
  "exRead bytes =
    (if bytes = ''x'' then [(''a'', [(''a:x'', textX7)])] else if bytes = ''m'' then [(metaBucket, [])] else [])"

definition exDataTree :: tree where
  "exDataTree = ([''block''], FDir) # ([''meta.bolt''], FFile 384 ''m'') #
    map (\<lambda>c. ([''block'', [c]], FFile 384 (if c = CHR ''a'' then ''x'' else []))) alphabet"

definition exNode :: "string \<Rightarrow> tree \<Rightarrow> fsys" where
  "exNode root ts p =
    (if p = root @ ''/data'' \<or> p = root @ ''/snapshots'' then Some FDir
     else map_of (map (\<lambda>(es, n). (at (root @ ''/data'') es, n)) ts) p)"

lemma distinct_alphabet: "distinct alphabet"
  by (simp add: alphabet_def)

lemma exDataTree_ok: "packable exDataTree" "src_once ''n/data'' exDataTree" "distinct (map fst exDataTree)"
proof -
  have letters: "plain_elem [c]" if "c \<in> set alphabet" for c using plain_letter that .
  have "parents_first {[''block'']} (map (\<lambda>c. ([''block'', [c]], FFile 384 (if c = CHR ''a'' then ''x'' else []))) cs)"
    if "distinct cs" "set cs \<subseteq> set alphabet" for cs
    using that by (induction cs) (auto simp: rel_path_def letters)
  from this [OF distinct_alphabet] show "packable exDataTree"
    by (auto simp: packable_def exDataTree_def rel_path_def)
  show "distinct (map fst exDataTree)"
    using distinct_alphabet by (auto simp: exDataTree_def comp_def distinct_map inj_on_def)
  show "src_once ''n/data'' exDataTree"
    by (auto simp: src_once_def exDataTree_def alphabet_def slash_def has_prefix_def)
qed

lemma exNode_tree: "tree_at ''n/data'' (exNode ''n'' exDataTree) exDataTree"
proof -
  have rel: "rel_path es" if "(es, n) \<in> set exDataTree" for es n
    using exDataTree_ok(1) parents_first_rel [of "{}" exDataTree] that by (auto simp: packable_def)
  have keys: "map_of (map (\<lambda>(es, n). (at ''n/data'' es, n)) ts) (at ''n/data'' es) = map_of ts es"
    if "rel_path es" "\<forall>(es, n) \<in> set ts. rel_path es" for ts :: tree and es
    using that by (induction ts) (auto simp: at_inject)
  show ?thesis
    unfolding tree_at_def
  proof (intro allI impI)
    fix es n assume es: "rel_path es"
    have "at ''n/data'' es \<noteq> ''n/data''" "at ''n/data'' es \<noteq> ''n/snapshots''" by (simp_all add: at_def slash_def)
    then have "exNode ''n'' exDataTree (at ''n/data'' es) = map_of exDataTree es"
      using keys [OF es, of exDataTree] rel by (auto simp: exNode_def)
    then show "((es, n) \<in> set exDataTree) = (exNode ''n'' exDataTree (at ''n/data'' es) = Some n)"
      using map_of_eq_Some_iff [OF exDataTree_ok(3)] by simp
  qed
qed

lemma exData_dir: "data_dir ''n'' (exNode ''n'' ts)" "data_dir ''m'' (exNode ''m'' ts)"
  by (simp_all add: data_dir_def unpack_dir_def ex_paths exNode_def below_def Join_def Clean_def slash_def Let_def)

lemma ex_sender:
  assumes "shardMap s = shardMap exStored" and "metaDb s = metaDb exStored"
  shows "sender exRead ''n'' (exNode ''n'' exDataTree) exDataTree s"
proof -
  let ?fs = "exNode ''n'' exDataTree"
  have dir: "unpack_dir (DataPath ''n'') (DataPath ''n'') ?fs" using exData_dir(1) by (simp add: data_dir_def)
  note paths = data_paths [OF dir]
  have tree: "?fs (at ''n/data'' es) = Some n" if "(es, n) \<in> set exDataTree" "rel_path es" for es n
    using exNode_tree that by (auto simp: tree_at_def)
  have "\<exists>m bytes. ?fs (blockFile ''n'' r) = Some (FFile m bytes) \<and> shBlock sh = exRead bytes"
    if sh: "shardMap s r = Some sh" for r sh
  proof -
    have "r \<in> dom (shardMap exStored)" using sh assms(1) by auto
    then have r: "r \<in> set alphabet_runes" using dom_exStored by simp
    then obtain c where c: "c \<in> set alphabet" "r = byte_of c" by (auto simp: set_alphabet_runes)
    have "([''block'', [c]], FFile 384 (if c = CHR ''a'' then ''x'' else [])) \<in> set exDataTree"
      using c(1) by (simp add: exDataTree_def)
    with tree rel_paths(2) [OF r] c(2) paths(2) [OF r]
    have "?fs (blockFile ''n'' r) = Some (FFile 384 (if c = CHR ''a'' then ''x'' else []))"
      by (simp add: ex_paths)
    moreover have "shBlock sh = exRead (if c = CHR ''a'' then ''x'' else [])"
    proof (cases "c = CHR ''a''")
      case True
      with sh assms(1) c(2) show ?thesis by (auto simp: shardWith_def exRead_def)
    next
      case False
      then have "r \<noteq> 97" using c by (auto simp: alphabet_def)
      with sh assms(1) False show ?thesis by (auto simp: exState_def emptyShard_def exRead_def split: if_splits)
    qed
    ultimately show ?thesis by blast
  qed
  moreover have "?fs (MetaDbPath ''n'') = Some (FFile 384 ''m'')"
    using tree [of "[''meta.bolt'']"] rel_paths(1) paths(1) by (simp add: ex_paths exDataTree_def)
  moreover have "dom (shardMap s) = set alphabet_runes" using assms(1) dom_exStored by simp
  ultimately have "on_files exRead ''n'' ?fs s"
    using assms(2) by (simp add: on_files_def exRead_def)
  then show ?thesis
    using exData_dir(1) exNode_tree exDataTree_ok by (simp add: sender_def ex_paths)
qed

lemma ex_receiver: "receiver ''m'' (exNode ''m'' []) exDataTree exState"
proof -
  have "exNode ''m'' [] (at ''m/data'' es) = None" for es
    by (simp add: exNode_def at_def slash_def)
  then have "\<forall>t \<in> set exDataTree. room ''m/data'' (exNode ''m'' []) t"
    by (auto simp: room_def exDataTree_def)
  then show ?thesis using exData_dir(2) dom_exState by (simp add: receiver_def ex_paths exState_def)
qed

lemma ex_prepared:
  assumes "shardMap s = shardMap exStored" and "metaDb s = metaDb exStored"
  shows "\<exists>s' fs'. PrepareSnapshot exLibs exPack ''n'' (tree_walk (DataPath ''n'') exDataTree) (exNode ''n'' exDataTree) s =
      Done (s', fs', Some ''n/snapshots/0.tgz'', None)"
    and "exNode ''n'' exDataTree ''n/snapshots/0.tgz'' = None"
proof -
  let ?fs = "exNode ''n'' exDataTree"
  have i: "stored_index exLibs s = Done (0, None)"
    using ex_stored_index stored_index_meta [OF assms(2)] by simp
  have path: "''n/snapshots/0.tgz'' = Join [SnapshotPath ''n'', fmt_u64 0 @ ''.tgz'']"
    using ex_paths(4) by (simp add: ex_paths(2) fmt_u64_def show_nat.simps digit_char_def char_of_def bit_0)
  have "map_of (map (\<lambda>(es, n). (at ''n/data'' es, n)) ts) ''n/snapshots/0.tgz'' = None" for ts :: tree
    by (induction ts) (auto simp: at_def slash_def)
  then show none: "?fs ''n/snapshots/0.tgz'' = None" by (simp add: exNode_def)
  have parent: "parent_dir ''n/snapshots/0.tgz'' = Some ''n/snapshots''"
    by (simp add: parent_dir_def slash_def)
  have "?fs ''n/snapshots'' = Some FDir" by (simp add: exNode_def)
  from PrepareSnapshot_file [OF i sender_packs(1) [OF ex_sender [OF assms]] path parent this, of "[]"] none
  show "\<exists>s' fs'. PrepareSnapshot exLibs exPack ''n'' (tree_walk (DataPath ''n'') exDataTree) ?fs s =
      Done (s', fs', Some ''n/snapshots/0.tgz'', None)"
    by blast
qed


lemma ex_postY:
  "\<exists>s. sm_step exLibs exStored (Wrote [cmdPost textY7 (exDoc ''a'' ''y'' 7)] [200]) s"
proof -
  let ?c = "cmdPost textY7 (exDoc ''a'' ''y'' 7)"
  have parsed: "map (\<lambda>en. ParseCommand (libDecode exLibs) (enCmd en)) [exEntry 1 (''POST '' @ textY7)] = map Inr [?c]"
    using parse_Post [of textY7 exDecode] by simp
  have "batch_safe exStored [?c]" "list_all storable [?c]"
    by (simp_all add: batch_safe_def batch_seen_def one_search_def none_deleted_def findCommandInPending_def
        cmd_defs part_rune_def type_defs storable_def FullId_def max_key_size_def max_value_size_def text_defs)
  moreover have "spec_code exDecode ?c exContent = 200"
    by (simp add: spec_code_def sees_def cmd_defs exContent_def FullId_def)
  ultimately show ?thesis
    using reliable_libs.wrote_possible [OF reliable_exLibs run_inv_exStored exStored_ok(2) distinct_alphabet_runes
        dom_exStored parsed] by (simp add: split_beta)
qed

theorem snapshot_forgets_queue_witness:
  "\<exists>s t fs'. sm_step exLibs exStored (Wrote [cmdPost textY7 (exDoc ''a'' ''y'' 7)] [200]) s \<and>
    RecoverFromSnapshot exLibs exUnpack (seen_files exRead ''m'') ''m'' (exPack (packed exDataTree))
      (exNode ''m'' []) exState = Done (t, fs', None) \<and>
    db_view exLibs t = Some exContent \<and> db_view exLibs t \<noteq> db_view exLibs s"
proof -
  let ?c = "cmdPost textY7 (exDoc ''a'' ''y'' 7)"
  obtain s where s: "sm_step exLibs exStored (Wrote [?c] [200]) s" using ex_postY by blast
  have "runs (sm_step exLibs) exStored [Wrote [?c] [200]] s" using s by simp
  from reliable_libs.unsynced_shards [OF reliable_exLibs run_inv_exStored this]
  have same: "shardMap s = shardMap exStored" "metaDb s = metaDb exStored" by simp_all
  note ready = ex_sender [OF same] ex_prepared [OF same]
  obtain s' fs' where prep: "PrepareSnapshot exLibs exPack ''n'' (tree_walk (DataPath ''n'') exDataTree)
      (exNode ''n'' exDataTree) s = Done (s', fs', Some ''n/snapshots/0.tgz'', None)"
    using ready(2) by blast
  note stream = snapshot_stream [OF ready(1,3) prep]
  have ex: "pending exStored = []" "pending exState = []" "cmdType ?c = POST"
    by (simp_all add: exState_def cmd_defs)
  from snapshot_forgets_queue [OF reliable_exLibs run_inv_exStored ex(1) exStored_ok(2) s ex(3) ready(1,3) prep stream
      exUnpack_exPack ex_receiver]
  show ?thesis using s ex(2) by auto
qed

end
