(* ===== verification/Cluster.thy ===== *)
theory Cluster
  imports SnapshotTransfer
begin

text \<open>
  A cluster: replicas of the state machine on a committed log, with the operations of the state machine as
  its steps. Batches are safe (\<open>batch_safe\<close>), and snapshots are taken and received with an empty
  queue; without either, replicas diverge (\<open>Anomalies\<close>, \<open>SnapshotTransfer\<close>). What raft does to agree on the log is
  Dragonboat's; of it the model has what is documented: every replica is given the entries of the log in
  order, in batches, under their indexes; it may be synced at any time; a replica that starts again is
  given the log from after the index that its \<open>Open\<close> returns; and a replica may recover from a snapshot of
  another and is then given the log from where the other was when it prepared the snapshot.
\<close>

section \<open>States and steps\<close>

text \<open>A replica: its state, and how far in the log it is. Its databases are on its disk, its queue is not.\<close>

record ('db, 'ix) replica =
  rpState :: "('db, 'ix) ByStateMachine"
  rpApplied :: nat

text \<open>What bolt reads from the bytes of a file, and the formats of archives.\<close>

record 'db formats =
  fmRead :: "string \<Rightarrow> 'db"
  fmEncode :: "tarHeader list \<Rightarrow> string"
  fmDecode :: "string \<Rightarrow> tarHeader list \<times> gerror option"

definition formats_ok :: "'db formats \<Rightarrow> bool" where
  "formats_ok F \<longleftrightarrow> (\<forall>hs. fmDecode F (fmEncode F hs) = (hs, None))"

text \<open>A snapshot: the stream, and, for the record, the tree that was packed and the replica it was taken from.\<close>

record ('db, 'ix) snapshot =
  snStream :: string
  snTree :: tree
  snFrom :: "('db, 'ix) replica"

text \<open>The log holds the texts of commands and what they parse to. The answers to an entry are collected
  from all replicas, by position in the log.\<close>

record ('db, 'ix) cluster =
  clLog :: "(string \<times> Command) list"
  clReplica :: "nat \<Rightarrow> ('db, 'ix) replica"
  clAnswers :: "(nat \<times> u64) list"
  clSnapshots :: "('db, 'ix) snapshot list"

text \<open>Entries are numbered from 1.\<close>

definition numbered :: "nat \<Rightarrow> (string \<times> Command) list \<Rightarrow> smEntry list" where
  "numbered a chunk = map (\<lambda>(j, raw, c). \<lparr>enIndex = of_nat (j + 1), enCmd = raw, enValue = 0\<rparr>) (enumerate a chunk)"

inductive cluster_step ::
  "('db, 'ix) libs \<Rightarrow> 'db formats \<Rightarrow> ('db, 'ix) cluster \<Rightarrow> ('db, 'ix) cluster \<Rightarrow> bool" for L F where
  commit: "ParseCommand (libDecode L) raw = Inr c \<Longrightarrow> alters (cmdType c) \<Longrightarrow> storable c \<Longrightarrow>
    part_rune c \<in> set alphabet_runes \<Longrightarrow> length (clLog cl) + 1 < 2 ^ 64 \<Longrightarrow>
    cluster_step L F cl (cl\<lparr>clLog := clLog cl @ [(raw, c)]\<rparr>)"
| applied: "rp = clReplica cl r \<Longrightarrow> chunk = take n (drop (rpApplied rp) (clLog cl)) \<Longrightarrow>
    distinct order \<Longrightarrow> set order = dom (shardMap (rpState rp)) \<Longrightarrow> batch_safe (rpState rp) (map snd chunk) \<Longrightarrow>
    Update L order (rpState rp) (numbered (rpApplied rp) chunk) = Done (s', ups', None) \<Longrightarrow>
    cluster_step L F cl (cl\<lparr>
      clReplica := (clReplica cl)(r := rp\<lparr>rpState := s', rpApplied := rpApplied rp + length chunk\<rparr>),
      clAnswers := clAnswers cl @ zip [rpApplied rp..<rpApplied rp + length chunk] (map enValue ups')\<rparr>)"
| synced: "rp = clReplica cl r \<Longrightarrow> distinct order \<Longrightarrow> set order = dom (shardMap (rpState rp)) \<Longrightarrow>
    Sync L order (rpState rp) = Done (s', None) \<Longrightarrow>
    cluster_step L F cl (cl\<lparr>clReplica := (clReplica cl)(r := rp\<lparr>rpState := s'\<rparr>)\<rparr>)"
| restarted: "rp = clReplica cl r \<Longrightarrow> on_disk P prefix (rpState rp) \<Longrightarrow>
    Open L P prefix NewByStateMachine = Done (t, i, None) \<Longrightarrow>
    cluster_step L F cl (cl\<lparr>clReplica := (clReplica cl)(r := rp\<lparr>rpState := t, rpApplied := unat i\<rparr>)\<rparr>)"
| prepared: "rp = clReplica cl r \<Longrightarrow> pending (rpState rp) = [] \<Longrightarrow>
    sender (fmRead F) prefix fs ts (rpState rp) \<Longrightarrow> fs path = None \<Longrightarrow>
    PrepareSnapshot L (fmEncode F) prefix (tree_walk (DataPath prefix) ts) fs (rpState rp) =
      Done (s', fs', Some path, None) \<Longrightarrow>
    SaveSnapshot fs' path = Inr stream \<Longrightarrow>
    cluster_step L F cl (cl\<lparr>clReplica := (clReplica cl)(r := rp\<lparr>rpState := s'\<rparr>),
      clSnapshots := clSnapshots cl @ [\<lparr>snStream = stream, snTree = ts, snFrom = rp\<lparr>rpState := s'\<rparr>\<rparr>]\<rparr>)"
| recovered: "rp = clReplica cl r \<Longrightarrow> pending (rpState rp) = [] \<Longrightarrow> sn \<in> set (clSnapshots cl) \<Longrightarrow>
    receiver prefix fs (snTree sn) (rpState rp) \<Longrightarrow>
    RecoverFromSnapshot L (fmDecode F) (seen_files (fmRead F) prefix) prefix (snStream sn) fs (rpState rp) =
      Done (t, fs', None) \<Longrightarrow>
    cluster_step L F cl (cl\<lparr>clReplica := (clReplica cl)(r := rp\<lparr>rpState := t, rpApplied := rpApplied (snFrom sn)\<rparr>)\<rparr>)"

definition cluster_start :: "('db, 'ix) ByStateMachine \<Rightarrow> ('db, 'ix) cluster" where
  "cluster_start s =
    \<lparr>clLog = [], clReplica = (\<lambda>r. \<lparr>rpState = s, rpApplied = 0\<rparr>), clAnswers = [], clSnapshots = []\<rparr>"

text \<open>The contract on a prefix of the log, and on the entry after it.\<close>

definition content_after :: "json_decoder \<Rightarrow> content \<Rightarrow> (string \<times> Command) list \<Rightarrow> nat \<Rightarrow> content" where
  "content_after js m log k = snd (spec_run js (map snd (take k log)) m)"

definition code_at :: "json_decoder \<Rightarrow> content \<Rightarrow> (string \<times> Command) list \<Rightarrow> nat \<Rightarrow> u64" where
  "code_at js m log j = spec_code js (snd (log ! j)) (content_after js m log j)"

section \<open>The log and the contract\<close>

lemma content_after_Suc:
  "j < length log \<Longrightarrow> content_after js m log (Suc j) = spec_effect js (snd (log ! j)) (content_after js m log j)"
  by (simp add: content_after_def take_Suc_conv_app_nth spec_run_append split_beta)

lemma content_after_append: "k \<le> length log \<Longrightarrow> content_after js m (log @ es) k = content_after js m log k"
  by (simp add: content_after_def)

lemma code_at_append: "j < length log \<Longrightarrow> code_at js m (log @ es) j = code_at js m log j"
  by (simp add: code_at_def content_after_append nth_append)

lemma content_after_chunk:
  assumes "chunk = take n (drop a log)"
  shows "content_after js m log (a + length chunk) =
    snd (spec_run js (map snd chunk) (content_after js m log a))"
proof -
  have "take (a + length chunk) log = take a log @ chunk"
    using assms by (cases "a \<le> length log") (simp_all add: take_add min_def)
  then show ?thesis by (simp add: content_after_def spec_run_append)
qed

lemma spec_run_nth: "i < length cs \<Longrightarrow>
    fst (spec_run js cs m) ! i = spec_code js (cs ! i) (snd (spec_run js (take i cs) m))"
proof (induction cs arbitrary: i m)
  case Nil
  then show ?case by simp
next
  case (Cons c cs)
  then show ?case by (cases i) (simp_all add: split_beta)
qed

lemma code_at_chunk:
  assumes "chunk = take n (drop a log)" and "i < length chunk"
  shows "code_at js m log (a + i) = fst (spec_run js (map snd chunk) (content_after js m log a)) ! i"
proof -
  have i: "a + i < length log" "chunk ! i = log ! (a + i)" using assms by auto
  have "take i chunk = take i (drop a log)" using assms by (auto simp: min_def split: if_splits)
  moreover have "length (take i chunk) = i" using assms(2) by (simp only: length_take min_absorb2 less_imp_le)
  ultimately have "content_after js m log (a + i) = snd (spec_run js (map snd (take i chunk)) (content_after js m log a))"
    using content_after_chunk [of "take i chunk" i a log js m] by simp
  with i assms(2) show ?thesis by (simp add: code_at_def spec_run_nth take_map)
qed

text \<open>Refused entries leave the content as it is.\<close>

lemma content_after_quiet:
  assumes "\<forall>j. h \<le> j \<and> j < n \<longrightarrow> code_at js m log j \<noteq> 200" and "h \<le> n" and "n \<le> length log"
  shows "content_after js m log h = content_after js m log n"
  using assms(2,1,3)
proof (induction n rule: dec_induct)
  case base
  then show ?case by simp
next
  case (step n)
  then have "code_at js m log n \<noteq> 200" by simp
  then have "spec_effect js (snd (log ! n)) (content_after js m log n) = content_after js m log n"
    by (simp add: code_at_def spec_effect_def)
  with step show ?case by (simp add: content_after_Suc)
qed

section \<open>The invariant\<close>

text \<open>
  A replica is where its counter says; what was applied after the highest index that it would store was
  refused; and its databases hold the content at the index that is stored with them.
\<close>

definition replica_ok ::
  "('db, 'ix) libs \<Rightarrow> content \<Rightarrow> (string \<times> Command) list \<Rightarrow> ('db, 'ix) replica \<Rightarrow> bool" where
  "replica_ok L m log rp \<longleftrightarrow>
    run_inv L (rpState rp) \<and> dom (shardMap (rpState rp)) = set alphabet_runes \<and>
    rpApplied rp \<le> length log \<and>
    db_view L (rpState rp) = Some (content_after (libDecode L) m log (rpApplied rp)) \<and>
    unat (findHighestIndexInPending (rpState rp)) \<le> rpApplied rp \<and>
    (\<forall>j. unat (findHighestIndexInPending (rpState rp)) \<le> j \<and> j < rpApplied rp \<longrightarrow>
      code_at (libDecode L) m log j \<noteq> 200) \<and>
    stored_index L (rpState rp) = Done (lastIndex (rpState rp), None) \<and>
    state_content L (rpState rp) = content_after (libDecode L) m log (unat (lastIndex (rpState rp)))"

definition snapshot_ok ::
  "('db, 'ix) libs \<Rightarrow> 'db formats \<Rightarrow> content \<Rightarrow> (string \<times> Command) list \<Rightarrow> ('db, 'ix) snapshot \<Rightarrow> bool" where
  "snapshot_ok L F m log sn \<longleftrightarrow> replica_ok L m log (snFrom sn) \<and> pending (rpState (snFrom sn)) = [] \<and>
    snStream sn = fmEncode F (packed (snTree sn)) \<and> packable (snTree sn) \<and>
    tree_holds (fmRead F) (snTree sn) (rpState (snFrom sn))"

definition cluster_ok :: "('db, 'ix) libs \<Rightarrow> 'db formats \<Rightarrow> content \<Rightarrow> ('db, 'ix) cluster \<Rightarrow> bool" where
  "cluster_ok L F m cl \<longleftrightarrow>
    length (clLog cl) < 2 ^ 64 \<and>
    (\<forall>(raw, c) \<in> set (clLog cl). ParseCommand (libDecode L) raw = Inr c \<and> alters (cmdType c) \<and>
      storable c \<and> part_rune c \<in> set alphabet_runes) \<and>
    (\<forall>r. replica_ok L m (clLog cl) (clReplica cl r)) \<and>
    (\<forall>sn \<in> set (clSnapshots cl). snapshot_ok L F m (clLog cl) sn) \<and>
    (\<forall>(j, v) \<in> set (clAnswers cl). j < length (clLog cl) \<and> v = code_at (libDecode L) m (clLog cl) j)"

text \<open>A state to begin with: synced, with nothing applied.\<close>

definition first_state :: "('db, 'ix) libs \<Rightarrow> content \<Rightarrow> ('db, 'ix) ByStateMachine \<Rightarrow> bool" where
  "first_state L m s \<longleftrightarrow> run_inv L s \<and> pending s = [] \<and> lastIndex s = 0 \<and>
    stored_index L s = Done (0, None) \<and> db_view L s = Some m \<and> dom (shardMap s) = set alphabet_runes"

lemma cluster_start_ok: "first_state L m s \<Longrightarrow> cluster_ok L F m (cluster_start s)"
  by (auto simp: first_state_def cluster_ok_def cluster_start_def replica_ok_def content_after_def
      findHighestIndexInPending_def db_view_def)

lemma unat_highest:
  "unat (findHighestIndexInPending s) \<le> n \<longleftrightarrow>
    unat (lastIndex s) \<le> n \<and> (\<forall>e \<in> set (pending s). unat (ueIndex e) \<le> n)"
proof -
  have "unat (Max (insert (lastIndex s) A)) \<le> n \<longleftrightarrow> unat (lastIndex s) \<le> n \<and> (\<forall>i \<in> A. unat i \<le> n)"
    if "finite A" for A :: "u64 set"
    using that
  proof (induction A)
    case empty
    then show ?case by simp
  next
    case (insert i A)
    have "Max (insert (lastIndex s) (insert i A)) = max i (Max (insert (lastIndex s) A))"
      using insert by (simp add: insert_commute)
    with insert show ?case by (auto simp: max_def word_le_nat_alt)
  qed
  from this [of "ueIndex ` set (pending s)"] show ?thesis by (simp add: findHighest_Max)
qed

lemma replica_ok_last: "replica_ok L m log rp \<Longrightarrow> unat (lastIndex (rpState rp)) \<le> length log"
  using unat_highest [of "rpState rp" "rpApplied rp"] by (simp add: replica_ok_def)

lemma replica_ok_append: "replica_ok L m log rp \<Longrightarrow> replica_ok L m (log @ es) rp"
  using replica_ok_last [of L m log rp] by (auto simp: replica_ok_def content_after_append code_at_append)

lemma snapshot_ok_append: "snapshot_ok L F m log sn \<Longrightarrow> snapshot_ok L F m (log @ es) sn"
  using replica_ok_append [of L m log "snFrom sn"] by (simp add: snapshot_ok_def)

text \<open>A batch of the log.\<close>

lemma numbered_parse:
  assumes "\<forall>(raw, c) \<in> set chunk. ParseCommand js raw = Inr c"
  shows "map (\<lambda>en. ParseCommand js (enCmd en)) (numbered a chunk) = map Inr (map snd chunk)"
proof -
  have "map (\<lambda>en. ParseCommand js (enCmd en)) (numbered a chunk) = map (ParseCommand js \<circ> fst) chunk"
    unfolding numbered_def by (induction chunk arbitrary: a) (auto simp: comp_def)
  with assms show ?thesis by (auto simp: comp_def)
qed

lemma numbered_length [simp]: "length (numbered a chunk) = length chunk"
  by (simp add: numbered_def)

lemma numbered_index: "i < length chunk \<Longrightarrow> enIndex (numbered a chunk ! i) = of_nat (a + i + 1)"
  by (simp add: numbered_def nth_enumerate_eq split_beta)

lemma unat_index: "j + 1 < 2 ^ 64 \<Longrightarrow> unat (of_nat (j + 1) :: u64) = j + 1"
  by (simp add: unat_of_nat take_bit_nat_eq_self flip: of_nat_Suc)

section \<open>Every step keeps it\<close>

context reliable_libs begin

text \<open>What is queued from a batch has the indexes of the batch, and whatever the batch has accepted is queued.\<close>

lemma applied_highest:
  assumes inv: "sm_inv L s" "db_view L s = Some m" and chunk: "a + length chunk < 2 ^ 64"
    and order: "distinct order" "set order = dom (shardMap s)"
    and parsed: "map (\<lambda>en. ParseCommand (libDecode L) (enCmd en)) (numbered a chunk) = map Inr (map snd chunk)"
    and seen: "batch_seen s (map snd chunk)"
    and run: "Update L order s (numbered a chunk) = Done (s', ups', None)"
    and old: "unat (findHighestIndexInPending s) \<le> a"
  shows "unat (findHighestIndexInPending s') \<le> a + length chunk"
    and "unat (findHighestIndexInPending s) \<le> unat (findHighestIndexInPending s')"
    and "i < length chunk \<Longrightarrow> spec_code (libDecode L) (map snd chunk ! i) m = 200 \<Longrightarrow>
      a + i < unat (findHighestIndexInPending s')"
proof -
  obtain q where q: "s' = s\<lparr>pending := pending s @ q\<rparr>"
      "ueIndex ` set q \<subseteq> enIndex ` set (numbered a chunk)"
    using Update_queue [OF inv(1) order(1) parsed run] by blast
  have small: "unat (of_nat (a + i + 1) :: u64) = a + i + 1" if "i < length chunk" for i
    using that chunk by (intro unat_index) simp
  have "unat (ueIndex e) \<le> a + length chunk" if e: "e \<in> set q" for e
  proof -
    from q(2) e obtain en where "en \<in> set (numbered a chunk)" "ueIndex e = enIndex en" by auto
    then obtain i where "i < length chunk" "ueIndex e = enIndex (numbered a chunk ! i)"
      by (auto simp: in_set_conv_nth)
    with small [of i] show ?thesis by (simp add: numbered_index)
  qed
  then show "unat (findHighestIndexInPending s') \<le> a + length chunk"
    using old unfolding unat_highest q(1) by (auto intro: le_trans)
  have "lastIndex s' = lastIndex s" "set (pending s) \<subseteq> set (pending s')" using q(1) by simp_all
  then show "unat (findHighestIndexInPending s) \<le> unat (findHighestIndexInPending s')"
    using unat_highest [of s' "unat (findHighestIndexInPending s')"]
      unat_highest [of s "unat (findHighestIndexInPending s')"] by (auto simp: subset_iff)
  assume i: "i < length chunk" and code: "spec_code (libDecode L) (map snd chunk ! i) m = 200"
  from Update_queues_accepted [OF inv order parsed seen run _ code] i
  have "of_nat (a + i + 1) \<in> ueIndex ` set (pending s')" by (simp only: numbered_length numbered_index)
  then obtain e where e: "e \<in> set (pending s')" "ueIndex e = of_nat (a + i + 1)" by auto
  have "unat (ueIndex e) \<le> unat (findHighestIndexInPending s')"
    using unat_highest [of s' "unat (findHighestIndexInPending s')"] e(1) by simp
  with e(2) small [OF i] show "a + i < unat (findHighestIndexInPending s')" by simp
qed

lemma applied_ok_step:
  assumes ok: "replica_ok L m log rp" and log: "\<forall>(raw, c) \<in> set log. ParseCommand (libDecode L) raw = Inr c \<and> storable c"
    and len: "length log < 2 ^ 64" and chunk: "chunk = take n (drop (rpApplied rp) log)"
    and order: "distinct order" "set order = dom (shardMap (rpState rp))"
    and safe: "batch_safe (rpState rp) (map snd chunk)"
    and run: "Update L order (rpState rp) (numbered (rpApplied rp) chunk) = Done (s', ups', None)"
  shows "replica_ok L m log (rp\<lparr>rpState := s', rpApplied := rpApplied rp + length chunk\<rparr>)"
    and "i < length chunk \<Longrightarrow> map enValue ups' ! i = code_at (libDecode L) m log (rpApplied rp + i)"
    and "length ups' = length chunk"
proof -
  let ?s = "rpState rp" and ?a = "rpApplied rp" and ?js = "libDecode L"
  let ?m = "content_after ?js m log ?a"
  have inv: "run_inv L ?s" "sm_inv L ?s" "db_view L ?s = Some ?m" and a: "?a \<le> length log"
    and old: "unat (findHighestIndexInPending ?s) \<le> ?a"
    using ok by (simp_all add: replica_ok_def run_inv_def)
  have sub: "set chunk \<subseteq> set log" using chunk by (auto dest: in_set_takeD in_set_dropD)
  then have "\<forall>(raw, c) \<in> set chunk. ParseCommand ?js raw = Inr c" using log by auto
  note parsed = numbered_parse [OF this, of ?a]
  have end_: "?a + length chunk \<le> length log" using chunk a by auto
  have store: "list_all storable (map snd chunk)" using sub log by (fastforce simp: list_all_iff)
  have seen: "batch_seen ?s (map snd chunk)" using safe by (simp add: batch_safe_def)
  note ref = Update_refines_contract [OF inv(2,3) order parsed safe run]
  have "sm_step L ?s (Wrote (map snd chunk) (map enValue ups')) s'"
    by (rule sm_step.wrote [OF order parsed safe store run])
  then have inv': "run_inv L s'" by (rule sim.inv_step [OF inv(1)])
  have codes: "map enValue ups' ! i = code_at ?js m log (?a + i)" if "i < length chunk" for i
    using code_at_chunk [OF chunk that, of ?js m] ref(1) by simp
  then show "i < length chunk \<Longrightarrow> map enValue ups' ! i = code_at ?js m log (?a + i)" .
  show "length ups' = length chunk"
    using arg_cong [OF ref(1), of length] by (simp add: length_spec_run)
  have "?a + length chunk < 2 ^ 64" using end_ len by simp
  note high = applied_highest [OF inv(2,3) this order parsed seen run old]
  have quiet: "code_at ?js m log j \<noteq> 200"
    if j: "unat (findHighestIndexInPending s') \<le> j" "j < ?a + length chunk" for j
  proof (cases "j < ?a")
    case True
    with high(2) j(1) ok show ?thesis by (simp add: replica_ok_def)
  next
    case False
    then obtain i where i: "j = ?a + i" "i < length chunk" using j(2) by (metis le_Suc_ex nat_add_left_cancel_less not_le)
    have "code_at ?js m log j = spec_code ?js (map snd chunk ! i) ?m"
      using codes [OF i(2)] i Update_seen(1) [OF inv(2,3) order parsed seen run] by simp
    with high(3) [OF i(2)] i j(1) show ?thesis by auto
  qed
  obtain q where "s' = ?s\<lparr>pending := pending ?s @ q\<rparr>"
    using Update_queue [OF inv(2) order(1) parsed run] by blast
  then have same: "lastIndex s' = lastIndex ?s" "state_content L s' = state_content L ?s"
      "stored_index L s' = stored_index L ?s"
    using stored_index_meta [of s' ?s L] by (simp_all add: state_content_def fun_eq_iff)
  show "replica_ok L m log (rp\<lparr>rpState := s', rpApplied := ?a + length chunk\<rparr>)"
    using high(1) inv' ref(2,4) ok end_ quiet same by (simp add: replica_ok_def content_after_chunk [OF chunk])
qed

lemma synced_ok_step:
  assumes ok: "replica_ok L m log rp" and order: "distinct order" "set order = dom (shardMap (rpState rp))"
    and run: "Sync L order (rpState rp) = Done (s', None)"
  shows "replica_ok L m log (rp\<lparr>rpState := s'\<rparr>)"
proof -
  let ?s = "rpState rp" and ?js = "libDecode L"
  have inv: "sm_inv L ?s" "meta_ready L ?s" "\<forall>e \<in> set (pending ?s). storable (ueCmd e)"
    and view: "db_view L ?s = Some (content_after ?js m log (rpApplied rp))"
    using ok by (auto simp: replica_ok_def run_inv_def list_all_iff)
  from Sync_flushes [OF inv(1) view inv(2,3) order] run
  have s': "pending s' = []" "state_content L s' = content_after ?js m log (rpApplied rp)"
      "db_view L s' = Some (content_after ?js m log (rpApplied rp))" "run_inv L s'"
      "lastIndex s' = findHighestIndexInPending ?s" "stored_index L s' = Done (lastIndex s', None)"
      "dom (shardMap s') = dom (shardMap ?s)"
    by (auto simp: run_inv_def findHighest_Max)
  have "findHighestIndexInPending s' = findHighestIndexInPending ?s"
    using s'(1,5) by (simp add: findHighestIndexInPending_def)
  moreover have "content_after ?js m log (unat (findHighestIndexInPending ?s)) = content_after ?js m log (rpApplied rp)"
    using ok by (intro content_after_quiet) (simp_all add: replica_ok_def)
  ultimately show ?thesis using ok s' by (simp add: replica_ok_def)
qed

lemma restarted_ok_step:
  assumes ok: "replica_ok L m log rp" and disk: "on_disk P prefix (rpState rp)"
    and run: "Open L P prefix NewByStateMachine = Done (t, i, None)"
  shows "replica_ok L m log (rp\<lparr>rpState := t, rpApplied := unat i\<rparr>)"
proof -
  let ?s = "rpState rp" and ?js = "libDecode L"
  let ?d = "?s\<lparr>pending := []\<rparr>"
  have inv: "run_inv L ?s" "meta_ready L ?s" "stored_index L ?s = Done (lastIndex ?s, None)"
    using ok by (simp_all add: replica_ok_def run_inv_def)
  from Open_again [OF disk inv(2,3)] run
  have t: "i = lastIndex ?s" "shardMap t = shardMap ?s" "pending t = []" "lastIndex t = i" "meta_ready L t"
      "stored_index L t = Done (i, None)"
    by auto
  have content: "state_content L t = state_content L ?s" "state_content L ?d = state_content L ?s"
    using t(2) by (simp_all add: state_content_def fun_eq_iff)
  have d: "run_inv L ?d" using inv(1) content(2) by (simp add: run_inv_def sm_inv_def db_view_def meta_ready_def)
  have "run_inv L t" by (rule Open_again_run_inv(1) [OF d]) (use t in simp_all)
  moreover have "unat (lastIndex ?s) \<le> length log" by (rule replica_ok_last [OF ok])
  moreover have "findHighestIndexInPending t = i" using t(3,4) by (simp add: findHighestIndexInPending_def)
  ultimately show ?thesis
    using ok t content(1) by (simp add: replica_ok_def db_view_def)
qed

lemma prepared_ok_step:
  assumes ok: "replica_ok L m log rp" and empty: "pending (rpState rp) = []"
    and from_files: "sender (fmRead F) prefix fs ts (rpState rp)" "fs path = None"
    and run: "PrepareSnapshot L (fmEncode F) prefix (tree_walk (DataPath prefix) ts) fs (rpState rp) =
      Done (s', fs', Some path, None)"
    and saved: "SaveSnapshot fs' path = Inr stream"
  shows "s' = rpState rp" and "snapshot_ok L F m log \<lparr>snStream = stream, snTree = ts, snFrom = rp\<lparr>rpState := s'\<rparr>\<rparr>"
proof -
  show s': "s' = rpState rp" using PrepareSnapshot_state [OF run] ok by (auto simp: replica_ok_def)
  from snapshot_stream [OF from_files run] saved sender_packs [OF from_files(1)] ok empty s'
  show "snapshot_ok L F m log \<lparr>snStream = stream, snTree = ts, snFrom = rp\<lparr>rpState := s'\<rparr>\<rparr>"
    by (simp add: snapshot_ok_def replica_ok_def)
qed

lemma recovered_ok_step:
  assumes F: "formats_ok F" and ok: "snapshot_ok L F m log sn" and empty: "pending (rpState rp) = []"
    and to_files: "receiver prefix fs (snTree sn) (rpState rp)"
    and run: "RecoverFromSnapshot L (fmDecode F) (seen_files (fmRead F) prefix) prefix (snStream sn) fs (rpState rp) =
      Done (t, fs', None)"
  shows "replica_ok L m log (rp\<lparr>rpState := t, rpApplied := rpApplied (snFrom sn)\<rparr>)"
proof -
  let ?d = "rpState (snFrom sn)"
  have sn: "replica_ok L m log (snFrom sn)" "pending ?d = []" "packable (snTree sn)"
      "tree_holds (fmRead F) (snTree sn) ?d" "fmDecode F (snStream sn) = (packed (snTree sn), None)"
    using ok F by (simp_all add: snapshot_ok_def formats_ok_def)
  then have d: "run_inv L ?d" "stored_index L ?d = Done (lastIndex ?d, None)" by (simp_all add: replica_ok_def)
  from recovery_transfers [where decode = "fmDecode F" and stream = "snStream sn", OF to_files sn(3-5) d(2)] run empty
  have t: "same_blocks t ?d" "pending t = []" "lastIndex t = lastIndex ?d" by auto
  note same = same_blocks_content [OF t(1)] and view = same_blocks_view [OF t(1,2) sn(2)]
  have "findHighestIndexInPending t = findHighestIndexInPending ?d"
    using t(2,3) sn(2) by (simp add: findHighestIndexInPending_def)
  with same view(1) view(2) [OF d(1)] t(3) sn(1) show ?thesis by (simp add: replica_ok_def)
qed

lemma cluster_ok_step:
  assumes F: "formats_ok F" and ok: "cluster_ok L F m cl" and step: "cluster_step L F cl cl'"
  shows "cluster_ok L F m cl'"
proof -
  have log: "\<forall>(raw, c) \<in> set (clLog cl). ParseCommand (libDecode L) raw = Inr c \<and> storable c"
      and len: "length (clLog cl) < 2 ^ 64" and each: "replica_ok L m (clLog cl) (clReplica cl r)" for r
    using ok by (auto simp: cluster_ok_def)
  from step show ?thesis
  proof (cases rule: cluster_step.cases)
    case (commit raw c)
    with ok show ?thesis
      by (auto simp: cluster_ok_def code_at_append intro: replica_ok_append snapshot_ok_append)
  next
    case (applied rp r chunk n order s' ups')
    have rp: "replica_ok L m (clLog cl) rp" using each applied(2) by simp
    note step = applied_ok_step [OF rp log len applied(3-7)]
    have "rpApplied rp + length chunk \<le> length (clLog cl)"
      using applied(3) rp by (auto simp: replica_ok_def)
    then have "\<forall>(j, v) \<in> set (zip [rpApplied rp..<rpApplied rp + length chunk] (map enValue ups')).
        j < length (clLog cl) \<and> v = code_at (libDecode L) m (clLog cl) j"
      using step(2,3) by (auto simp: set_zip)
    with ok step(1) show ?thesis unfolding applied(1) by (auto simp: cluster_ok_def)
  next
    case (synced rp r order s')
    then have "replica_ok L m (clLog cl) rp" using each by simp
    from synced_ok_step [OF this synced(3-5)] ok show ?thesis unfolding synced(1) by (simp add: cluster_ok_def)
  next
    case (restarted rp r P prefix t i)
    then have "replica_ok L m (clLog cl) rp" using each by simp
    from restarted_ok_step [OF this restarted(3,4)] ok show ?thesis unfolding restarted(1) by (simp add: cluster_ok_def)
  next
    case (prepared rp r prefix fs ts path s' fs' stream)
    then have rp: "replica_ok L m (clLog cl) rp" using each by simp
    note step = prepared_ok_step [OF rp prepared(3-7)]
    from step rp ok prepared(2) show ?thesis unfolding prepared(1) by (auto simp: cluster_ok_def)
  next
    case (recovered rp r sn prefix fs t fs')
    then have "snapshot_ok L F m (clLog cl) sn" using ok by (simp add: cluster_ok_def)
    from recovered_ok_step [OF F this recovered(3,5,6)] ok show ?thesis
      unfolding recovered(1) by (simp add: cluster_ok_def)
  qed
qed

lemma cluster_ok_reach:
  "(cluster_step L F)\<^sup>*\<^sup>* cl cl' \<Longrightarrow> formats_ok F \<Longrightarrow> cluster_ok L F m cl \<Longrightarrow> cluster_ok L F m cl'"
  by (induction rule: rtranclp_induct) (auto intro: cluster_ok_step)

end

end
