(* ===== verification/ClusterSafety.thy ===== *)
theory ClusterSafety
  imports Cluster
begin

text \<open>
  What holds of a cluster: one database, no replica stuck, linearizable reads, recovery from a crash. All of
  it is about the steps of \<open>cluster_step\<close>, so about batches of commands that do not meet, and snapshots
  between replicas with empty queues.
\<close>

section \<open>Getting on\<close>

lemma log_grows: "(cluster_step L F)\<^sup>*\<^sup>* cl cl' \<Longrightarrow> \<exists>es. clLog cl' = clLog cl @ es"
proof (induction rule: rtranclp_induct)
  case base
  then show ?case by simp
next
  case (step cl1 cl2)
  from step.hyps(2) have "\<exists>es. clLog cl2 = clLog cl1 @ es" by cases auto
  with step.IH show ?case by auto
qed

context reliable_libs begin

text \<open>A replica can be synced at any time, and once it has been, it can apply the next entry.\<close>

lemma sync_step:
  assumes "cluster_ok L F m cl"
  shows "\<exists>cl'. cluster_step L F cl cl' \<and> clLog cl' = clLog cl \<and> rpApplied (clReplica cl' r) = rpApplied (clReplica cl r) \<and>
    pending (rpState (clReplica cl' r)) = []"
proof -
  let ?rp = "clReplica cl r"
  have inv: "run_inv L (rpState ?rp)" "set alphabet_runes = dom (shardMap (rpState ?rp))"
    using assms by (simp_all add: cluster_ok_def replica_ok_def)
  obtain s' where s': "sm_step L (rpState ?rp) Synced s'"
    using synced_possible [OF inv(1) distinct_alphabet_runes inv(2)] by blast
  then obtain order where order: "distinct order" "set order = dom (shardMap (rpState ?rp))"
      "Sync L order (rpState ?rp) = Done (s', None)" unfolding sm_step_synced by blast
  obtain m where "db_view L (rpState ?rp) = Some m" using inv(1) by (auto simp: run_inv_def sm_inv_def)
  from synced_empty [OF inv(1) this s'] have "pending s' = []" by blast
  with cluster_step.synced [OF refl order] show ?thesis by fastforce
qed

lemma apply_step:
  assumes ok: "cluster_ok L F m cl" and less: "rpApplied (clReplica cl r) < length (clLog cl)"
    and empty: "pending (rpState (clReplica cl r)) = []"
  shows "\<exists>cl'. cluster_step L F cl cl' \<and> clLog cl' = clLog cl \<and>
    rpApplied (clReplica cl' r) = Suc (rpApplied (clReplica cl r))"
proof -
  let ?rp = "clReplica cl r"
  let ?a = "rpApplied ?rp"
  have inv: "sm_inv L (rpState ?rp)" "set alphabet_runes = dom (shardMap (rpState ?rp))"
    using ok by (simp_all add: cluster_ok_def replica_ok_def run_inv_def)
  obtain raw c where e: "clLog cl ! ?a = (raw, c)" by (cases "clLog cl ! ?a")
  then have "(raw, c) \<in> set (clLog cl)" using less by (metis nth_mem)
  then have c: "ParseCommand (libDecode L) raw = Inr c" "alters (cmdType c)" "part_rune c \<in> set alphabet_runes"
    using ok by (auto simp: cluster_ok_def)
  have chunk: "[(raw, c)] = take 1 (drop ?a (clLog cl))"
    using e less by (simp add: take_Suc_conv_app_nth take_Suc hd_drop_conv_nth)
  have safe: "batch_safe (rpState ?rp) (map snd [(raw, c)])"
    using one_safe [OF empty c(2)] c(3) inv(2) by (auto simp: dom_def)
  have "\<forall>(raw, c) \<in> set [(raw, c)]. ParseCommand (libDecode L) raw = Inr c" using c(1) by simp
  then obtain s' ups' where "Update L alphabet_runes (rpState ?rp) (numbered ?a [(raw, c)]) = Done (s', ups', None)"
    using Update_gets_through [OF begin_ok inv(1) distinct_alphabet_runes numbered_parse] by blast
  from cluster_step.applied [OF refl chunk distinct_alphabet_runes inv(2) safe this] show ?thesis by fastforce
qed

lemma catch_up_to:
  assumes "formats_ok F" and "cluster_ok L F m cl" and "rpApplied (clReplica cl r) \<le> n" and "n \<le> length (clLog cl)"
  shows "\<exists>cl'. (cluster_step L F)\<^sup>*\<^sup>* cl cl' \<and> clLog cl' = clLog cl \<and> rpApplied (clReplica cl' r) = n"
  using assms(2-4)
proof (induction "n - rpApplied (clReplica cl r)" arbitrary: cl)
  case 0
  then show ?case by (intro exI [of _ cl]) simp
next
  case (Suc k)
  obtain cl1 where cl1: "cluster_step L F cl cl1" "clLog cl1 = clLog cl"
      "rpApplied (clReplica cl1 r) = rpApplied (clReplica cl r)" "pending (rpState (clReplica cl1 r)) = []"
    using sync_step [OF Suc.prems(1)] by blast
  have ok1: "cluster_ok L F m cl1" by (rule cluster_ok_step [OF assms(1) Suc.prems(1) cl1(1)])
  have "rpApplied (clReplica cl1 r) < length (clLog cl1)" using Suc.hyps(2) Suc.prems(3) cl1(2,3) by simp
  then obtain cl2 where cl2: "cluster_step L F cl1 cl2" "clLog cl2 = clLog cl"
      "rpApplied (clReplica cl2 r) = Suc (rpApplied (clReplica cl r))"
    using apply_step [OF ok1 _ cl1(4)] cl1(2,3) by metis
  have "k = n - rpApplied (clReplica cl2 r)" "rpApplied (clReplica cl2 r) \<le> n" "n \<le> length (clLog cl2)"
    using Suc.hyps(2) Suc.prems(3) cl2(2,3) by simp_all
  from Suc.hyps(1) [OF this(1) cluster_ok_step [OF assms(1) ok1 cl2(1)] this(2,3)] obtain cl' where
    "(cluster_step L F)\<^sup>*\<^sup>* cl2 cl'" "clLog cl' = clLog cl" "rpApplied (clReplica cl' r) = n"
    using cl2(2) by metis
  with cl1(1) cl2(1) show ?case by (metis converse_rtranclp_into_rtranclp)
qed

end

lemma reached_ok:
  assumes "reliable_libs L" and "formats_ok F" and "first_state L m s" and "(cluster_step L F)\<^sup>*\<^sup>* (cluster_start s) cl"
  shows "cluster_ok L F m cl"
  by (rule reliable_libs.cluster_ok_reach [OF assms(1,4,2) cluster_start_ok [OF assms(3)]])

section \<open>One database\<close>

text \<open>C3: A cluster serves one database, in every state that these steps lead to. An entry is committed: a command that
  alters the database, of a partition that has a shard and of a size that bolt stores. A replica applies the
  next entries of the log in one batch, which is safe where it is applied: no two of its commands meet, none
  finds a \<open>DEL\<close> as the newest queued command it meets, and of those of one shard either all find something
  queued or none the creation or deletion of its partition. A replica is synced, without interruption. It
  stops between calls and is opened again from a disk that holds what was synced, and is given the log from the
  stored index on. With nothing queued, it prepares a snapshot from files that hold its databases. And with
  nothing queued it recovers from one, into files that are not longer, where its open databases read what is
  then in their files. Then each replica shows what the contract makes of the log up to the entry it has
  applied, and whichever replica answers an entry, and however often, answers what the contract
  answers at its place in the log. What happens with batches that are not safe (\<open>Anomalies\<close>), with queued
  commands at a snapshot (\<open>SnapshotTransfer\<close>) and in an interrupted \<open>Sync\<close> (\<open>TornSync\<close>) is not covered here.\<close>

theorem replicas_serve_one_database:
  assumes "reliable_libs L" and "formats_ok F" and "first_state L m s"
    and "(cluster_step L F)\<^sup>*\<^sup>* (cluster_start s) cl"
  shows "(\<forall>r. rpApplied (clReplica cl r) \<le> length (clLog cl) \<and>
      db_view L (rpState (clReplica cl r)) =
        Some (content_after (libDecode L) m (clLog cl) (rpApplied (clReplica cl r)))) \<and>
    (\<forall>(j, v) \<in> set (clAnswers cl). j < length (clLog cl) \<and> v = code_at (libDecode L) m (clLog cl) j)"
  using reached_ok [OF assms] by (simp add: cluster_ok_def replica_ok_def)

text \<open>C4: No replica gets stuck, in a cluster of the steps of C3. From every state that is reached by them (safe
  batches, uninterrupted syncs, crashes between calls, snapshots and recoveries with empty queues) a replica
  can be taken to the end of the log by being synced and given one entry at a time, and then shows what the
  contract makes of the whole log. The state after a batch whose \<open>Sync\<close> panics is not one of these states.\<close>

theorem replicas_catch_up:
  assumes "reliable_libs L" and "formats_ok F" and "first_state L m s"
    and "(cluster_step L F)\<^sup>*\<^sup>* (cluster_start s) cl"
  shows "\<exists>cl'. (cluster_step L F)\<^sup>*\<^sup>* cl cl' \<and> clLog cl' = clLog cl \<and>
    rpApplied (clReplica cl' r) = length (clLog cl) \<and>
    db_view L (rpState (clReplica cl' r)) = Some (snd (spec_run (libDecode L) (map snd (clLog cl)) m))"
proof -
  have ok: "cluster_ok L F m cl" by (rule reached_ok [OF assms])
  then have "rpApplied (clReplica cl r) \<le> length (clLog cl)" by (simp add: cluster_ok_def replica_ok_def)
  from reliable_libs.catch_up_to [OF assms(1,2) ok this order_refl] obtain cl' where
    cl': "(cluster_step L F)\<^sup>*\<^sup>* cl cl'" "clLog cl' = clLog cl" "rpApplied (clReplica cl' r) = length (clLog cl)"
    by blast
  have "cluster_ok L F m cl'" by (rule reliable_libs.cluster_ok_reach [OF assms(1) cl'(1) assms(2) ok])
  then have "db_view L (rpState (clReplica cl' r)) = Some (snd (spec_run (libDecode L) (map snd (clLog cl)) m))"
    using cl'(2,3) by (simp add: cluster_ok_def replica_ok_def content_after_def)
  with cl' show ?thesis by blast
qed

section \<open>Reads\<close>

text \<open>C5: Reads are linearizable, in a cluster of the steps of C3, with one exception. A client asks for a document
  of a partition with a shard when the cluster is at \<open>cl\<close>; some replica answers when the cluster is at \<open>cl'\<close>, by
  which time it has applied the log of \<open>cl\<close>, as Dragonboat makes sure of for linearizable reads. The answer is
  that of the contract at a place in the log between the question and the answer. So a read sees all that was
  committed before it was asked, and a later read sees no less. The exception: that the newest command in the
  queue of the replica that meets the document creates its partition anew, while the shard still holds the
  document.\<close>

theorem cluster_reads_linearizable:
  assumes "reliable_libs L" and "formats_ok F" and "first_state L m s"
    and "(cluster_step L F)\<^sup>*\<^sup>* (cluster_start s) cl" and "(cluster_step L F)\<^sup>*\<^sup>* cl cl'"
    and "length (clLog cl) \<le> rpApplied (clReplica cl' r)"
    and "ParseCommand (libDecode L) raw = Inr c" and "cmdType c = GET" and "part_rune c \<in> set alphabet_runes"
    and "not_recreated L (rpState (clReplica cl' r)) c"
  shows "\<exists>es n. clLog cl' = clLog cl @ es \<and> length (clLog cl) \<le> n \<and> n \<le> length (clLog cl') \<and>
    Lookup L (rpState (clReplica cl' r)) raw =
      Done (Inr (view_answer (content_after (libDecode L) m (clLog cl') n) c))"
proof -
  obtain es where es: "clLog cl' = clLog cl @ es" using log_grows [OF assms(5)] by blast
  have "cluster_ok L F m cl'"
    by (rule reached_ok [OF assms(1-3) rtranclp_trans [OF assms(4,5)]])
  then have ok: "replica_ok L m (clLog cl') (clReplica cl' r)" by (simp add: cluster_ok_def)
  then have "sm_inv L (rpState (clReplica cl' r))" "shardMap (rpState (clReplica cl' r)) (part_rune c) \<noteq> None"
      "db_view L (rpState (clReplica cl' r)) =
        Some (content_after (libDecode L) m (clLog cl') (rpApplied (clReplica cl' r)))"
    using assms(9) by (auto simp: replica_ok_def run_inv_def)
  from GET_answers [OF assms(1) this(1,3) assms(7,8) this(2) assms(10)]
  show ?thesis using es assms(6) ok by (auto simp: replica_ok_def)
qed

section \<open>Recovery from a crash\<close>

text \<open>C9: Recovery from a crash between the calls of the state machine, in a cluster of the steps of C3 (safe
  batches, uninterrupted syncs, snapshots with empty queues). What a replica has queued is lost, its
  databases are on its disk. \<open>Open\<close> returns an index not beyond what the replica had applied, and the databases
  show what the contract makes of the log up to that very index. Given the log from there on, in whatever
  batches of these steps and with whatever else of them happening, the replica can get to where it was, and
  whenever it is there, it shows the view that was lost, and every entry that has been answered again has been
  answered as before.\<close>

theorem crash_recovery:
  assumes "reliable_libs L" and "formats_ok F" and "first_state L m s"
    and "(cluster_step L F)\<^sup>*\<^sup>* (cluster_start s) cl" and "on_disk P prefix (rpState (clReplica cl r))"
  shows "\<exists>t i cl1. Open L P prefix NewByStateMachine = Done (t, i, None) \<and>
    unat i \<le> rpApplied (clReplica cl r) \<and> db_view L t = Some (content_after (libDecode L) m (clLog cl) (unat i)) \<and>
    cl1 = cl\<lparr>clReplica := (clReplica cl)(r := \<lparr>rpState = t, rpApplied = unat i\<rparr>)\<rparr> \<and>
    (\<exists>cl2. (cluster_step L F)\<^sup>*\<^sup>* cl1 cl2 \<and> rpApplied (clReplica cl2 r) = rpApplied (clReplica cl r)) \<and>
    (\<forall>cl2. (cluster_step L F)\<^sup>*\<^sup>* cl1 cl2 \<and> rpApplied (clReplica cl2 r) = rpApplied (clReplica cl r) \<longrightarrow>
      db_view L (rpState (clReplica cl2 r)) = db_view L (rpState (clReplica cl r)) \<and>
      (\<forall>j v v'. (j, v) \<in> set (clAnswers cl) \<and> (j, v') \<in> set (clAnswers cl2) \<longrightarrow> v' = v))"
proof -
  let ?rp = "clReplica cl r" and ?js = "libDecode L"
  have ok: "cluster_ok L F m cl" by (rule reached_ok [OF assms(1-4)])
  then have rp: "replica_ok L m (clLog cl) ?rp" by (simp add: cluster_ok_def)
  then have "meta_ready L (rpState ?rp)" "stored_index L (rpState ?rp) = Done (lastIndex (rpState ?rp), None)"
    by (simp_all add: replica_ok_def run_inv_def)
  from reliable_libs.Open_again [OF assms(1,5) this] obtain t where
    t: "Open L P prefix NewByStateMachine = Done (t, lastIndex (rpState ?rp), None)" by blast
  let ?i = "lastIndex (rpState ?rp)"
  let ?cl1 = "cl\<lparr>clReplica := (clReplica cl)(r := \<lparr>rpState = t, rpApplied = unat ?i\<rparr>)\<rparr>"
  have new: "?rp\<lparr>rpState := t, rpApplied := unat ?i\<rparr> = \<lparr>rpState = t, rpApplied = unat ?i\<rparr>"
    by (cases ?rp) simp
  have step: "cluster_step L F cl ?cl1"
    using cluster_step.restarted [OF refl assms(5) t] unfolding new by simp
  have ok1: "cluster_ok L F m ?cl1" by (rule reliable_libs.cluster_ok_step [OF assms(1,2) ok step])
  have le: "unat ?i \<le> rpApplied ?rp" "rpApplied ?rp \<le> length (clLog cl)"
    using rp unat_highest [of "rpState ?rp" "rpApplied ?rp"] by (simp_all add: replica_ok_def)
  have "replica_ok L m (clLog cl) \<lparr>rpState = t, rpApplied = unat ?i\<rparr>"
    using ok1 by (auto simp: cluster_ok_def dest: spec [of _ r])
  then have view: "db_view L t = Some (content_after ?js m (clLog cl) (unat ?i))" by (simp add: replica_ok_def)
  obtain cl2 where "(cluster_step L F)\<^sup>*\<^sup>* ?cl1 cl2" "rpApplied (clReplica cl2 r) = rpApplied ?rp"
    using reliable_libs.catch_up_to [OF assms(1,2) ok1, of r "rpApplied ?rp"] le by auto
  moreover have "db_view L (rpState (clReplica cl2 r)) = db_view L (rpState ?rp) \<and>
      (\<forall>j v v'. (j, v) \<in> set (clAnswers cl) \<and> (j, v') \<in> set (clAnswers cl2) \<longrightarrow> v' = v)"
    if run: "(cluster_step L F)\<^sup>*\<^sup>* ?cl1 cl2" and there: "rpApplied (clReplica cl2 r) = rpApplied ?rp" for cl2
  proof -
    obtain es where es: "clLog cl2 = clLog cl @ es" using log_grows [OF run] by auto
    have ok2: "cluster_ok L F m cl2" by (rule reliable_libs.cluster_ok_reach [OF assms(1) run assms(2) ok1])
    then have "db_view L (rpState (clReplica cl2 r)) = Some (content_after ?js m (clLog cl2) (rpApplied ?rp))"
      using there by (auto simp: cluster_ok_def replica_ok_def)
    moreover have "db_view L (rpState ?rp) = Some (content_after ?js m (clLog cl) (rpApplied ?rp))"
      using rp by (simp add: replica_ok_def)
    moreover have "v' = v" if "(j, v) \<in> set (clAnswers cl)" "(j, v') \<in> set (clAnswers cl2)" for j v v'
      using that ok ok2 es by (fastforce simp: cluster_ok_def code_at_append)
    ultimately show ?thesis using es le(2) by (auto simp: content_after_append)
  qed
  ultimately show ?thesis using t le(1) view by blast
qed

section \<open>A concrete cluster\<close>

text \<open>A cluster over the concrete libraries: a deletion is committed, one replica applies it.\<close>

definition exFormats :: "mem_db formats" where
  "exFormats = \<lparr>fmRead = exRead, fmEncode = exPack, fmDecode = exUnpack\<rparr>"

lemma formats_exFormats: "formats_ok exFormats"
  using exUnpack_exPack by (simp add: formats_ok_def exFormats_def)

lemma first_exStored: "first_state exLibs exContent exStored"
  using run_inv_exStored ex_stored_index exStored_ok(2) dom_exStored by (simp add: first_state_def)

definition exCluster :: "(mem_db, ex_ix) cluster" where
  "exCluster = cluster_start exStored\<lparr>clLog := [(''DEL '' @ ''a'' @ '' '' @ ''x'' @ '' 7'', cmdDel7 ''a'' ''x'')]\<rparr>"

lemma ex_commit: "(cluster_step exLibs exFormats)\<^sup>*\<^sup>* (cluster_start exStored) exCluster"
proof -
  let ?raw = "''DEL '' @ ''a'' @ '' '' @ ''x'' @ '' 7''" and ?c = "cmdDel7 ''a'' ''x''" and ?cl = "cluster_start exStored"
  have "ParseCommand (libDecode exLibs) ?raw = Inr ?c"
    using parse_Del7 [of "''a''" "''x''" exDecode] by simp
  moreover have "alters (cmdType ?c)" "storable ?c" "part_rune ?c \<in> set alphabet_runes" "length (clLog ?cl) + 1 < 2 ^ 64"
    by (simp_all add: cmd_defs part_rune_def type_defs storable_def FullId_def max_key_size_def max_value_size_def
        alphabet_runes_eq cluster_start_def)
  ultimately have "cluster_step exLibs exFormats ?cl (?cl\<lparr>clLog := clLog ?cl @ [(?raw, ?c)]\<rparr>)"
    by (rule cluster_step.commit)
  then have "cluster_step exLibs exFormats ?cl exCluster" by (simp add: exCluster_def cluster_start_def)
  then show ?thesis by (rule r_into_rtranclp)
qed

lemma ex_run_del: "spec_run exDecode [cmdDel7 ''a'' ''x''] exContent = ([200], [''a'' \<mapsto> Map.empty])"
proof -
  let ?c = "cmdDel7 ''a'' ''x''"
  have code: "spec_code exDecode ?c exContent = 200" using ex_del_code by simp
  then have "spec_effect exDecode ?c exContent = the (apply_command ?c exContent)" by (simp add: spec_effect_def)
  also have "\<dots> = [''a'' \<mapsto> Map.empty]"
    by (simp add: apply_command_def cmd_defs exContent_def FullId_def type_defs)
  finally show ?thesis using code by (simp add: split_beta)
qed

lemma exCluster_ok: "cluster_ok exLibs exFormats exContent exCluster"
  by (rule reached_ok [OF reliable_exLibs formats_exFormats first_exStored ex_commit])

text \<open>Replica 0 has applied the log and is synced.\<close>

lemma ex_caught_up:
  "\<exists>cl. (cluster_step exLibs exFormats)\<^sup>*\<^sup>* exCluster cl \<and> clLog cl = clLog exCluster \<and>
    rpApplied (clReplica cl 0) = 1 \<and> pending (rpState (clReplica cl 0)) = []"
proof -
  have "rpApplied (clReplica exCluster 0) \<le> 1" "1 \<le> length (clLog exCluster)"
    by (simp_all add: exCluster_def cluster_start_def)
  from reliable_libs.catch_up_to [OF reliable_exLibs formats_exFormats exCluster_ok this] obtain cl1 where
    cl1: "(cluster_step exLibs exFormats)\<^sup>*\<^sup>* exCluster cl1" "clLog cl1 = clLog exCluster"
      "rpApplied (clReplica cl1 0) = 1"
    by blast
  have "cluster_ok exLibs exFormats exContent cl1"
    by (rule reliable_libs.cluster_ok_reach [OF reliable_exLibs cl1(1) formats_exFormats exCluster_ok])
  from reliable_libs.sync_step [OF reliable_exLibs this, of 0]
  obtain cl where cl: "cluster_step exLibs exFormats cl1 cl" "clLog cl = clLog exCluster"
      "rpApplied (clReplica cl 0) = 1" "pending (rpState (clReplica cl 0)) = []"
    using cl1(2,3) by metis
  with cl1(1) show ?thesis by (meson rtranclp.rtrancl_into_rtrancl)
qed

theorem replicas_serve_one_database_witness:
  "\<exists>cl. (cluster_step exLibs exFormats)\<^sup>*\<^sup>* (cluster_start exStored) cl \<and> rpApplied (clReplica cl 0) = 1 \<and>
    db_view exLibs (rpState (clReplica cl 0)) = Some [''a'' \<mapsto> Map.empty]"
proof -
  obtain cl where cl: "(cluster_step exLibs exFormats)\<^sup>*\<^sup>* exCluster cl" "clLog cl = clLog exCluster"
      "rpApplied (clReplica cl 0) = 1"
    using ex_caught_up by blast
  then have reach: "(cluster_step exLibs exFormats)\<^sup>*\<^sup>* (cluster_start exStored) cl" using ex_commit by (metis rtranclp_trans)
  from replicas_serve_one_database [OF reliable_exLibs formats_exFormats first_exStored this] cl(2,3) ex_run_del
  have "db_view exLibs (rpState (clReplica cl 0)) = Some [''a'' \<mapsto> Map.empty]"
    by (simp add: content_after_def exCluster_def)
  with reach cl(3) show ?thesis by blast
qed

theorem replicas_catch_up_witness:
  "\<exists>cl. (cluster_step exLibs exFormats)\<^sup>*\<^sup>* exCluster cl \<and>
    db_view exLibs (rpState (clReplica cl 0)) = Some [''a'' \<mapsto> Map.empty]"
proof -
  have "map snd (clLog exCluster) = [cmdDel7 ''a'' ''x'']" by (simp add: exCluster_def)
  with replicas_catch_up [OF reliable_exLibs formats_exFormats first_exStored ex_commit, of 0] ex_run_del
  show ?thesis by (metis exLibs_simps snd_conv)
qed

theorem cluster_reads_linearizable_witness:
  "\<exists>cl. (cluster_step exLibs exFormats)\<^sup>*\<^sup>* exCluster cl \<and>
    Lookup exLibs (rpState (clReplica cl 0)) (''GET '' @ ''a'' @ '' '' @ ''x'') = Done (Inr NotFound)"
proof -
  let ?c = "cmdGet ''a'' ''x''"
  obtain cl where cl: "(cluster_step exLibs exFormats)\<^sup>*\<^sup>* exCluster cl" "clLog cl = clLog exCluster"
      "rpApplied (clReplica cl 0) = 1" "pending (rpState (clReplica cl 0)) = []"
    using ex_caught_up by blast
  have parsed: "ParseCommand (libDecode exLibs) (''GET '' @ ''a'' @ '' '' @ ''x'') = Inr ?c"
    using parse_Get [of "''a''" "''x''" exDecode] by simp
  have c: "length (clLog exCluster) \<le> rpApplied (clReplica cl 0)" "cmdType ?c = GET"
      "part_rune ?c \<in> set alphabet_runes" "not_recreated exLibs (rpState (clReplica cl 0)) ?c"
    using cl(3,4)
    by (simp_all add: not_recreated_def findCommandInPending_def cmd_defs part_rune_def alphabet_runes_eq exCluster_def)
  obtain n where n: "length (clLog exCluster) \<le> n" "n \<le> length (clLog cl)"
      "Lookup exLibs (rpState (clReplica cl 0)) (''GET '' @ ''a'' @ '' '' @ ''x'') =
        Done (Inr (view_answer (content_after exDecode exContent (clLog cl) n) ?c))"
    using cluster_reads_linearizable [OF reliable_exLibs formats_exFormats first_exStored ex_commit cl(1) c(1)
        parsed c(2-4)] by auto
  have "content_after exDecode exContent (clLog cl) n = [''a'' \<mapsto> Map.empty]"
    using n(1,2) cl(2) ex_run_del by (simp add: content_after_def exCluster_def)
  then have "view_answer (content_after exDecode exContent (clLog cl) n) ?c = NotFound"
    by (simp add: view_answer_def sees_def cmd_defs)
  with n(3) cl(1) show ?thesis by auto
qed

theorem crash_recovery_witness:
  "\<exists>cl t i cl2. (cluster_step exLibs exFormats)\<^sup>*\<^sup>* exCluster cl \<and>
    Open exLibs (diskOf ''n'' (rpState (clReplica cl 0))) ''n'' NewByStateMachine = Done (t, i, None) \<and> unat i \<le> 1 \<and>
    (cluster_step exLibs exFormats)\<^sup>*\<^sup>* (cl\<lparr>clReplica := (clReplica cl)(0 := \<lparr>rpState = t, rpApplied = unat i\<rparr>)\<rparr>) cl2 \<and>
    db_view exLibs (rpState (clReplica cl2 0)) = db_view exLibs (rpState (clReplica cl 0))"
proof -
  obtain cl where cl: "(cluster_step exLibs exFormats)\<^sup>*\<^sup>* exCluster cl" "rpApplied (clReplica cl 0) = 1"
    using ex_caught_up by blast
  then have reach: "(cluster_step exLibs exFormats)\<^sup>*\<^sup>* (cluster_start exStored) cl" using ex_commit by (metis rtranclp_trans)
  have "replica_ok exLibs exContent (clLog cl) (clReplica cl 0)"
    using reached_ok [OF reliable_exLibs formats_exFormats first_exStored reach] by (simp add: cluster_ok_def)
  then have "on_disk (diskOf ''n'' (rpState (clReplica cl 0))) ''n'' (rpState (clReplica cl 0))"
    by (intro on_diskOf) (auto simp: replica_ok_def run_inv_def meta_ready_def split: option.splits)
  from crash_recovery [OF reliable_exLibs formats_exFormats first_exStored reach this] cl show ?thesis by metis
qed

end
