(* ===== verification/LearnStore.thy ===== *)
theory LearnStore
  imports Shard Dir
begin

text \<open>
  \<^verbatim>\<open>learn/bolt-bleve/store.go\<close>: the store of one process that the shards grew out of. A partition is a
  bolt database and a bleve index in one directory, opened for each operation and closed after it.
  At the end the example programs that use it, and bolt alone: \<^verbatim>\<open>learn/bolt-bleve/main.go\<close> and
  \<^verbatim>\<open>learn/boltdb/main.go\<close>.
\<close>

section \<open>Documents and libraries\<close>

record LearnDocument =
  ldId :: string
  ldPart :: string
  ldData :: "(string, go_any) fmap option"

text \<open>
  \<open>lsEncode\<close> and \<open>lsDecode\<close> are \<^verbatim>\<open>encoding/json\<close>; the index takes one document at a time, outside the
  transaction of the database.
\<close>

record ('db, 'ix) storeLibs =
  lsEncode :: "LearnDocument \<Rightarrow> gerror + string"
  lsDecode :: "string \<Rightarrow> gerror + LearnDocument"
  lsBolt :: "'db bolt"
  lsIndex :: "'ix \<Rightarrow> string \<Rightarrow> (string, go_any) fmap option \<Rightarrow> gerror + 'ix"
  lsDelete :: "'ix \<Rightarrow> string \<Rightarrow> gerror + 'ix"
  lsSearch :: "'ix \<Rightarrow> string \<Rightarrow> gerror + (string \<times> u64) list"

record ('db, 'ix) partition =
  ptIndex :: 'ix
  ptBlock :: 'db
  ptName :: string

record learnMatch =
  lmScore :: u64
  lmDoc :: LearnDocument

section \<open>A partition\<close>

text \<open>
  A transaction whose function also changes the index: an error rolls the database back and not the
  index, and an error of the commit comes after the index has changed.
\<close>

definition updateBoth ::
  "'db bolt \<Rightarrow> ('db, 'ix) partition \<Rightarrow> ('db \<Rightarrow> 'ix \<Rightarrow> 'ix \<times> (gerror + 'db)) \<Rightarrow>
    ('db, 'ix) partition \<times> gerror option" where
  "updateBoth B p fn =
    (case txBegin B (ptBlock p) of
       Some err \<Rightarrow> (p, Some err)
     | None \<Rightarrow>
        (case fn (ptBlock p) (ptIndex p) of
           (ix, Inl err) \<Rightarrow> (p\<lparr>ptIndex := ix\<rparr>, Some err)
         | (ix, Inr db) \<Rightarrow>
            (case txCommit B db of
               Inl err \<Rightarrow> (p\<lparr>ptIndex := ix\<rparr>, Some err)
             | Inr db' \<Rightarrow> (p\<lparr>ptIndex := ix, ptBlock := db'\<rparr>, None))))"

definition AddDoc ::
  "('db, 'ix) storeLibs \<Rightarrow> ('db, 'ix) partition \<Rightarrow> LearnDocument \<Rightarrow> ('db, 'ix) partition \<times> gerror option" where
  "AddDoc L p doc =
    (case lsEncode L doc of
       Inl jsErr \<Rightarrow> (p, Some jsErr)
     | Inr jsDoc \<Rightarrow> updateBoth (lsBolt L) p (\<lambda>db ix.
        case txCreateBucketIfNotExists (lsBolt L) db (ptName p) of
          Inl bucketErr \<Rightarrow> (ix, Inl bucketErr)
        | Inr db1 \<Rightarrow>
           (case bktPut (lsBolt L) db1 (ptName p) (ldId doc) jsDoc of
              Inl err \<Rightarrow> (ix, Inl err)
            | Inr db2 \<Rightarrow>
               (case lsIndex L ix (ldId doc) (ldData doc) of
                  Inl err \<Rightarrow> (ix, Inl err)
                | Inr ix' \<Rightarrow> (ix', Inr db2)))))"

text \<open>A partition without a bucket is a nil dereference; a document that is not there is decoded from
  no bytes.\<close>

definition GetDoc ::
  "('db, 'ix) storeLibs \<Rightarrow> ('db, 'ix) partition \<Rightarrow> string \<Rightarrow> (gerror + LearnDocument) outcome" where
  "GetDoc L p i =
    (case txBegin (lsBolt L) (ptBlock p) of
       Some err \<Rightarrow> Done (Inl err)
     | None \<Rightarrow>
        if \<not> txBucket (lsBolt L) (ptBlock p) (ptName p) then Panic NilDeref
        else Done (lsDecode L (case bktGet (lsBolt L) (ptBlock p) (ptName p) i of None \<Rightarrow> [] | Some v \<Rightarrow> v)))"

definition DeleteDoc ::
  "('db, 'ix) storeLibs \<Rightarrow> ('db, 'ix) partition \<Rightarrow> string \<Rightarrow> ('db, 'ix) partition \<times> gerror option" where
  "DeleteDoc L p i = updateBoth (lsBolt L) p (\<lambda>db ix.
    case txCreateBucketIfNotExists (lsBolt L) db (ptName p) of
      Inl bucketErr \<Rightarrow> (ix, Inl bucketErr)
    | Inr db1 \<Rightarrow>
       (case bktDelete (lsBolt L) db1 (ptName p) i of
          Inl err \<Rightarrow> (ix, Inl err)
        | Inr db2 \<Rightarrow>
           (case lsDelete L ix i of
              Inl err \<Rightarrow> (ix, Inl err)
            | Inr ix' \<Rightarrow> (ix', Inr db2))))"

fun searchHits ::
  "('db, 'ix) storeLibs \<Rightarrow> ('db, 'ix) partition \<Rightarrow> (string \<times> u64) list \<Rightarrow> (gerror + learnMatch list) outcome" where
  "searchHits L p [] = Done (Inr [])"
| "searchHits L p ((i, score) # hits) =
    (if \<not> txBucket (lsBolt L) (ptBlock p) (ptName p) then Panic NilDeref
     else case bktGet (lsBolt L) (ptBlock p) (ptName p) i of
         None \<Rightarrow> searchHits L p hits
       | Some jsDoc \<Rightarrow>
          (case lsDecode L jsDoc of
             Inl jsErr \<Rightarrow> Done (Inl jsErr)
           | Inr d \<Rightarrow>
              map_outcome (map_sum id (\<lambda>ms. \<lparr>lmScore = score, lmDoc = d\<rparr> # ms)) (searchHits L p hits)))"

definition SearchDocs ::
  "('db, 'ix) storeLibs \<Rightarrow> ('db, 'ix) partition \<Rightarrow> string \<Rightarrow> (gerror + learnMatch list) outcome" where
  "SearchDocs L p searchStr =
    (case lsSearch L (ptIndex p) searchStr of
       Inl err \<Rightarrow> Done (Inl err)
     | Inr hits \<Rightarrow>
        (case txBegin (lsBolt L) (ptBlock p) of
           Some err \<Rightarrow> Done (Inl err)
         | None \<Rightarrow> searchHits L p hits))"

section \<open>The store\<close>

text \<open>What is on disk: an index and a database at a path. Opening makes what is missing.\<close>

record ('db, 'ix) disk =
  dkIndex :: "string \<Rightarrow> gerror + 'ix"
  dkBolt :: "string \<Rightarrow> gerror + 'db"

definition OpenPartition ::
  "('db, 'ix) disk \<Rightarrow> string \<Rightarrow> string \<Rightarrow> gerror + ('db, 'ix) partition" where
  "OpenPartition D name partitionPath =
    (case dkIndex D partitionPath of
       Inl blErr \<Rightarrow> Inl blErr
     | Inr index \<Rightarrow>
        (case dkBolt D (Join [partitionPath, ''block.bolt'']) of
           Inl boltErr \<Rightarrow> Inl boltErr
         | Inr block \<Rightarrow> Inr \<lparr>ptIndex = index, ptBlock = block, ptName = name\<rparr>))"

definition getPartition ::
  "('db, 'ix) disk \<Rightarrow> string \<Rightarrow> string \<Rightarrow> gerror + ('db, 'ix) partition" where
  "getPartition D basePath part = OpenPartition D part (Join [basePath, ''part'', part])"

text \<open>The operations open the partition and return it as they close it, with the error.\<close>

definition storePut ::
  "('db, 'ix) storeLibs \<Rightarrow> ('db, 'ix) disk \<Rightarrow> string \<Rightarrow> LearnDocument \<Rightarrow>
    gerror + ('db, 'ix) partition \<times> gerror option" where
  "storePut L D basePath doc = map_sum id (\<lambda>p. AddDoc L p doc) (getPartition D basePath (ldPart doc))"

definition storeGet ::
  "('db, 'ix) storeLibs \<Rightarrow> ('db, 'ix) disk \<Rightarrow> string \<Rightarrow> string \<Rightarrow> string \<Rightarrow> (gerror + LearnDocument) outcome" where
  "storeGet L D basePath part i =
    (case getPartition D basePath part of Inl err \<Rightarrow> Done (Inl err) | Inr p \<Rightarrow> GetDoc L p i)"

definition storeDelete ::
  "('db, 'ix) storeLibs \<Rightarrow> ('db, 'ix) disk \<Rightarrow> string \<Rightarrow> string \<Rightarrow> string \<Rightarrow>
    gerror + ('db, 'ix) partition \<times> gerror option" where
  "storeDelete L D basePath part i = map_sum id (\<lambda>p. DeleteDoc L p i) (getPartition D basePath part)"

definition storeSearch ::
  "('db, 'ix) storeLibs \<Rightarrow> ('db, 'ix) disk \<Rightarrow> string \<Rightarrow> string \<Rightarrow> string \<Rightarrow>
    (gerror + learnMatch list) outcome" where
  "storeSearch L D basePath part searchStr =
    (case getPartition D basePath part of Inl err \<Rightarrow> Done (Inl err) | Inr p \<Rightarrow> SearchDocs L p searchStr)"

text \<open>\<^verbatim>\<open>Purge\<close> removes the directory: below it there is what is made anew.\<close>

definition storePurge :: "('db, 'ix) disk \<Rightarrow> ('db, 'ix) disk \<Rightarrow> string \<Rightarrow> ('db, 'ix) disk" where
  "storePurge fresh D basePath =
    (let gone = (\<lambda>p. p = basePath \<or> has_prefix p (basePath @ [slash])) in
     D\<lparr>dkIndex := (\<lambda>p. if gone p then dkIndex fresh p else dkIndex D p),
       dkBolt := (\<lambda>p. if gone p then dkBolt fresh p else dkBolt D p)\<rparr>)"

section \<open>Lemmas\<close>

text \<open>A transaction that goes through.\<close>

lemma updateBoth_ok:
  "updateBoth B p fn = (p', None) \<longleftrightarrow>
    (\<exists>ix db db'. txBegin B (ptBlock p) = None \<and> fn (ptBlock p) (ptIndex p) = (ix, Inr db) \<and>
      txCommit B db = Inr db' \<and> p' = p\<lparr>ptIndex := ix, ptBlock := db'\<rparr>)"
  by (auto simp: updateBoth_def split: option.splits prod.splits sum.splits)

context bolt_laws begin

lemma AddDoc_content:
  assumes "lsBolt L = B" and "AddDoc L p doc = (p', None)" and "lsEncode L doc = Inr jsDoc"
  shows "ptName p' = ptName p \<and> content_of B (ptBlock p') (ptName p) =
    Some ((case content_of B (ptBlock p) (ptName p) of None \<Rightarrow> Map.empty | Some m \<Rightarrow> m)(ldId doc \<mapsto> jsDoc))"
proof -
  obtain ix db1 db2 db3 where
    create: "txCreateBucketIfNotExists B (ptBlock p) (ptName p) = Inr db1"
    and put: "bktPut B db1 (ptName p) (ldId doc) jsDoc = Inr db2" and commit: "txCommit B db2 = Inr db3"
    and p': "p' = p\<lparr>ptIndex := ix, ptBlock := db3\<rparr>"
    using assms by (auto simp: AddDoc_def updateBoth_ok split: sum.splits)
  have c1: "content_of B db1 (ptName p) =
      Some (case content_of B (ptBlock p) (ptName p) of None \<Rightarrow> Map.empty | Some m \<Rightarrow> m)"
    using create_content [OF create] by simp
  then have "txBucket B db1 (ptName p)" "bktGet B db1 (ptName p) =
      (case content_of B (ptBlock p) (ptName p) of None \<Rightarrow> Map.empty | Some m \<Rightarrow> m)"
    by (simp_all add: content_of_def split: if_splits)
  with put_content [OF _ put] commit_content [OF commit] p' show ?thesis by simp
qed

lemma DeleteDoc_content:
  assumes "lsBolt L = B" and "DeleteDoc L p i = (p', None)"
  shows "ptName p' = ptName p \<and> content_of B (ptBlock p') (ptName p) =
    Some ((case content_of B (ptBlock p) (ptName p) of None \<Rightarrow> Map.empty | Some m \<Rightarrow> m)(i := None))"
proof -
  obtain ix db1 db2 db3 where
    create: "txCreateBucketIfNotExists B (ptBlock p) (ptName p) = Inr db1"
    and del: "bktDelete B db1 (ptName p) i = Inr db2" and commit: "txCommit B db2 = Inr db3"
    and p': "p' = p\<lparr>ptIndex := ix, ptBlock := db3\<rparr>"
    using assms by (auto simp: DeleteDoc_def updateBoth_ok split: sum.splits)
  have c1: "content_of B db1 (ptName p) =
      Some (case content_of B (ptBlock p) (ptName p) of None \<Rightarrow> Map.empty | Some m \<Rightarrow> m)"
    using create_content [OF create] by simp
  then have "txBucket B db1 (ptName p)" "bktGet B db1 (ptName p) =
      (case content_of B (ptBlock p) (ptName p) of None \<Rightarrow> Map.empty | Some m \<Rightarrow> m)"
    by (simp_all add: content_of_def split: if_splits)
  with delete_content [OF _ del] commit_content [OF commit] p' show ?thesis by simp
qed

text \<open>A document that was added is read back; one that was deleted is decoded from no bytes; and a
  partition that nothing was ever added to panics.\<close>

lemma Get_after_Add:
  assumes "lsBolt L = B" and "AddDoc L p doc = (p', None)" and "lsEncode L doc = Inr jsDoc"
    and "txBegin B (ptBlock p') = None"
  shows "GetDoc L p' (ldId doc) = Done (lsDecode L jsDoc)"
  using AddDoc_content [OF assms(1-3)] assms(1,4) by (auto simp: GetDoc_def content_of_def split: if_splits)

lemma Get_after_Delete:
  assumes "lsBolt L = B" and "DeleteDoc L p i = (p', None)" and "txBegin B (ptBlock p') = None"
  shows "GetDoc L p' i = Done (lsDecode L [])"
  using DeleteDoc_content [OF assms(1,2)] assms(1,3) by (auto simp: GetDoc_def content_of_def split: if_splits)

lemma Get_before_Add:
  assumes "lsBolt L = B" and "content_of B (ptBlock p) (ptName p) = None" and "txBegin B (ptBlock p) = None"
  shows "GetDoc L p i = Panic NilDeref"
  using assms by (auto simp: GetDoc_def content_of_def split: if_splits)

end

text \<open>An index that fails takes the document out of the database again.\<close>

lemma AddDoc_index_error:
  assumes "lsIndex L (ptIndex p) (ldId doc) (ldData doc) = Inl err"
  shows "ptBlock (fst (AddDoc L p doc)) = ptBlock p \<and> snd (AddDoc L p doc) \<noteq> None"
  using assms by (auto simp: AddDoc_def updateBoth_def split: sum.splits option.splits prod.splits)

section \<open>The example programs\<close>

text \<open>A partition that is closed is what the next opening of its path finds.\<close>

definition closed :: "('db, 'ix) disk \<Rightarrow> string \<Rightarrow> ('db, 'ix) partition \<Rightarrow> ('db, 'ix) disk" where
  "closed D basePath p =
    (let path = Join [basePath, ''part'', ptName p] in
     D\<lparr>dkIndex := (dkIndex D)(path := Inr (ptIndex p)),
       dkBolt := (dkBolt D)(Join [path, ''block.bolt''] := Inr (ptBlock p))\<rparr>)"

definition exampleDoc :: "(string, go_any) fmap \<Rightarrow> LearnDocument" where
  "exampleDoc data = \<lparr>ldId = ''123'', ldPart = ''omanom'', ldData = Some data\<rparr>"

definition or_panic :: "(gerror + 'a) outcome \<Rightarrow> 'a outcome" where
  "or_panic r = and_then r (\<lambda>x. case x of Inl err \<Rightarrow> Panic err | Inr a \<Rightarrow> Done a)"

text \<open>What \<^verbatim>\<open>main\<close> prints, before its results are marshalled: two searches around a \<open>Get\<close>.\<close>

definition learnMain ::
  "('db, 'ix) storeLibs \<Rightarrow> ('db, 'ix) disk \<Rightarrow> (string, go_any) fmap \<Rightarrow>
    (learnMatch list \<times> LearnDocument \<times> learnMatch list) outcome" where
  "learnMain L D data =
    (case storePut L D ''example_store'' (exampleDoc data) of
       Inl err \<Rightarrow> Panic err
     | Inr (p, Some err) \<Rightarrow> Panic err
     | Inr (p, None) \<Rightarrow>
        (let D1 = closed D ''example_store'' p in
         and_then (or_panic (storeSearch L D1 ''example_store'' ''omanom'' ''Byron'')) (\<lambda>result.
         and_then (or_panic (storeGet L D1 ''example_store'' ''omanom'' ''123'')) (\<lambda>doc.
         and_then (or_panic (storeSearch L D1 ''example_store'' ''omanom'' ''Byron'')) (\<lambda>result'.
           Done (result, doc, result'))))))"

text \<open>\<^verbatim>\<open>main\<close> of \<^verbatim>\<open>learn/boltdb\<close>: the errors of its two updates are dropped. \<open>None\<close> is \<^verbatim>\<open>log.Fatal\<close>.\<close>

definition boltMain :: "'db bolt \<Rightarrow> gerror + 'db \<Rightarrow> string option outcome" where
  "boltMain B opened =
    (case opened of
       Inl err \<Rightarrow> Done None
     | Inr db \<Rightarrow>
        (let db1 = case_sum (\<lambda>_. db) id (boltUpdate B db Inr);
             db2 = case_sum (\<lambda>_. db1) id (boltUpdate B db1 (\<lambda>tx.
               case txCreateBucketIfNotExists B tx ''MyBucket'' of
                 Inl err \<Rightarrow> Inl err
               | Inr tx' \<Rightarrow> bktPut B tx' ''MyBucket'' ''foo'' ''bar''))
         in case txBegin B db2 of
              Some err \<Rightarrow> Done (Some [])
            | None \<Rightarrow>
                if \<not> txBucket B db2 ''MyBucket'' then Panic NilDeref
                else Done (Some (''get recieved '' @
                  (case bktGet B db2 ''MyBucket'' ''foo'' of None \<Rightarrow> [] | Some v \<Rightarrow> v) @ [CHR 0x0A]))))"

context bolt_laws begin

text \<open>\<open>learnMain\<close> reads back what it put, if it gets that far.\<close>

lemma learnMain_reads_back:
  assumes "lsBolt L = B" and "lsEncode L (exampleDoc data) = Inr js" and "lsDecode L js = Inr d"
    and "learnMain L D data = Done (ms, doc, ms')"
  shows "doc = d \<and> ms = ms'"
proof -
  obtain p where p: "storePut L D ''example_store'' (exampleDoc data) = Inr (p, None)"
    using assms(4) by (auto simp: learnMain_def split: sum.splits prod.splits option.splits)
  let ?D1 = "closed D ''example_store'' p"
  from assms(4) p have get: "or_panic (storeGet L ?D1 ''example_store'' ''omanom'' ''123'') = Done doc"
    and "or_panic (storeSearch L ?D1 ''example_store'' ''omanom'' ''Byron'') = Done ms"
    and "or_panic (storeSearch L ?D1 ''example_store'' ''omanom'' ''Byron'') = Done ms'"
    by (auto simp: learnMain_def outcome_eqs Let_def)
  then have "ms = ms'" by simp
  obtain q where q: "AddDoc L q (exampleDoc data) = (p, None)" "ptName q = ''omanom''"
    using p by (auto simp: storePut_def getPartition_def OpenPartition_def exampleDoc_def split: sum.splits)
  note add = AddDoc_content [OF assms(1) q(1) assms(2)]
  have "getPartition ?D1 ''example_store'' ''omanom'' = Inr p"
    using add q(2) by (simp add: getPartition_def OpenPartition_def closed_def Let_def)
  with get have "or_panic (GetDoc L p (ldId (exampleDoc data))) = Done doc"
    by (simp add: storeGet_def exampleDoc_def)
  moreover from this have "txBegin B (ptBlock p) = None"
    using assms(1) by (auto simp: GetDoc_def or_panic_def split: option.splits)
  ultimately have "doc = d"
    using Get_after_Add [OF assms(1) q(1) assms(2)] assms(3) by (simp add: or_panic_def)
  with \<open>ms = ms'\<close> show ?thesis by simp
qed

lemma boltMain_prints_bar:
  assumes "\<And>db. txBegin B db = None" and "\<And>db. \<exists>db'. txCommit B db = Inr db'"
  shows "boltMain B (Inr db) = Done (Some (''get recieved bar'' @ [CHR 0x0A]))"
proof -
  obtain db1 where db1: "txCommit B db = Inr db1" using assms(2) by blast
  obtain db2 where db2: "txCreateBucketIfNotExists B db1 ''MyBucket'' = Inr db2"
    using create_ok [of "''MyBucket''" db1] by (auto simp: max_key_size_def)
  then have bucket: "txBucket B db2 ''MyBucket''" using create_content [OF db2] by (simp add: txBucket_content)
  then obtain db3 where db3: "bktPut B db2 ''MyBucket'' ''foo'' ''bar'' = Inr db3"
    using put_ok [of db2 "''MyBucket''" "''foo''" "''bar''"] by (auto simp: max_key_size_def max_value_size_def)
  obtain db4 where db4: "txCommit B db3 = Inr db4" using assms(2) by blast
  have "content_of B db4 ''MyBucket'' = Some ((bktGet B db2 ''MyBucket'')(''foo'' \<mapsto> ''bar''))"
    using commit_content [OF db4] put_content [OF bucket db3] by simp
  then have "txBucket B db4 ''MyBucket''" "bktGet B db4 ''MyBucket'' ''foo'' = Some ''bar''"
    by (auto simp: content_of_def split: if_splits)
  with db1 db2 db3 db4 assms(1) show ?thesis by (simp add: boltMain_def boltUpdate_def Let_def)
qed

end

end
