(* ===== verification/LearnZipper.thy ===== *)
theory LearnZipper
  imports Zipper
begin

text \<open>
  \<^verbatim>\<open>learn/bolt-bleve/zipper.go\<close>: the first packer of the repository. It collects the paths of all files
  before it packs any, and names the entries by their whole paths.
\<close>

section \<open>Collecting and packing\<close>

text \<open>The paths collected before an error are returned beside it.\<close>

fun getPathFiles :: "(string \<times> visit) list \<Rightarrow> string list \<times> gerror option" where
  "getPathFiles [] = ([], None)"
| "getPathFiles ((path, v) # ws) =
    (case v of
       WalkError err \<Rightarrow> ([], Some err)
     | Visit FDir _ \<Rightarrow> getPathFiles ws
     | Visit _ _ \<Rightarrow> (case getPathFiles ws of (ret, err) \<Rightarrow> (path # ret, err)))"

text \<open>
  \<open>open_file\<close> is what opening the file and asking for its mode gives; \<open>copy_err\<close> the error of copying it
  into the archive.
\<close>

record fileCalls =
  openFile :: "string \<Rightarrow> gerror + nat \<times> string"
  headerErr :: "string \<Rightarrow> gerror option"
  copyErr :: "string \<Rightarrow> gerror option"

definition could_not :: "string \<Rightarrow> string \<Rightarrow> gerror" where
  "could_not what path = ErrMsg (''Could not '' @ what @ '' '' @ path)"

definition addFileToTarWriter :: "fileCalls \<Rightarrow> string \<Rightarrow> tarHeader list \<times> gerror option" where
  "addFileToTarWriter F filePath =
    (case openFile F filePath of
       Inl err \<Rightarrow> ([], Some (could_not ''open'' filePath))
     | Inr (mode, bytes) \<Rightarrow>
        (case headerErr F filePath of
           Some err \<Rightarrow> ([], Some (could_not ''write header for'' filePath))
         | None \<Rightarrow>
            ([\<lparr>thName = filePath, thType = TypeReg, thMode = mode, thData = bytes\<rparr>],
             map_option (\<lambda>err. could_not ''copy'' filePath) (copyErr F filePath))))"

fun addFiles :: "fileCalls \<Rightarrow> string list \<Rightarrow> tarHeader list \<times> gerror option" where
  "addFiles F [] = ([], None)"
| "addFiles F (filePath # ps) =
    (case addFileToTarWriter F filePath of
       (h, Some err) \<Rightarrow> (h, Some (could_not ''add'' filePath))
     | (h, None) \<Rightarrow> (case addFiles F ps of (hs, err) \<Rightarrow> (h @ hs, err)))"

text \<open>No archive is begun if the walk fails.\<close>

definition WriteTarballToFD ::
  "fileCalls \<Rightarrow> (string \<times> visit) list \<Rightarrow> tarHeader list option \<times> gerror option" where
  "WriteTarballToFD F walk =
    (case getPathFiles walk of
       (_, Some locateError) \<Rightarrow> (None, Some locateError)
     | (filePaths, None) \<Rightarrow> (case addFiles F filePaths of (hs, err) \<Rightarrow> (Some hs, err)))"

text \<open>The target is created, or emptied, before the walk.\<close>

definition CreateTarball ::
  "fileCalls \<Rightarrow> (tarHeader list \<Rightarrow> string) \<Rightarrow> (fsys \<Rightarrow> (string \<times> visit) list) \<Rightarrow> string \<Rightarrow> fsys \<Rightarrow>
    fsys \<times> gerror option" where
  "CreateTarball F encode walk tarballFilePath fs =
    (if (case parent_dir tarballFilePath of None \<Rightarrow> False | Some q \<Rightarrow> fs q \<noteq> Some FDir) \<or>
        fs tarballFilePath = Some FDir
     then (fs, Some (could_not ''create tarball file'' tarballFilePath))
     else
      (let mode = (case fs tarballFilePath of Some (FFile m old) \<Rightarrow> m | _ \<Rightarrow> 420);
           fs1 = fs(tarballFilePath \<mapsto> FFile mode []);
           (hs, err) = WriteTarballToFD F (walk fs1)
       in (fs1(tarballFilePath \<mapsto> FFile mode (case hs of None \<Rightarrow> [] | Some h \<Rightarrow> encode h)), err)))"

section \<open>What it packs\<close>

lemma getPathFiles_paths:
  "\<forall>(path, v) \<in> set ws. \<exists>n e. v = Visit n e \<Longrightarrow>
    getPathFiles ws = (map fst (filter (\<lambda>(path, v). \<forall>e. v \<noteq> Visit FDir e) ws), None)"
  by (induction ws rule: getPathFiles.induct) (auto split: fnode.splits)

lemma addFiles_headers:
  "\<forall>p \<in> set ps. \<exists>m bytes. openFile F p = Inr (m, bytes) \<and> headerErr F p = None \<and> copyErr F p = None \<Longrightarrow>
    addFiles F ps = (map (\<lambda>p. \<lparr>thName = p, thType = TypeReg, thMode = fst (projr (openFile F p)),
      thData = snd (projr (openFile F p))\<rparr>) ps, None)"
  by (induction ps) (auto simp: addFileToTarWriter_def)

text \<open>
  An archive that is written has one entry for every file and none for a directory, so it cannot be
  unpacked by \<open>Untar\<close> where the directories are missing.
\<close>

lemma WriteTarballToFD_no_directories:
  assumes "WriteTarballToFD F walk = (Some hs, err)" and "h \<in> set hs"
  shows "thType h = TypeReg \<and> thName h \<in> fst ` set walk"
proof -
  have added: "h \<in> set (fst (addFiles F ps)) \<Longrightarrow> thType h = TypeReg \<and> thName h \<in> set ps" for ps
  proof (induction ps)
    case Nil
    then show ?case by simp
  next
    case (Cons p ps)
    then show ?case
      by (auto simp: addFileToTarWriter_def split: sum.splits option.splits prod.splits)
  qed
  have "set (fst (getPathFiles ws)) \<subseteq> fst ` set ws" for ws
    by (induction ws rule: getPathFiles.induct) (auto split: visit.splits fnode.splits prod.splits)
  moreover obtain ps where "getPathFiles walk = (ps, None)" "h \<in> set (fst (addFiles F ps))"
    using assms by (auto simp: WriteTarballToFD_def split: prod.splits option.splits)
  ultimately show ?thesis using added [of ps] by (metis fst_conv in_mono)
qed

lemma Untar_needs_directories:
  assumes "thType h = TypeReg" and "parent_dir (Join [dst, thName h]) = Some q" and "fs q \<noteq> Some FDir"
  shows "\<exists>err. Untar dst (h # hs) fs = (fs, Some err)"
  using assms by (simp add: writeFile_def Let_def)

end
