(* ===== verification/LearnRaft.thy ===== *)
theory LearnRaft
  imports Dir
begin

text \<open>
  \<^verbatim>\<open>learn/raft/main.go\<close>: a map of strings as a state machine of Dragonboat, and the console that feeds
  it. The program is a sketch: the state machine panics on what its own console proposes.
\<close>

section \<open>The state machine\<close>

text \<open>\<^verbatim>\<open>strings.Split(s, sep)\<close> for a separator of any length; an empty one cuts into characters, and the
  texts cut here are ASCII.\<close>

function split_sep :: "string \<Rightarrow> string \<Rightarrow> string \<Rightarrow> string list" where
  "split_sep sep acc [] = [rev acc]"
| "split_sep sep acc (c # s) =
    (if sep \<noteq> [] \<and> has_prefix (c # s) sep then rev acc # split_sep sep [] (drop (length sep) (c # s))
     else split_sep sep (c # acc) s)"
  by pat_completeness auto
termination
  by (relation "measure (\<lambda>(sep, acc, s). length s)") auto

definition SplitStrings :: "string \<Rightarrow> string \<Rightarrow> string list" where
  "SplitStrings s sep = (if sep = [] then map (\<lambda>c. [c]) s else split_sep sep [] s)"

type_synonym raftData = "string \<rightharpoonup> string"

datatype any_arg = Bytes string | OtherType

definition LookupData :: "raftData \<Rightarrow> any_arg \<Rightarrow> gerror + string" where
  "LookupData data a =
    (case a of
       OtherType \<Rightarrow> Inl (ErrMsg ''Lookup used wrong type'')
     | Bytes k \<Rightarrow> Inr (case data k of None \<Rightarrow> [] | Some v \<Rightarrow> v))"

text \<open>The arguments of \<^verbatim>\<open>Split\<close> are the wrong way round in the source: the text cut is \<^verbatim>\<open>=\<close>.\<close>

definition UpdateData :: "raftData \<Rightarrow> string \<Rightarrow> (raftData \<times> u64) outcome" where
  "UpdateData data cmd =
    (let parts = SplitStrings ''='' cmd in
     if length parts < 2 then Panic IndexOutOfRange
     else Done (data(parts ! 0 \<mapsto> parts ! 1), of_nat (length cmd)))"

definition SaveData :: "(raftData \<Rightarrow> gerror + string) \<Rightarrow> raftData \<Rightarrow> gerror + string" where
  "SaveData marshal data = marshal data"

text \<open>
  \<open>unmarshal\<close> gives the entries that \<^verbatim>\<open>json.Unmarshal\<close> could read and its error. Into a map that is there
  it adds entries and keeps the others.
\<close>

definition RecoverData ::
  "(string \<Rightarrow> raftData \<times> gerror option) \<Rightarrow> gerror + string \<Rightarrow> raftData \<Rightarrow> raftData \<times> gerror option" where
  "RecoverData unmarshal stream data =
    (case stream of
       Inl ioErr \<Rightarrow> (data, Some ioErr)
     | Inr jsData \<Rightarrow> (case unmarshal jsData of (m, jsErr) \<Rightarrow> (data ++ m, jsErr)))"

definition NewData :: raftData where
  "NewData = [''foo'' \<mapsto> ''bar'']"

lemma split_sep_one:
  "sep \<noteq> [] \<Longrightarrow> split_sep sep [] ''='' = (if sep = ''='' then [[], []] else [''=''])"
proof -
  assume "sep \<noteq> []"
  moreover from this have "has_prefix ''='' sep \<longleftrightarrow> sep = ''=''"
    by (cases sep) (auto simp: has_prefix_def)
  ultimately show ?thesis by simp
qed

declare split_sep.simps [simp del]

lemma UpdateData_cases:
  "UpdateData data cmd = (if cmd = ''='' then Done (data([] \<mapsto> []), 1) else Panic IndexOutOfRange)"
  by (cases "cmd = []") (simp_all add: UpdateData_def SplitStrings_def split_sep_one)

lemma RecoverData_restores:
  assumes "marshal saved = Inr js" and "unmarshal js = (saved, None)"
  shows "RecoverData unmarshal (SaveData marshal saved) data = (saved, None) \<longleftrightarrow> dom data \<subseteq> dom saved"
proof -
  have "data ++ saved = saved \<longleftrightarrow> dom data \<subseteq> dom saved"
  proof
    assume eq: "data ++ saved = saved"
    show "dom data \<subseteq> dom saved"
    proof
      fix k assume "k \<in> dom data"
      then have "(data ++ saved) k \<noteq> None" by (auto simp: map_add_def split: option.split)
      with eq show "k \<in> dom saved" by auto
    qed
  next
    assume "dom data \<subseteq> dom saved"
    then show "data ++ saved = saved" by (auto simp: map_add_def fun_eq_iff split: option.split)
  qed
  with assms show ?thesis by (simp add: RecoverData_def SaveData_def)
qed

section \<open>The console\<close>

text \<open>The white space of \<^verbatim>\<open>unicode.IsSpace\<close>, encoded.\<close>

definition space_runes :: "string list" where
  "space_runes =
    [[CHR 0x09], [CHR 0x0A], [CHR 0x0B], [CHR 0x0C], [CHR 0x0D], '' '', [CHR 0xC2, CHR 0x85], [CHR 0xC2, CHR 0xA0],
     [CHR 0xE1, CHR 0x9A, CHR 0x80]] @
    map (\<lambda>c. [CHR 0xE2, CHR 0x80, c]) [CHR 0x80, CHR 0x81, CHR 0x82, CHR 0x83, CHR 0x84, CHR 0x85, CHR 0x86,
      CHR 0x87, CHR 0x88, CHR 0x89, CHR 0x8A, CHR 0xA8, CHR 0xA9, CHR 0xAF] @
    [[CHR 0xE2, CHR 0x81, CHR 0x9F], [CHR 0xE3, CHR 0x80, CHR 0x80]]"

function trim_front :: "string list \<Rightarrow> string \<Rightarrow> string" where
  "trim_front sps s =
    (case find (\<lambda>sp. sp \<noteq> [] \<and> has_prefix s sp) sps of
       None \<Rightarrow> s
     | Some sp \<Rightarrow> trim_front sps (drop (length sp) s))"
  by pat_completeness auto
termination
proof (relation "measure (\<lambda>(sps, s). length s)")
  fix sps s sp
  assume "find (\<lambda>sp. sp \<noteq> [] \<and> has_prefix s sp) sps = Some sp"
  then have "sp \<noteq> []" "has_prefix s sp" by (auto simp: find_Some_iff)
  then have "s \<noteq> []" "0 < length sp" by (auto simp: has_prefix_def)
  then show "((sps, drop (length sp) s), sps, s) \<in> measure (\<lambda>(sps, s). length s)"
    by (cases s) auto
qed simp

declare trim_front.simps [simp del]

definition TrimSpace :: "string \<Rightarrow> string" where
  "TrimSpace s = rev (trim_front (map rev space_runes) (rev (trim_front space_runes s)))"

definition lower_ascii :: "char \<Rightarrow> char" where
  "lower_ascii c = (if 65 \<le> byte_of c \<and> byte_of c \<le> 90 then char_of (byte_of c + 32) else c)"

text \<open>
  \<^verbatim>\<open>strings.ToLower(s) == w\<close> for \<^verbatim>\<open>add\<close> and \<^verbatim>\<open>remove\<close>: no rune outside ASCII lowers to one of their letters.
\<close>

definition lowers_to :: "string \<Rightarrow> string \<Rightarrow> bool" where
  "lowers_to w s \<longleftrightarrow> map lower_ascii s = w"

datatype membershipCmd = AddReplica string u64 | RemoveReplica u64

definition errNotMembershipChange :: gerror where
  "errNotMembershipChange = ErrMsg ''not a membership change request''"

definition splitMembershipChangeCmd :: "string \<Rightarrow> (gerror + membershipCmd) outcome" where
  "splitMembershipChangeCmd v =
    (let parts = split_char CHR '' '' v in
     if length parts = 2 \<or> length parts = 3 then
       (let cmd = TrimSpace (parts ! 0) in
        if lowers_to ''add'' cmd then
          (if length parts < 3 then Panic IndexOutOfRange
           else Done (case parse_uint64 (TrimSpace (parts ! 2)) of
               (i, None) \<Rightarrow> Inr (AddReplica (TrimSpace (parts ! 1)) i)
             | (_, Some err) \<Rightarrow> Inl errNotMembershipChange))
        else if lowers_to ''remove'' cmd then
          Done (case parse_uint64 (TrimSpace (parts ! 1)) of
              (i, None) \<Rightarrow> Inr (RemoveReplica i)
            | (_, Some err) \<Rightarrow> Inl errNotMembershipChange)
        else Done (Inl errNotMembershipChange))
     else Done (Inl errNotMembershipChange))"

text \<open>What a line makes the console do; whatever it is, an ordinary line proposes the same text.\<close>

datatype consoleAction = ChangeMembership membershipCmd | Propose string

definition consoleLine :: "string \<Rightarrow> consoleAction outcome" where
  "consoleLine v =
    (let msg = (case split_char CHR 0x0A v of [] \<Rightarrow> [] | l # ls \<Rightarrow> l @ join_with CHR 0x0A ls) in
     map_outcome (\<lambda>r. case r of Inr c \<Rightarrow> ChangeMembership c | Inl err \<Rightarrow> Propose ''foo=bob'')
       (splitMembershipChangeCmd msg))"

lemma membership_panics:
  "(\<exists>e. splitMembershipChangeCmd v = Panic e) \<longleftrightarrow>
    length (split_char CHR '' '' v) = 2 \<and> lowers_to ''add'' (TrimSpace (split_char CHR '' '' v ! 0))"
  by (auto simp: splitMembershipChangeCmd_def Let_def)

text \<open>Every proposal of the console makes the state machine panic.\<close>

lemma consoleLine_proposes: "consoleLine v = Done (Propose p) \<Longrightarrow> p = ''foo=bob''"
proof -
  assume "consoleLine v = Done (Propose p)"
  then obtain r where r: "Propose p = (case r of Inr c \<Rightarrow> ChangeMembership c | Inl (err :: gerror) \<Rightarrow> Propose ''foo=bob'')"
    unfolding consoleLine_def Let_def outcome_eqs by blast
  then show ?thesis by (cases r) simp_all
qed

lemma proposals_panic: "consoleLine v = Done (Propose p) \<Longrightarrow> UpdateData data p = Panic IndexOutOfRange"
  using consoleLine_proposes [of v p] by (simp add: UpdateData_cases)

section \<open>The goroutines\<close>

text \<open>
  The calls on the node host, over a state of the cluster: a membership request fails at once, or is
  completed or not; a proposal has an error or none. The lines are what is printed, to either stream.
\<close>

record 'w learnHost =
  lhAddReplica :: "'w \<Rightarrow> u64 \<Rightarrow> u64 \<Rightarrow> string \<Rightarrow> 'w \<times> (gerror + bool)"
  lhDeleteReplica :: "'w \<Rightarrow> u64 \<Rightarrow> u64 \<Rightarrow> 'w \<times> (gerror + bool)"
  lhPropose :: "'w \<Rightarrow> u64 \<Rightarrow> string \<Rightarrow> 'w \<times> gerror option"

definition exampleShardID :: u64 where
  "exampleShardID = 128"

definition makeMembershipChange :: "'w learnHost \<Rightarrow> 'w \<Rightarrow> membershipCmd \<Rightarrow> 'w \<times> string" where
  "makeMembershipChange nh w cmd =
    (case (case cmd of
        AddReplica addr replicaID \<Rightarrow> lhAddReplica nh w exampleShardID replicaID addr
      | RemoveReplica replicaID \<Rightarrow> lhDeleteReplica nh w exampleShardID replicaID) of
       (w', Inl err) \<Rightarrow> (w', ''membership change failed'')
     | (w', Inr completed) \<Rightarrow>
         (w', if completed then ''membership change completed successfully'' else ''membership change failed''))"

text \<open>The worker that reads \<^verbatim>\<open>foo\<close> at every tick: what the ticks until it is stopped print. The result of
  a read has to be bytes.\<close>

fun periodicReader :: "(gerror + any_arg) list \<Rightarrow> string list outcome" where
  "periodicReader [] = Done []"
| "periodicReader (Inl err # rs) = periodicReader rs"
| "periodicReader (Inr (Bytes res) # rs) = map_outcome (\<lambda>out. (''res: '' @ res) # out) (periodicReader rs)"
| "periodicReader (Inr OtherType # rs) = Panic (ErrMsg ''interface conversion'')"

text \<open>A read is a \<open>Lookup\<close> of some replica, so the reader never fails, and prints the value that was there.\<close>

lemma periodicReader_prints:
  "periodicReader (map (\<lambda>data. map_sum id Bytes (LookupData data (Bytes ''foo''))) datas) =
    Done (map (\<lambda>data. ''res: '' @ (case data ''foo'' of None \<Rightarrow> [] | Some v \<Rightarrow> v)) datas)"
  by (induction datas) (simp_all add: LookupData_def)

text \<open>
  The reader of the console: the lines it hands on, and whether it stopped the workers (at \<^verbatim>\<open>exit\<close>) or
  closed the channel (at the end of the input).
\<close>

fun consoleReader :: "string list \<Rightarrow> string list \<times> bool" where
  "consoleReader [] = ([], False)"
| "consoleReader (s # ss) =
    (if s = ''exit'' @ [CHR 0x0A] then ([], True)
     else (case consoleReader ss of (sent, stopped) \<Rightarrow> (s # sent, stopped)))"

text \<open>The worker that takes the lines from the channel, until it is closed.\<close>

fun consoleWorker :: "'w learnHost \<Rightarrow> 'w \<Rightarrow> string list \<Rightarrow> ('w \<times> string list) outcome" where
  "consoleWorker nh w [] = Done (w, [])"
| "consoleWorker nh w (v # vs) =
    and_then (consoleLine v) (\<lambda>a.
      case a of
        ChangeMembership cmd \<Rightarrow>
          (case makeMembershipChange nh w cmd of
             (w', msg) \<Rightarrow> map_outcome (\<lambda>(w'', out). (w'', msg # out)) (consoleWorker nh w' vs))
      | Propose p \<Rightarrow>
          (case lhPropose nh w exampleShardID p of
             (w', Some err) \<Rightarrow>
               map_outcome (\<lambda>(w'', out). (w'', ''SyncPropose returned error'' # out)) (consoleWorker nh w' vs)
           | (w', None) \<Rightarrow> consoleWorker nh w' vs))"

text \<open>The worker reads every line up to \<^verbatim>\<open>exit\<close>, and panics exactly at a line that the parser of
  membership changes panics at.\<close>

lemma consoleReader_lines:
  "fst (consoleReader ss) = takeWhile (\<lambda>s. s \<noteq> ''exit'' @ [CHR 0x0A]) ss"
  by (induction ss) (auto split: prod.split)

lemma consoleReader_stops: "snd (consoleReader ss) \<longleftrightarrow> ''exit'' @ [CHR 0x0A] \<in> set ss"
  by (induction ss) (auto split: prod.split)

lemma consoleWorker_panics:
  "(\<exists>e. consoleWorker nh w vs = Panic e) \<longleftrightarrow> (\<exists>v \<in> set vs. \<exists>e. consoleLine v = Panic e)"
proof (induction vs arbitrary: w)
  case Nil
  then show ?case by simp
next
  case (Cons v vs)
  show ?case
  proof (cases "consoleLine v")
    case (Panic e)
    then show ?thesis by auto
  next
    case (Done a)
    have mapped: "(\<exists>e. map_outcome f (consoleWorker nh w' vs) = Panic e) \<longleftrightarrow>
        (\<exists>e. consoleWorker nh w' vs = Panic e)" for f :: "'a \<times> string list \<Rightarrow> 'a \<times> string list" and w'
      by (cases "consoleWorker nh w' vs") auto
    show ?thesis
    proof (cases a)
      case (ChangeMembership cmd)
      with Done Cons.IH show ?thesis by (simp add: split_beta mapped)
    next
      case (Propose p)
      with Done Cons.IH show ?thesis
        by (cases "snd (lhPropose nh w exampleShardID p)") (simp_all add: split_beta mapped)
    qed
  qed
qed

section \<open>Starting\<close>

text \<open>
  The members and the address of a node: an address on the command line, else the one listed for the
  identifier; with neither, the process ends with status 1.
\<close>

definition addresses :: "string list" where
  "addresses = [''localhost:63001'', ''localhost:63002'', ''localhost:63003'']"

record raftNode =
  rnMembers :: "u64 \<rightharpoonup> string"
  rnAddress :: string
  rnReplicaID :: u64
  rnShardID :: u64
  rnElectionRTT :: u64
  rnHeartbeatRTT :: u64
  rnCheckQuorum :: bool
  rnSnapshotEntries :: u64
  rnCompactionOverhead :: u64
  rnDir :: string
  rnRTTMillisecond :: u64

definition raftMain :: "i64 \<Rightarrow> string \<Rightarrow> bool \<Rightarrow> nat + raftNode" where
  "raftMain replicaID addr joins =
    (if addr = [] \<and> replicaID \<noteq> 1 \<and> replicaID \<noteq> 2 \<and> replicaID \<noteq> 3 then Inl 1
     else
      (let initialMembers = (if joins then Map.empty
             else map_of (zip (map (\<lambda>idx. of_nat (idx + 1)) [0..<length addresses]) addresses))
       in Inr \<lparr>rnMembers = initialMembers,
         rnAddress = (if addr \<noteq> [] then addr else case initialMembers replicaID of None \<Rightarrow> [] | Some a \<Rightarrow> a),
         rnReplicaID = replicaID, rnShardID = exampleShardID, rnElectionRTT = 10, rnHeartbeatRTT = 1,
         rnCheckQuorum = True, rnSnapshotEntries = 10, rnCompactionOverhead = 5,
         rnDir = Join [''example-data'', ''helloworld-data'', ''node'' @ fmt_i64 replicaID],
         rnRTTMillisecond = 200\<rparr>))"

text \<open>The node host is made and the replica started: an error of the first panics, one of the second ends the
  process with status 1. The addresses of an \<open>Inr\<close> are those of the replica that runs.\<close>

definition raftStart ::
  "(raftNode \<Rightarrow> gerror option) \<Rightarrow> (raftNode \<Rightarrow> gerror option) \<Rightarrow> i64 \<Rightarrow> string \<Rightarrow> bool \<Rightarrow> (nat + raftNode) outcome" where
  "raftStart newNodeHost startReplica replicaID addr joins =
    (case raftMain replicaID addr joins of
       Inl status \<Rightarrow> Done (Inl status)
     | Inr n \<Rightarrow>
        (case newNodeHost n of
           Some err \<Rightarrow> Panic err
         | None \<Rightarrow> (case startReplica n of Some err \<Rightarrow> Done (Inl 1) | None \<Rightarrow> Done (Inr n))))"

text \<open>A node that joins without an address of its own is started with an empty one.\<close>

lemma join_without_address:
  "raftMain i [] True = Inr n \<Longrightarrow> rnAddress n = []"
  by (auto simp: raftMain_def Let_def split: if_splits)

lemma first_nodes_listed:
  assumes "raftMain i [] False = Inr n"
  shows "rnMembers n i = Some (rnAddress n) \<and> rnAddress n \<in> set addresses"
proof -
  have "i = 1 \<or> i = 2 \<or> i = 3" using assms by (auto simp: raftMain_def split: if_splits)
  then show ?thesis using assms by (auto simp: raftMain_def addresses_def Let_def upt_rec)
qed

end
