(* ===== verification/LearnBleve.thy ===== *)
theory LearnBleve
  imports Document Prelude
begin

text \<open>
  \<^verbatim>\<open>learn/bleve/main.go\<close>: an index is made with one person in it, if it can be made, and two queries are
  put to it. bleve is a parameter, over the state of the directory that the index is in.
\<close>

record Person =
  psName :: string
  psAge :: int
  psAlive :: bool
  psAddress :: "(string \<times> string) list"

record ('d, 'r) bleveDir =
  bdNew :: "'d \<Rightarrow> gerror + 'd"
  bdIndex :: "'d \<Rightarrow> string \<Rightarrow> Person \<Rightarrow> gerror + 'd"
  bdOpen :: "'d \<Rightarrow> gerror option"
  bdSearch :: "'d \<Rightarrow> string \<Rightarrow> gerror + 'r"

definition examplePerson :: Person where
  "examplePerson = \<lparr>psName = ''Byron'', psAge = 31, psAlive = True, psAddress = [(''postcode'', ''W9 1UH'')]\<rparr>"

text \<open>The error of making the index ends the function, the one of indexing is dropped.\<close>

definition createIndex :: "('d, 'r) bleveDir \<Rightarrow> 'd \<Rightarrow> 'd" where
  "createIndex B d =
    (case bdNew B d of
       Inl err \<Rightarrow> d
     | Inr d1 \<Rightarrow> (case bdIndex B d1 ''id'' examplePerson of Inl err \<Rightarrow> d1 | Inr d2 \<Rightarrow> d2))"

definition queryIndex :: "('d, 'r) bleveDir \<Rightarrow> 'd \<Rightarrow> string \<Rightarrow> (string \<times> 'r) outcome" where
  "queryIndex B d q =
    (case bdOpen B d of
       Some err \<Rightarrow> Panic err
     | None \<Rightarrow> (case bdSearch B d q of Inl err \<Rightarrow> Panic err | Inr searchResults \<Rightarrow> Done (q, searchResults)))"

text \<open>What \<^verbatim>\<open>main\<close> leaves in the directory and prints.\<close>

definition bleveMain :: "('d, 'r) bleveDir \<Rightarrow> 'd \<Rightarrow> ('d \<times> (string \<times> 'r) list) outcome" where
  "bleveMain B d =
    (let d1 = createIndex B d in
     and_then (queryIndex B d1 ''name:\"Foo\"'') (\<lambda>a.
     and_then (queryIndex B d1 (''address.postcode:W9'' @ [CHR 0x5C] @ '' 1UH'')) (\<lambda>b.
       Done (d1, [a, b]))))"

text \<open>A second run finds the index made, leaves it as it is and prints the same.\<close>

lemma bleveMain_again:
  assumes "bleveMain B d = Done (d1, out)" and "bdNew B d1 = Inl err"
  shows "bleveMain B d1 = Done (d1, out)"
proof -
  have d1: "d1 = createIndex B d" using assms(1) by (auto simp: bleveMain_def Let_def outcome_eqs)
  have "createIndex B d1 = d1" using assms(2) by (simp add: createIndex_def)
  with assms(1) d1 show ?thesis by (simp add: bleveMain_def Let_def)
qed

end
