(* ===== verification/Spec2Isabelle.thy ===== *)
theory Spec2Isabelle
  imports Anomalies Concurrent Storage Api Snapshot Restart Startup Session Workers ClientRun Logger IndexMapping TornSync ClusterSafety
    LearnStore LearnZipper LearnRaft LearnBleve
begin

text \<open>
  A verification library for \<^bold>\<open>bydb\<close>, a replicated document store in Go. Texts of commands reach a node
  over gRPC (\<^verbatim>\<open>api/api.go\<close>); those that alter the database go through the raft log of Dragonboat to the
  state machine of every node (\<^verbatim>\<open>statemachine/statemachine.go\<close>), which decides them in \<^verbatim>\<open>Update\<close>, keeps
  what it accepts in a queue, and writes the queue to 36 shards in \<^verbatim>\<open>Sync\<close>; each shard
  (\<^verbatim>\<open>statemachine/shard.go\<close>) is a bolt database of documents and a bleve index. Reads go to \<^verbatim>\<open>Lookup\<close>,
  which looks at the queue and then at the shard.

  \<^bold>\<open>Theories and sources.\<close>

  \<^item> \<open>Prelude\<close>: errors (\<open>gerror\<close>), and \<open>outcome\<close>, a result or a panic. A Go function that returns an error
  returns \<open>gerror + 'a\<close>, or the state beside \<open>gerror option\<close> where it changes the state before it fails.
  \<^item> \<open>GoLib\<close>, \<open>Regex\<close>: what the source uses of \<^verbatim>\<open>strings\<close>, \<^verbatim>\<open>strconv\<close>, \<^verbatim>\<open>unicode/utf8\<close>, \<^verbatim>\<open>fmt\<close> and \<^verbatim>\<open>regexp\<close>.
  Strings are byte strings; 64-bit numbers are words. \<open>Regex\<close> compiles the subset of the syntax that
  the patterns of the source are written in, and matches leftmost-greedily.
  \<^item> \<open>Document\<close>, \<open>Response\<close>, \<open>Command\<close>: \<^verbatim>\<open>document.go\<close>, \<^verbatim>\<open>response.go\<close>, \<^verbatim>\<open>command.go\<close>. The table of formats is
  a locale, \<open>command_table\<close>, interpreted on the table of the source; \<open>wire\<close> is the grammar that
  \<open>ParseCommand\<close> is proved equivalent to.
  \<^item> \<open>Store\<close>: bolt and bleve as records of calls, the laws of bolt as the locale \<open>bolt_laws\<close>, and a store in
  memory that satisfies them.
  \<^item> \<open>Shard\<close>: \<^verbatim>\<open>shard.go\<close>. \<open>shard_laws\<close> and \<open>reliable_libs\<close> extend the laws of bolt; the latter says that no
  library call fails for a reason of its own.
  \<^item> \<open>StateMachine\<close>: \<^verbatim>\<open>statemachine.go\<close> from \<open>getFirstRune\<close> to \<open>Sync\<close>. The state is \<open>ByStateMachine\<close>, its field
  \<open>pending\<close> the queue. \<open>Update\<close> and \<open>Sync\<close> take the order in which Go walks through the map of shards as
  an argument.
  \<^item> \<open>Dir\<close>, \<open>Lifecycle\<close>, \<open>Zipper\<close>, \<open>Snapshot\<close>: \<^verbatim>\<open>dir.go\<close>; \<open>Open\<close> and \<open>Close\<close>; \<^verbatim>\<open>zipper.go\<close> on a file system
  that maps paths to nodes; and the three snapshot operations.
  \<^item> \<open>Config\<close>, \<open>Startup\<close>: \<^verbatim>\<open>config.go\<close>; what \<^verbatim>\<open>server.go\<close> decides, its \<^verbatim>\<open>main\<close> as a whole (\<open>runServer\<close>), and the first
  and second start of a node.
  \<^item> \<open>Client\<close>, \<open>Api\<close>, \<open>ClientRun\<close>, \<open>Logger\<close>: \<^verbatim>\<open>client.go\<close>, \<^verbatim>\<open>api.go\<close>, \<^verbatim>\<open>logger.go\<close>. The node host of Dragonboat is a record of
  calls, and the locale \<open>raft_over_sm\<close> says what its documentation promises of them.
  \<^item> \<open>IndexMapping\<close>: the mapping of \<^verbatim>\<open>index.go\<close>, and which fields it indexes. What bleve finds is bleve's.
  \<^item> \<open>Preseed\<close>, \<open>Session\<close>, \<open>Workers\<close>: \<^verbatim>\<open>preseed.go\<close>, the load generator: what it sends, what the database
  answers, and how the workers of a batch send, share their results and report, over servers that are a
  parameter.
  \<^item> \<open>LearnStore\<close>, \<open>LearnZipper\<close>, \<open>LearnRaft\<close>, \<open>LearnBleve\<close>: the programs of \<^verbatim>\<open>learn/\<close> that the server grew out of.

  \<^bold>\<open>Specification and refinement.\<close> \<open>Contract\<close> states what the README promises, on the content alone:
  partitions that map keys to document texts, a code and an effect for each command. \<open>Queue\<close> says what
  a queue of commands makes of a content, and \<open>Refine.db_view\<close> is the content a state stands for: the
  shards with the queue applied. \<open>Update\<close> and \<open>Sync\<close> prove the two operations against it: a batch whose
  commands do not meet gets the codes and has the effect of the contract, and a sync leaves the view
  as it is. \<open>History\<close> puts batches, syncs and reads into runs, as steps of \<open>sm_step\<close>, and lifts the
  simulation to runs in the locale \<open>simulation\<close>; \<open>Machine\<close>, and the section below on restarts, draw the
  conclusions; \<open>Concurrent\<close> lets a read overlap the calls, with its two halves at different moments of
  them. \<open>Cluster\<close> puts replicas on a committed log: its steps (\<open>cluster_step\<close>) commit an entry, apply a batch
  of the log at a replica, sync it, stop it and open it again, and move a snapshot from one to another,
  with \<open>Update\<close>, \<open>Sync\<close>, \<open>Open\<close>, \<open>PrepareSnapshot\<close>, \<open>SaveSnapshot\<close> and \<open>RecoverFromSnapshot\<close> as they are; the
  invariant \<open>replica_ok\<close> ties the stored index to the place in the log, and \<open>ClusterSafety\<close> draws the
  conclusions. A snapshot goes through the file systems: \<open>SnapshotTransfer\<close> packs the sender's data directory, whose
  files hold its databases, and unpacks it over the receiver's, and the receiver's open databases are then
  what is read from the files at their paths (\<open>seen_files\<close>). That an open bolt database reads what is in its
  file is an assumption on bolt; bleve's indexes are left as they are.

  \<^bold>\<open>Limits.\<close> The refinement holds for batches that are safe (\<open>batch_safe\<close>): no two commands of a batch
  meet, none finds a queued \<open>DEL\<close> as the newest command it meets, and the commands of one shard either all
  find something in the queue or none finds the creation or deletion of its partition. And it holds for \<open>GET\<close>s whose
  newest queued command is not the creation of a partition over an old document (\<open>not_recreated\<close>). Neither can be
  dropped: \<open>Anomalies\<close> shows, over any libraries that work, what the code does otherwise, and other behaviour
  that its comments or its README do not announce. The steps of the cluster ask beyond that that snapshots find
  no queue on either side (\<open>SnapshotTransfer\<close> shows what happens with one), and that a \<open>Sync\<close> is not
  interrupted (\<open>TornSync\<close> interrupts it after any of its shards, and \<open>Replay\<close> says what a log does to a
  content that lies between the one before it and the one after it). Every property that rests on a limit names it.

  \<^bold>\<open>Groups of lemmas.\<close> \<open>Machine\<close>: refinement, durability, reads, agreement of replicas. \<open>Cluster\<close>,
  \<open>ClusterSafety\<close>, \<open>TornSync\<close>, \<open>SnapshotTransfer\<close>: the cluster, crashes between calls and in a \<open>Sync\<close>,
  snapshots. \<open>Storage\<close>: the grammar, updates of documents and index, searches, opening and closing. \<open>Config\<close>, \<open>Startup\<close>: addresses, precedence,
  modes. \<open>Api\<close>: requests end to end. \<open>ClientRun\<close>:
  sessions from the prompt to the database. \<open>Zipper\<close>, \<open>Snapshot\<close>: round trips. \<open>Session\<close>, \<open>Workers\<close>: the load
  generator against the contract, how its batches end, and its race. \<open>Example\<close> holds the concrete store, documents and runs
  that the witnesses use.

  \<^bold>\<open>Loops.\<close> All loops are structural recursions or have a measure (\<open>mkdirAll\<close> on the length of the path,
  \<open>replace_all\<close> on the text); no definition uses fuel. The goroutines of \<open>Sync\<close> work on different
  shards and run here one after the other; the workers of the load generator share a result without
  a lock, and \<open>Workers\<close> interleaves their steps and bounds their number.

  \<^bold>\<open>Not modelled.\<close> gRPC, the prompt and other input and output; the generated protocol code under
  \<^verbatim>\<open>proto/\<close>; Dragonboat, bolt, bleve, the JSON and YAML decoders and the tar and gzip formats, which are
  parameters; the data race on the queue, a slice that reads and writes share without a lock
  (\<open>Concurrent\<close> takes reading it to be atomic); descriptors and when they are closed; a node that stops in
  the middle of unpacking a snapshot; in \<^verbatim>\<open>learn/raft\<close> how the goroutines stop each other.
\<close>

section \<open>Stopping and starting again\<close>

text \<open>C8: A node that stops after a \<open>Sync\<close> comes back as it was: \<open>Open\<close> finds the databases, returns
  the index that the \<open>Sync\<close> stored, which covers every entry that was queued, and the view is the
  one from before the \<open>Sync\<close>.\<close>

theorem restart_after_Sync:
  assumes "reliable_libs L" and "run_inv L s" and "distinct order" and "set order = dom (shardMap s)"
    and "Sync L order s = Done (s1, None)" and "on_disk P prefix s1"
  shows "\<exists>s2. Open L P prefix NewByStateMachine = Done (s2, lastIndex s1, None) \<and>
    lastIndex s1 = Max (insert (lastIndex s) (ueIndex ` set (pending s))) \<and>
    lastIndex s2 = lastIndex s1 \<and> db_view L s2 = db_view L s \<and> run_inv L s2"
proof -
  obtain m where m: "db_view L s = Some m" using assms(2) by (auto simp: run_inv_def sm_inv_def)
  have s1: "pending s1 = []" "db_view L s1 = Some m" "sm_inv L s1" "meta_ready L s1"
    "lastIndex s1 = Max (insert (lastIndex s) (ueIndex ` set (pending s)))"
    "stored_index L s1 = Done (lastIndex s1, None)"
    using reliable_libs.Sync_flushes [OF assms(1) _ m _ _ assms(3,4)] assms(2,5)
    by (auto simp: run_inv_def list_all_iff)
  then have inv: "run_inv L s1" by (simp add: run_inv_def)
  obtain s2 where s2: "Open L P prefix NewByStateMachine = Done (s2, lastIndex s1, None)"
      "shardMap s2 = shardMap s1" "pending s2 = []" "lastIndex s2 = lastIndex s1" "meta_ready L s2"
    using reliable_libs.Open_again [OF assms(1,6) s1(4,6)] by blast
  with reliable_libs.Open_again_run_inv [OF assms(1) inv s1(1) s2(2,3,5)] s1(2,5) m show ?thesis by simp
qed

theorem restart_after_Sync_witness:
  "\<exists>s1 s2. Sync exLibs alphabet_runes exQueued = Done (s1, None) \<and>
    Open exLibs (diskOf ''n'' s1) ''n'' NewByStateMachine = Done (s2, 9, None) \<and>
    db_view exLibs s2 = Some [''a'' \<mapsto> Map.empty]"
proof -
  have order: "set alphabet_runes = dom (shardMap exQueued)" using dom_exStored by simp
  obtain s1 where s1: "Sync exLibs alphabet_runes exQueued = Done (s1, None)"
      "dom (shardMap s1) = dom (shardMap exQueued)" "meta_ready exLibs s1"
    using reliable_libs.Sync_flushes [OF reliable_exLibs exQueued_ok(1) view_exQueued exQueued_ok(2,3)
        distinct_alphabet_runes order] by blast
  then have disk: "on_disk (diskOf ''n'' s1) ''n'' s1"
    using order by (intro on_diskOf) (auto simp: meta_ready_def split: option.splits)
  have inv: "run_inv exLibs exQueued" using exQueued_ok by (simp add: run_inv_def)
  from restart_after_Sync [OF reliable_exLibs inv distinct_alphabet_runes order s1(1) disk] s1(1) view_exQueued
  show ?thesis by auto
qed

end
